(* ===== verification/Go_Base.thy ===== *)
theory Go_Base
  imports Complex_Main "HOL-Library.Word" "HOL-Library.AList" "HOL-Library.Char_ord"
    "HOL-Library.List_Lexorder" "HOL-Library.Multiset"
begin

text \<open>
  The prelude of the development: how Go's strings, maps and panics are read in HOL, with the
  lemmas every component shares.

  A Go \<open>string\<close> is a sequence of bytes, here a \<^typ>\<open>string\<close> (a list of 8-bit characters).
  A Go \<open>map\<close> is an association list with distinct keys; the order of the list is the order in
  which a \<open>range\<close> over the map visits the entries. Go leaves that order open, so a statement
  about every association list is a statement about every iteration order.
  A run-time panic is a value of the sum type \<open>panic + 'a\<close>.
  The functions of package \<open>strings\<close> are byte functions: case mapping and white space cover the
  ASCII range, and bytes from 128 on are left as they are.
\<close>

named_theorems go_simps \<open>equations of the Go standard library functions\<close>
named_theorems go_intros \<open>introduction rules shared by the components\<close>

section \<open>Panics and maps\<close>

datatype panic = NilDeref | IndexRange

type_synonym ('k, 'v) gomap = "('k \<times> 'v) list"

abbreviation wf_map :: "('k, 'v) gomap \<Rightarrow> bool" where
  "wf_map m \<equiv> distinct (map fst m)"

definition mget :: "('k, string) gomap \<Rightarrow> 'k \<Rightarrow> string" where
  "mget m k = (case map_of m k of None \<Rightarrow> '''' | Some v \<Rightarrow> v)"

definition perm_of :: "('k, 'v) gomap \<Rightarrow> ('k, 'v) gomap \<Rightarrow> bool" where
  "perm_of a b \<longleftrightarrow> mset a = mset b"

lemma perm_of_refl [simp, go_intros]: "perm_of m m"
  by (simp add: perm_of_def)

lemma perm_of_set: "perm_of a b \<Longrightarrow> set a = set b"
  unfolding perm_of_def by (metis set_mset_mset)

lemma perm_of_wf: "perm_of a b \<Longrightarrow> wf_map b \<Longrightarrow> wf_map a"
  unfolding perm_of_def by (metis mset_map mset_eq_imp_distinct_iff)

lemma perm_of_map_of:
  assumes "perm_of a b" and "wf_map b"
  shows "map_of a = map_of b"
  using assms perm_of_set [OF assms(1)] perm_of_wf [OF assms] by (intro map_of_inject_set [THEN iffD2])

lemma map_of_Some_in_set: "wf_map m \<Longrightarrow> (map_of m k = Some v) = ((k, v) \<in> set m)"
  by (simp add: map_of_eq_Some_iff)

lemma update_absent: "k \<notin> fst ` set m \<Longrightarrow> AList.update k v m = m @ [(k, v)]"
  by (induction m) auto

section \<open>Package strings\<close>

definition has_prefix :: "string \<Rightarrow> string \<Rightarrow> bool" where
  "has_prefix s p \<longleftrightarrow> take (length p) s = p"

lemma has_prefix_iff [go_simps]: "has_prefix s p \<longleftrightarrow> (\<exists>t. s = p @ t)"
  unfolding has_prefix_def by (metis append_eq_conv_conj append_take_drop_id)

definition trim_prefix :: "string \<Rightarrow> string \<Rightarrow> string" where
  "trim_prefix s p = (if has_prefix s p then drop (length p) s else s)"

fun str_index :: "string \<Rightarrow> string \<Rightarrow> nat option" where
  "str_index [] sub = (if sub = [] then Some 0 else None)"
| "str_index (c # s) sub =
     (if has_prefix (c # s) sub then Some 0 else map_option Suc (str_index s sub))"

definition str_contains :: "string \<Rightarrow> string \<Rightarrow> bool" where
  "str_contains s sub \<longleftrightarrow> str_index s sub \<noteq> None"

lemma str_index_Some: "str_index s sub = Some i \<Longrightarrow> s = take i s @ sub @ drop (i + length sub) s"
proof (induction s arbitrary: i)
  case Nil
  then show ?case by (auto split: if_splits)
next
  case (Cons c s)
  show ?case
  proof (cases "has_prefix (c # s) sub")
    case True
    with Cons.prems have "i = 0" by simp
    with True show ?thesis by (auto simp: has_prefix_iff)
  next
    case False
    with Cons.prems obtain j where j: "str_index s sub = Some j" "i = Suc j" by auto
    from Cons.IH [OF j(1)] j(2) show ?thesis by simp
  qed
qed

lemma str_index_None: "str_index s sub = None \<Longrightarrow> s \<noteq> a @ sub @ b"
proof (induction s arbitrary: a)
  case Nil
  then show ?case by (auto split: if_splits)
next
  case (Cons c s)
  then have np: "\<not> has_prefix (c # s) sub" and n: "str_index s sub = None"
    by (auto split: if_splits)
  show ?case
  proof
    assume eq: "c # s = a @ sub @ b"
    show False
    proof (cases a)
      case Nil
      with eq np show False by (simp add: has_prefix_iff)
    next
      case (Cons x a')
      with eq have "s = a' @ sub @ b" by simp
      with Cons.IH [OF n] show False by blast
    qed
  qed
qed

lemma str_contains_iff [go_simps]: "str_contains s sub \<longleftrightarrow> (\<exists>a b. s = a @ sub @ b)"
  unfolding str_contains_def
  using str_index_Some [of s sub] str_index_None [of s sub] by (cases "str_index s sub") auto

text \<open>\<open>strings.SplitN(s, sep, 2)\<close>: at most one cut, at the first separator.\<close>

definition split_n2 :: "string \<Rightarrow> string \<Rightarrow> string list" where
  "split_n2 s sep =
     (case str_index s sep of None \<Rightarrow> [s] | Some i \<Rightarrow> [take i s, drop (i + length sep) s])"

text \<open>\<open>strings.Split\<close> by a one-byte separator, and \<open>strings.Join\<close>.\<close>

fun split_by :: "(char \<Rightarrow> bool) \<Rightarrow> string \<Rightarrow> string list" where
  "split_by p [] = [[]]"
| "split_by p (c # s) =
     (if p c then [] # split_by p s
      else (case split_by p s of [] \<Rightarrow> [[c]] | w # ws \<Rightarrow> (c # w) # ws))"

definition split_on :: "char \<Rightarrow> string \<Rightarrow> string list" where
  "split_on sep = split_by (\<lambda>c. c = sep)"

fun str_join :: "string \<Rightarrow> string list \<Rightarrow> string" where
  "str_join sep [] = []"
| "str_join sep [w] = w"
| "str_join sep (w # v # ws) = w @ sep @ str_join sep (v # ws)"

lemma split_by_nonempty [simp]: "split_by p s \<noteq> []"
  by (induction s) (auto split: list.splits)

lemma split_on_nonempty [simp]: "split_on sep s \<noteq> []"
  by (simp add: split_on_def)

lemma split_by_word: "\<forall>c\<in>set w. \<not> p c \<Longrightarrow> split_by p w = [w]"
  by (induction w) auto

lemma split_by_sep:
  "\<forall>c\<in>set w. \<not> p c \<Longrightarrow> p d \<Longrightarrow> split_by p (w @ d # s) = w # split_by p s"
  by (induction w) auto

lemma split_by_pieces: "w \<in> set (split_by p s) \<Longrightarrow> c \<in> set w \<Longrightarrow> \<not> p c \<and> c \<in> set s"
proof (induction s arbitrary: w)
  case (Cons d s)
  obtain v vs where sp: "split_by p s = v # vs" by (metis split_by_nonempty neq_Nil_conv)
  have IH: "\<And>w. w \<in> set (v # vs) \<Longrightarrow> c \<in> set w \<Longrightarrow> \<not> p c \<and> c \<in> set s"
    using Cons.IH unfolding sp by blast
  show ?case using Cons.prems IH [of v] IH [of w] by (auto simp: sp split: if_splits)
qed simp

lemma split_by_join:
  assumes "ws \<noteq> []" and "\<forall>w\<in>set ws. \<forall>c\<in>set w. \<not> p c" and "p d"
  shows "split_by p (str_join [d] ws) = ws"
  using assms
proof (induction "[d]" ws rule: str_join.induct)
  case (3 w v ws)
  then show ?case by (simp add: split_by_sep)
qed (simp_all add: split_by_word)

lemma join_split_on: "str_join [sep] (split_on sep s) = s"
proof (induction s)
  case (Cons c s)
  obtain w ws where sp: "split_on sep s = w # ws"
    by (metis split_on_nonempty neq_Nil_conv)
  with Cons show ?case by (cases ws) (auto simp: split_on_def)
qed (simp add: split_on_def)

definition to_upper_c :: "char \<Rightarrow> char" where
  "to_upper_c c = (if CHR ''a'' \<le> c \<and> c \<le> CHR ''z'' then char_of (of_char c - 32 :: nat) else c)"

definition to_lower_c :: "char \<Rightarrow> char" where
  "to_lower_c c = (if CHR ''A'' \<le> c \<and> c \<le> CHR ''Z'' then char_of (of_char c + 32 :: nat) else c)"

definition to_upper :: "string \<Rightarrow> string" where
  "to_upper s = map to_upper_c s"

definition to_lower :: "string \<Rightarrow> string" where
  "to_lower s = map to_lower_c s"

definition replace_c :: "char \<Rightarrow> char \<Rightarrow> string \<Rightarrow> string" where
  "replace_c a b s = map (\<lambda>c. if c = a then b else c) s"

definition is_space :: "char \<Rightarrow> bool" where
  "is_space c \<longleftrightarrow> (let n = of_char c :: nat in n = 32 \<or> (9 \<le> n \<and> n \<le> 13))"

definition trim_space :: "string \<Rightarrow> string" where
  "trim_space s = rev (dropWhile is_space (rev (dropWhile is_space s)))"

text \<open>\<open>strings.LastIndex\<close> by a one-byte separator.\<close>

fun last_index :: "char \<Rightarrow> string \<Rightarrow> nat option" where
  "last_index sep [] = None"
| "last_index sep (c # s) =
     (case last_index sep s of
        Some i \<Rightarrow> Some (Suc i)
      | None \<Rightarrow> if c = sep then Some 0 else None)"

lemma last_index_None: "last_index sep s = None \<longleftrightarrow> sep \<notin> set s"
  by (induction s) (auto split: option.splits)

lemma last_index_append: "sep \<notin> set t \<Longrightarrow> last_index sep (s @ sep # t) = Some (length s)"
proof (induction s)
  case Nil
  then show ?case using last_index_None [of sep t] by simp
qed simp

lemma is_space_simps [simp]:
  "is_space CHR '' ''" "\<not> is_space CHR '':''" "\<not> is_space CHR ''/''"
  by (simp_all add: is_space_def Let_def)

definition is_alnum :: "char \<Rightarrow> bool" where
  "is_alnum c \<longleftrightarrow> (CHR ''a'' \<le> c \<and> c \<le> CHR ''z'') \<or> (CHR ''A'' \<le> c \<and> c \<le> CHR ''Z'')
     \<or> (CHR ''0'' \<le> c \<and> c \<le> CHR ''9'')"

section \<open>Lists\<close>

text \<open>The first entry of a list that passes a test, with what comes before it.\<close>

lemma find_Some_split:
  "find p xs = Some x \<Longrightarrow> \<exists>us vs. xs = us @ x # vs \<and> p x \<and> (\<forall>u\<in>set us. \<not> p u)"
  by (induction xs) (auto split: if_splits intro: exI [of _ "[]"], metis append_Cons set_ConsD)

lemma fold_update_map_of:
  "map_of (fold (\<lambda>(k, v). AList.update k (f k v)) xs m)
     = map_of m ++ map_of (rev (map (\<lambda>(k, v). (k, f k v)) xs))"
  by (induction xs arbitrary: m) (auto simp: update_conv' fun_eq_iff map_add_def split: option.splits)

end
