(* ===== verification/Cp_Types.thy ===== *)
theory Cp_Types
  imports Go_Base
begin

text \<open>
  The data of package \<open>controlplane\<close> (\<open>types.go\<close>, \<open>types_string.go\<close>, \<open>regions.go\<close>): rules with their
  matching criteria, actions and payloads, the regions with their failovers and URLs, and the maps
  from hobs (city codes) to regions and modes. A pointer that may be nil is an \<^typ>\<open>'a option\<close>; a
  configuration read from JSON can hold nil pointers as map values. A \<open>float32\<close> is the rational
  number it stands for. \<open>Sampler\<close> and \<open>Action\<close> are Go integers, since JSON can hold any number.
\<close>

type_synonym f32 = rat
type_synonym sampler = int
type_synonym action = int

definition RandomSampler :: sampler where [go_simps]: "RandomSampler = 0"
definition CustomerSampler :: sampler where [go_simps]: "CustomerSampler = 1"
definition DriverSampler :: sampler where [go_simps]: "DriverSampler = 2"
definition DeviceSampler :: sampler where [go_simps]: "DeviceSampler = 3"
definition SessionSampler :: sampler where [go_simps]: "SessionSampler = 4"

definition ActionProxyToH1 :: action where [go_simps]: "ActionProxyToH1 = 1"
definition ActionSendToH2 :: action where [go_simps]: "ActionSendToH2 = 2"
definition ActionThrottle :: action where [go_simps]: "ActionThrottle = 3"
definition ActionDeprecate :: action where [go_simps]: "ActionDeprecate = 4"

definition Action_String :: "action \<Rightarrow> string" where
  "Action_String a =
     (if a = ActionProxyToH1 then ''H1''
      else if a = ActionSendToH2 then ''H2''
      else if a = ActionThrottle then ''Throttle''
      else if a = ActionDeprecate then ''Deprecate''
      else ''?'')"

text \<open>Decimal printing of an integer, as \<open>%d\<close> does.\<close>

fun show_nat :: "nat \<Rightarrow> string" where
  "show_nat n = (if n < 10 then [char_of (n + 48)] else show_nat (n div 10) @ [char_of (n mod 10 + 48)])"

declare show_nat.simps [simp del]

definition show_int :: "int \<Rightarrow> string" where
  "show_int i = (if i < 0 then CHR ''-'' # show_nat (nat (- i)) else show_nat (nat i))"

text \<open>The generated \<open>Sampler.String\<close>: slices of one name string at the offsets of an index table.\<close>

definition Sampler_name :: string where
  "Sampler_name = ''RandomSamplerCustomerSamplerDriverSamplerDeviceSamplerSessionSampler''"

definition Sampler_index :: "nat list" where
  "Sampler_index = [0, 13, 28, 41, 54, 68]"

definition Sampler_String :: "sampler \<Rightarrow> string" where
  "Sampler_String i =
     (if i < 0 \<or> i + 1 \<ge> int (length Sampler_index) then ''Sampler('' @ show_int i @ '')''
      else (let a = Sampler_index ! nat i; b = Sampler_index ! nat (i + 1)
            in take (b - a) (drop a Sampler_name)))"

record payload =
  pl_Body :: string
  pl_HttpStatus :: int
  pl_Headers :: "(string, string) gomap"

record rule_match =
  m_Hob :: string
  m_Path :: string
  m_Source :: string
  m_Proportion :: f32
  m_Sampler :: sampler

record rule =
  r_Match :: "rule_match option"
  r_Action :: action
  r_Payload :: "payload option"
  r_Weight :: int

type_synonym rules = "(string, rule option) gomap"
type_synonym sorted_rules = "rule option list"

type_synonym urls = "(string, string) gomap"

record region =
  g_Id :: string
  g_Status :: string
  g_Failover :: "string list"
  g_Apps :: "(string, urls option) gomap"

type_synonym regions = "(string, region option) gomap"
type_synonym hob_regions = "(string, string) gomap"
type_synonym hob_modes = "(string, string) gomap"

section \<open>regions.go\<close>

definition Regions_Validate :: "regions \<Rightarrow> bool" where
  "Regions_Validate rs \<longleftrightarrow> rs \<noteq> []"

text \<open>\<open>HobRegions.Find\<close> and \<open>HobModes.Find\<close>: the entry of the hob, then of \<open>default\<close>, then the
  empty string.\<close>

definition HobRegions_Find :: "hob_regions \<Rightarrow> string \<Rightarrow> string" where
  "HobRegions_Find hr hob =
     (case map_of hr hob of Some r \<Rightarrow> r
      | None \<Rightarrow> (case map_of hr ''default'' of Some r \<Rightarrow> r | None \<Rightarrow> ''''))"

definition HobModes_Find :: "hob_modes \<Rightarrow> string \<Rightarrow> string" where
  "HobModes_Find hm hob =
     (case map_of hm hob of Some m \<Rightarrow> m
      | None \<Rightarrow> (case map_of hm ''default'' of Some m \<Rightarrow> m | None \<Rightarrow> ''''))"

definition IsOnline :: "region option \<Rightarrow> bool" where
  "IsOnline r = (case r of None \<Rightarrow> False | Some g \<Rightarrow> g_Status g \<noteq> ''OFFLINE'')"

text \<open>\<open>Region.Urls\<close>: \<open>None\<close> is the nil map.\<close>

definition Region_Urls :: "region \<Rightarrow> string \<Rightarrow> urls option" where
  "Region_Urls g app =
     (case map_of (g_Apps g) app of Some u \<Rightarrow> u
      | None \<Rightarrow> (case map_of (g_Apps g) ''default'' of Some u \<Rightarrow> u | None \<Rightarrow> None))"

text \<open>Indexing \<open>regions[id]\<close>: nil for a missing key as for a stored nil pointer.\<close>

definition region_at :: "regions \<Rightarrow> string \<Rightarrow> region option" where
  "region_at rs i = (case map_of rs i of None \<Rightarrow> None | Some r \<Rightarrow> r)"

section \<open>Lemmas\<close>

text \<open>The index table of the generated printer cuts the five names at the right places.\<close>

lemma Sampler_String_names:
  "map Sampler_String [RandomSampler, CustomerSampler, DriverSampler, DeviceSampler, SessionSampler] =
     [''RandomSampler'', ''CustomerSampler'', ''DriverSampler'', ''DeviceSampler'', ''SessionSampler'']"
  by code_simp

lemma Sampler_String_other:
  "i < RandomSampler \<or> SessionSampler < i \<Longrightarrow> Sampler_String i = ''Sampler('' @ show_int i @ '')''"
  by (auto simp: Sampler_String_def Sampler_index_def go_simps)

lemma HobRegions_Find_cases:
  "HobRegions_Find hr hob = r \<Longrightarrow>
     map_of hr hob = Some r \<or> (map_of hr hob = None \<and> map_of hr ''default'' = Some r) \<or>
     (map_of hr hob = None \<and> map_of hr ''default'' = None \<and> r = '''')"
  by (auto simp: HobRegions_Find_def split: option.splits)

lemma IsOnline_Some: "IsOnline r \<Longrightarrow> \<exists>g. r = Some g \<and> g_Status g \<noteq> ''OFFLINE''"
  by (cases r) (auto simp: IsOnline_def)

lemma region_at_perm: "perm_of rs' rs \<Longrightarrow> wf_map rs \<Longrightarrow> region_at rs' i = region_at rs i"
  by (simp add: region_at_def perm_of_map_of)

lemma Find_perm:
  "perm_of m' m \<Longrightarrow> wf_map m \<Longrightarrow> HobRegions_Find m' h = HobRegions_Find m h"
  by (simp add: HobRegions_Find_def perm_of_map_of [of m' m] cong: option.case_cong)

end
