(* ===== verification/Rule_Sorting.thy ===== *)
theory Rule_Sorting
  imports Cp_Types
begin

text \<open>
  \<open>src/controlplane/rules.go\<close>: the order of the rules and \<open>Rules.Sort\<close>.

  \<open>sort.Interface\<close> is a record of operations \<open>sort_if\<close> that take the slice as it is and give it as they
  leave it, or panic; \<open>Less\<close> and \<open>Swap\<close> index the slice and read the rules through pointers. The locale
  \<open>sort_interface\<close> states what a client of package \<open>sort\<close> has to keep, and its lemmas that whatever
  sequence of calls is made, elements are neither lost nor invented. \<open>sort.Sort\<close> is the insertion sort the
  package uses on short slices; that is shown to be sorting by insertion, and every order another
  algorithm may return for rules of the same rank is its result for some iteration order of the rule map.
\<close>

section \<open>Package sort\<close>

record 's sort_if =
  so_Len :: "'s \<Rightarrow> nat"
  so_Less :: "nat \<Rightarrow> nat \<Rightarrow> 's \<Rightarrow> panic + bool"
  so_Swap :: "nat \<Rightarrow> nat \<Rightarrow> 's \<Rightarrow> panic + 's"

text \<open>The inner loop moves the element at the index down to its place, the outer one goes over the indices.\<close>

fun sift :: "'s sort_if \<Rightarrow> nat \<Rightarrow> 's \<Rightarrow> panic + 's" where
  "sift D 0 s = Inr s"
| "sift D (Suc j) s =
     (case so_Less D (Suc j) j s of
        Inl p \<Rightarrow> Inl p
      | Inr lt \<Rightarrow> if lt then (case so_Swap D (Suc j) j s of Inl p \<Rightarrow> Inl p | Inr s' \<Rightarrow> sift D j s') else Inr s)"

fun sift_all :: "'s sort_if \<Rightarrow> nat list \<Rightarrow> 's \<Rightarrow> panic + 's" where
  "sift_all D [] s = Inr s"
| "sift_all D (i # is) s = (case sift D i s of Inl p \<Rightarrow> Inl p | Inr s' \<Rightarrow> sift_all D is s')"

definition sort_Sort :: "'s sort_if \<Rightarrow> 's \<Rightarrow> panic + 's" where
  "sort_Sort D s = sift_all D [1..<so_Len D s] s"

section \<open>Specificity and order\<close>

definition Specificity :: "rule option \<Rightarrow> int" where
  "Specificity r =
     (case r of None \<Rightarrow> 0 | Some r \<Rightarrow>
       (case r_Match r of None \<Rightarrow> 0 | Some m \<Rightarrow>
          (if m_Hob m \<noteq> '''' then 5 else 0) + (if m_Source m \<noteq> '''' then 5 else 0)
          + (if m_Path m \<noteq> '''' then 10 else 0)))"

text \<open>\<open>Less\<close> reads the weight of both rules, so a nil rule panics.\<close>

definition rule_less :: "rule \<Rightarrow> rule \<Rightarrow> bool" where
  "rule_less a b \<longleftrightarrow>
     (if r_Weight a \<noteq> r_Weight b then r_Weight a > r_Weight b
      else Specificity (Some a) > Specificity (Some b))"

definition Less :: "rule option \<Rightarrow> rule option \<Rightarrow> panic + bool" where
  "Less a b = (case (a, b) of (Some x, Some y) \<Rightarrow> Inr (rule_less x y) | _ \<Rightarrow> Inl NilDeref)"

section \<open>SortedRules\<close>

definition SortedRules_Len :: "sorted_rules \<Rightarrow> nat" where
  "SortedRules_Len s = length s"

definition SortedRules_Swap :: "nat \<Rightarrow> nat \<Rightarrow> sorted_rules \<Rightarrow> panic + sorted_rules" where
  "SortedRules_Swap i j s =
     (if i < length s \<and> j < length s then Inr (s[i := s ! j, j := s ! i]) else Inl IndexRange)"

definition SortedRules_Less :: "nat \<Rightarrow> nat \<Rightarrow> sorted_rules \<Rightarrow> panic + bool" where
  "SortedRules_Less i j s =
     (if i \<ge> length s then Inl IndexRange
      else if s ! i = None then Inl NilDeref
      else if j \<ge> length s then Inl IndexRange
      else Less (s ! i) (s ! j))"

definition SortedRules_sort :: "sorted_rules sort_if" where
  "SortedRules_sort = \<lparr>so_Len = SortedRules_Len, so_Less = SortedRules_Less, so_Swap = SortedRules_Swap\<rparr>"

definition Rules_Sort :: "rules \<Rightarrow> panic + sorted_rules" where
  "Rules_Sort rs = sort_Sort SortedRules_sort (map snd rs)"

definition SortedRules_Validate :: "sorted_rules \<Rightarrow> bool" where
  "SortedRules_Validate s \<longleftrightarrow> s \<noteq> []"

section \<open>The contract of sort.Interface\<close>

locale sort_interface =
  fixes D :: "'s sort_if" and elems :: "'s \<Rightarrow> 'a list"
  assumes len_law: "so_Len D s = length (elems s)"
    and swap_law: "i < length (elems s) \<Longrightarrow> j < length (elems s) \<Longrightarrow> so_Swap D i j s = Inr s' \<Longrightarrow>
      elems s' = (elems s)[i := elems s ! j, j := elems s ! i]"
begin

lemma swap_keeps:
  assumes "i < length (elems s)" and "j < length (elems s)" and "so_Swap D i j s = Inr s'"
  shows "mset (elems s') = mset (elems s)" and "length (elems s') = length (elems s)"
  using swap_law [OF assms] mset_swap [OF assms(2,1)] by simp_all

lemma sift_keeps:
  "sift D i s = Inr s' \<Longrightarrow> i < length (elems s) \<Longrightarrow>
     mset (elems s') = mset (elems s) \<and> length (elems s') = length (elems s)"
proof (induction i arbitrary: s)
  case (Suc j)
  show ?case
  proof (cases "so_Less D (Suc j) j s = Inr True")
    case True
    with Suc.prems obtain t where t: "so_Swap D (Suc j) j s = Inr t" "sift D j t = Inr s'"
      by (auto split: sum.splits)
    have "mset (elems t) = mset (elems s)" "length (elems t) = length (elems s)"
      by (rule swap_keeps [OF _ _ t(1)]; use Suc.prems(2) in simp)+
    with Suc.IH [OF t(2)] Suc.prems(2) show ?thesis by simp
  next
    case False
    with Suc.prems show ?thesis by (auto split: sum.splits if_splits)
  qed
qed simp

lemma sift_all_keeps:
  "sift_all D is s = Inr s' \<Longrightarrow> \<forall>i\<in>set is. i < length (elems s) \<Longrightarrow> mset (elems s') = mset (elems s)"
proof (induction "is" arbitrary: s)
  case (Cons i "is")
  then obtain t where t: "sift D i s = Inr t" "sift_all D is t = Inr s'" by (auto split: sum.splits)
  with sift_keeps [OF t(1)] Cons show ?case by simp
qed simp

text \<open>Whatever \<open>Less\<close> answers, sorting loses and invents no element.\<close>

lemma sort_keeps: "sort_Sort D s = Inr s' \<Longrightarrow> mset (elems s') = mset (elems s)"
  unfolding sort_Sort_def by (erule sift_all_keeps) (simp add: len_law)

end

interpretation rule_slice: sort_interface SortedRules_sort "\<lambda>s. s"
  by unfold_locales
    (auto simp: SortedRules_sort_def SortedRules_Len_def SortedRules_Swap_def split: if_splits)

lemma Rules_Sort_keeps: "Rules_Sort rs = Inr zs \<Longrightarrow> mset zs = mset (map snd rs)"
  unfolding Rules_Sort_def by (rule rule_slice.sort_keeps)

section \<open>Lemmas on the order\<close>

lemma rule_less_irrefl [simp]: "\<not> rule_less a a"
  by (simp add: rule_less_def)

lemma rule_less_trans: "rule_less a b \<Longrightarrow> rule_less b c \<Longrightarrow> rule_less a c"
  by (auto simp: rule_less_def split: if_splits)

lemma rule_not_less_trans: "\<not> rule_less b a \<Longrightarrow> \<not> rule_less c b \<Longrightarrow> \<not> rule_less c a"
  by (auto simp: rule_less_def split: if_splits)

lemma rule_less_asym: "rule_less a b \<Longrightarrow> \<not> rule_less b a"
  by (auto simp: rule_less_def split: if_splits)

abbreviation rules_ordered :: "rule list \<Rightarrow> bool" where
  "rules_ordered \<equiv> sorted_wrt (\<lambda>a b. \<not> rule_less b a)"

text \<open>Sorting by insertion into a sorted list, on the list itself.\<close>

fun insert_rule :: "rule option \<Rightarrow> rule option list \<Rightarrow> panic + rule option list" where
  "insert_rule x [] = Inr [x]"
| "insert_rule x (y # ys) =
     (case Less x y of
        Inl p \<Rightarrow> Inl p
      | Inr lt \<Rightarrow>
          if lt then Inr (x # y # ys)
          else (case insert_rule x ys of Inl p \<Rightarrow> Inl p | Inr zs \<Rightarrow> Inr (y # zs)))"

fun sort_rules :: "rule option list \<Rightarrow> rule option list \<Rightarrow> panic + rule option list" where
  "sort_rules acc [] = Inr acc"
| "sort_rules acc (x # xs) =
     (case insert_rule x acc of Inl p \<Rightarrow> Inl p | Inr acc' \<Rightarrow> sort_rules acc' xs)"

lemma insert_rule_Some:
  "\<exists>zs. insert_rule (Some x) (map Some ys) = Inr (map Some zs) \<and> mset zs = add_mset x (mset ys) \<and>
     (rules_ordered ys \<longrightarrow> rules_ordered zs)"
proof (induction ys)
  case (Cons y ys)
  then obtain zs where zs: "insert_rule (Some x) (map Some ys) = Inr (map Some zs)"
    "mset zs = add_mset x (mset ys)" "rules_ordered ys \<longrightarrow> rules_ordered zs" by blast
  then have set_zs: "set zs = insert x (set ys)" by (metis set_mset_add_mset_insert set_mset_mset)
  show ?case
  proof (cases "rule_less x y")
    case True
    then have "rules_ordered (y # ys) \<longrightarrow> rules_ordered (x # y # ys)"
      by (auto dest: rule_less_asym rule_less_trans)
    with True show ?thesis by (intro exI [of _ "x # y # ys"]) (simp add: Less_def)
  next
    case False
    with zs set_zs show ?thesis by (intro exI [of _ "y # zs"]) (simp add: Less_def)
  qed
qed simp

lemma sort_rules_Some:
  "\<exists>zs. sort_rules (map Some acc) (map Some xs) = Inr (map Some zs) \<and> mset zs = mset acc + mset xs \<and>
     (rules_ordered acc \<longrightarrow> rules_ordered zs)"
proof (induction xs arbitrary: acc)
  case (Cons x xs)
  obtain acc' where a: "insert_rule (Some x) (map Some acc) = Inr (map Some acc')"
    "mset acc' = add_mset x (mset acc)" "rules_ordered acc \<longrightarrow> rules_ordered acc'"
    using insert_rule_Some by blast
  with Cons.IH [of acc'] show ?case by auto
qed simp

lemma insert_rule_last:
  "\<forall>a\<in>set acc. \<not> rule_less x a \<Longrightarrow> insert_rule (Some x) (map Some acc) = Inr (map Some (acc @ [x]))"
  by (induction acc) (simp_all add: Less_def)

lemma sort_rules_ordered:
  "rules_ordered (acc @ xs) \<Longrightarrow> sort_rules (map Some acc) (map Some xs) = Inr (map Some (acc @ xs))"
proof (induction xs arbitrary: acc)
  case (Cons x xs)
  then have "insert_rule (Some x) (map Some acc) = Inr (map Some (acc @ [x]))"
    by (intro insert_rule_last) (auto simp: sorted_wrt_append)
  with Cons.IH [of "acc @ [x]"] Cons.prems show ?case by simp
qed simp

lemma sort_rules_nil:
  assumes "None \<in> set xs \<or> None \<in> set acc" and "2 \<le> length acc + length xs" and "None \<in> set acc \<longrightarrow> length acc = 1"
  shows "sort_rules acc xs = Inl NilDeref"
  using assms
proof (induction xs arbitrary: acc)
  case (Cons x xs)
  show ?case
  proof (cases "acc = [] \<or> (x \<noteq> None \<and> None \<notin> set acc)")
    case True
    then consider "acc = []" | ys y where "x = Some y" "acc = map Some ys"
      by (metis ex_map_conv not_None_eq)
    then show ?thesis
    proof cases
      case 1
      with Cons.IH [of "[x]"] Cons.prems show ?thesis by auto
    next
      case 2
      obtain zs where zs: "insert_rule (Some y) (map Some ys) = Inr (map Some zs)"
        "mset zs = add_mset y (mset ys)" using insert_rule_Some by blast
      then have "length zs = Suc (length ys)" by (metis size_add_mset size_mset)
      with zs 2 Cons.IH [of "map Some zs"] Cons.prems show ?thesis by auto
    qed
  next
    case False
    then obtain a as where acc: "acc = a # as" by (cases acc) auto
    have "Less x a = Inl NilDeref"
      using False Cons.prems(3) by (cases x; cases a; cases as) (auto simp: Less_def acc)
    then show ?thesis by (simp add: acc)
  qed
qed auto

section \<open>Sorting in place is sorting by insertion\<close>

lemma insert_rule_snoc:
  "insert_rule (Some x) (map Some ys) = Inr zs \<Longrightarrow> rule_less x y \<Longrightarrow>
     insert_rule (Some x) (map Some ys @ [Some y]) = Inr (zs @ [Some y])"
  by (induction ys arbitrary: zs) (auto simp: Less_def split: sum.splits if_splits)

lemma slice_Less: "i < length s \<Longrightarrow> j < length s \<Longrightarrow> so_Less SortedRules_sort i j s = Less (s ! i) (s ! j)"
  by (simp add: SortedRules_sort_def SortedRules_Less_def Less_def)

lemma slice_Swap:
  "so_Swap SortedRules_sort (Suc (length as)) (length as) (as @ a # b # cs) = Inr (as @ b # a # cs)"
  by (simp add: SortedRules_sort_def SortedRules_Swap_def nth_append list_update_append)

lemma sift_slice:
  "sift SortedRules_sort (Suc (length as)) (as @ a # b # cs) =
     (case Less b a of Inl p \<Rightarrow> Inl p
      | Inr lt \<Rightarrow> if lt then sift SortedRules_sort (length as) (as @ b # a # cs) else Inr (as @ a # b # cs))"
  by (simp add: slice_Less slice_Swap nth_append split: sum.split)

lemma sift_insert:
  assumes "rules_ordered ys"
  shows "sift SortedRules_sort (length ys) (map Some ys @ Some x # cs) =
    map_sum id (\<lambda>zs. zs @ cs) (insert_rule (Some x) (map Some ys))"
  using assms
proof (induction ys arbitrary: cs rule: rev_induct)
  case (snoc y ys)
  then have ord: "rules_ordered ys" and last: "\<forall>a\<in>set ys. \<not> rule_less y a" by (auto simp: sorted_wrt_append)
  note step = sift_slice [of "map Some ys" "Some y" "Some x" cs]
  show ?case
  proof (cases "rule_less x y")
    case True
    obtain zs where "insert_rule (Some x) (map Some ys) = Inr zs" using insert_rule_Some by blast
    with insert_rule_snoc [OF this True] snoc.IH [OF ord, of "Some y # cs"] step True show ?thesis
      by (simp add: Less_def)
  next
    case False
    with last have "\<forall>a\<in>set (ys @ [y]). \<not> rule_less x a" using rule_not_less_trans by auto
    from insert_rule_last [OF this] step False show ?thesis by (simp add: Less_def)
  qed
qed simp

text \<open>A slice whose part before the index is in order and without nil, or of one rule.\<close>

definition sorted_part :: "sorted_rules \<Rightarrow> bool" where
  "sorted_part acc \<longleftrightarrow> length acc = 1 \<or> (\<exists>ys. acc = map Some ys \<and> rules_ordered ys)"

lemma sift_insert_part:
  assumes "sorted_part acc" and "acc \<noteq> []"
  shows "sift SortedRules_sort (length acc) (acc @ x # cs) = map_sum id (\<lambda>zs. zs @ cs) (insert_rule x acc)"
proof (cases "\<exists>ys y. acc = map Some ys \<and> rules_ordered ys \<and> x = Some y")
  case True
  with sift_insert show ?thesis by auto
next
  case False
  show ?thesis
  proof (cases "length acc = 1")
    case True
    then obtain a where "acc = [a]" by (cases acc) auto
    with sift_slice [of "[]" a x cs] show ?thesis by (auto split: sum.split)
  next
    case single: False
    with False assms(1) obtain ys where ys: "acc = map Some ys" "x = None"
      by (cases x) (auto simp: sorted_part_def)
    from assms(2) ys(1) obtain y ys' where y: "ys = y # ys'" by (cases ys) auto
    from assms(2) ys(1) obtain z zs where z: "ys = zs @ [z]" by (cases ys rule: rev_cases) auto
    have "insert_rule x acc = Inl NilDeref" by (simp add: ys y Less_def)
    moreover have "sift SortedRules_sort (length acc) (acc @ x # cs) = Inl NilDeref"
      using sift_slice [of "map Some zs" "Some z" None cs] by (simp add: ys z Less_def)
    ultimately show ?thesis by simp
  qed
qed

lemma insert_rule_part:
  assumes "sorted_part acc" and "acc \<noteq> []" and "insert_rule x acc = Inr zs"
  shows "sorted_part zs" and "length zs = Suc (length acc)"
proof -
  have "x \<noteq> None" "None \<notin> set acc"
    using assms by (cases acc; cases x; auto simp: sorted_part_def Less_def split: option.splits)+
  then obtain y ys where y: "x = Some y" "acc = map Some ys" by (metis ex_map_conv not_None_eq)
  with assms(1) have "rules_ordered ys" by (auto simp: sorted_part_def length_Suc_conv dest: map_injective)
  with insert_rule_Some [of y ys] assms(3) y show "sorted_part zs" "length zs = Suc (length acc)"
    by (auto simp: sorted_part_def) (metis size_add_mset size_mset)
qed

lemma sift_all_insert:
  "sorted_part acc \<Longrightarrow> acc \<noteq> [] \<Longrightarrow>
     sift_all SortedRules_sort [length acc..<length acc + length xs] (acc @ xs) = sort_rules acc xs"
proof (induction xs arbitrary: acc)
  case (Cons x xs)
  have up: "[length acc..<length acc + length (x # xs)] = length acc # [Suc (length acc)..<Suc (length acc) + length xs]"
    by (subst upt_conv_Cons) simp_all
  show ?case
  proof (cases "insert_rule x acc")
    case (Inl p)
    with sift_insert_part [OF Cons.prems] show ?thesis unfolding up by simp
  next
    case (Inr zs)
    note part = insert_rule_part [OF Cons.prems Inr]
    then have "zs \<noteq> []" by auto
    from Cons.IH [OF part(1) this] part(2) Inr sift_insert_part [OF Cons.prems] show ?thesis
      unfolding up by simp
  qed
qed simp

lemma Rules_Sort_insertion: "Rules_Sort rs = sort_rules [] (map snd rs)"
proof (cases "map snd rs")
  case (Cons x xs)
  have "[1..<so_Len SortedRules_sort (x # xs)] = [length [x]..<length [x] + length xs]"
    by (simp add: SortedRules_sort_def SortedRules_Len_def)
  with sift_all_insert [of "[x]" xs] Cons show ?thesis
    by (simp add: Rules_Sort_def sort_Sort_def sorted_part_def)
qed (simp add: Rules_Sort_def sort_Sort_def SortedRules_sort_def SortedRules_Len_def)

text \<open>What the clients of \<open>Rules.Sort\<close> use.\<close>

lemma Rules_Sort_Some:
  assumes "map snd rs = map Some xs"
  shows "\<exists>zs. Rules_Sort rs = Inr (map Some zs) \<and> mset zs = mset xs \<and> rules_ordered zs"
  using sort_rules_Some [of "[]" xs] by (simp add: Rules_Sort_insertion assms)

lemma Rules_Sort_nil:
  assumes "2 \<le> length rs" and "None \<in> snd ` set rs"
  shows "Rules_Sort rs = Inl NilDeref"
  unfolding Rules_Sort_insertion by (rule sort_rules_nil) (use assms in auto)

lemma Rules_Sort_panics: "Rules_Sort rs = Inl e \<longleftrightarrow> e = NilDeref \<and> 2 \<le> length rs \<and> None \<in> snd ` set rs"
proof (cases "2 \<le> length rs \<and> None \<in> snd ` set rs")
  case True
  with Rules_Sort_nil [of rs] show ?thesis by auto
next
  case False
  have "\<exists>zs. Rules_Sort rs = Inr zs"
  proof (cases "None \<in> snd ` set rs")
    case True
    with False obtain r where "rs = [r]" by (cases rs; cases "tl rs") auto
    then show ?thesis by (simp add: Rules_Sort_insertion)
  next
    case False
    then obtain xs where "map snd rs = map Some xs" by (metis ex_map_conv image_set not_None_eq)
    with Rules_Sort_Some show ?thesis by blast
  qed
  with False show ?thesis by auto
qed

lemma Rules_Sort_single: "map snd rs = [x] \<Longrightarrow> Rules_Sort rs = Inr [x]"
  by (simp add: Rules_Sort_insertion)

section \<open>The order of the range\<close>

text \<open>A \<open>range\<close> over a map visits its entries in an order that is chosen anew each time: \<open>ns\<close> are the
  choices, each of one of the entries that are left.\<close>

fun range_order :: "nat list \<Rightarrow> 'a list \<Rightarrow> 'a list" where
  "range_order [] xs = xs"
| "range_order (n # ns) xs =
     (if xs = [] then []
      else (let i = n mod length xs in xs ! i # range_order ns (take i xs @ drop (Suc i) xs)))"

lemma pick_mset: "i < length xs \<Longrightarrow> add_mset (xs ! i) (mset (take i xs @ drop (Suc i) xs)) = mset xs"
  by (metis id_take_nth_drop mset.simps(2) mset_append union_mset_add_mset_right)

lemma range_order_mset [simp]: "mset (range_order ns xs) = mset xs"
proof (induction ns xs rule: range_order.induct)
  case (2 n ns xs)
  then show ?case using pick_mset [of "n mod length xs" xs] by (cases "xs = []") (simp_all add: Let_def)
qed simp

lemma range_order_same [simp]:
  "length (range_order ns xs) = length xs" "set (range_order ns xs) = set xs"
  by (metis range_order_mset size_mset) (metis range_order_mset set_mset_mset)

lemma range_order_single [simp]: "range_order ns [x] = [x]"
  using mset_single_iff_right [of x "range_order ns [x]"] by simp

text \<open>Every order of the entries can be chosen.\<close>

lemma range_order_any: "mset ys = mset xs \<Longrightarrow> \<exists>ns. range_order ns xs = ys"
proof (induction ys arbitrary: xs)
  case Nil
  then show ?case by (intro exI [of _ "[]"]) simp
next
  case (Cons y ys)
  then have "y \<in> set xs" by (metis list.set_intros(1) set_mset_mset)
  then obtain i where i: "i < length xs" "xs ! i = y" by (auto simp: in_set_conv_nth)
  let ?xs = "take i xs @ drop (Suc i) xs"
  have "add_mset y (mset ys) = add_mset y (mset ?xs)" using pick_mset [OF i(1)] Cons.prems i(2) by (metis mset.simps(2))
  then have "mset ys = mset ?xs" by (simp only: add_mset_add_mset_same_iff)
  from Cons.IH [OF this] obtain ns where "range_order ns ?xs = ys" ..
  with i show ?case by (intro exI [of _ "i # ns"]) (auto simp: Let_def)
qed

text \<open>Rules of different rank come out in the same order whatever the order of the range was.\<close>

definition ranks_differ :: "rules \<Rightarrow> bool" where
  "ranks_differ rs \<longleftrightarrow> (\<forall>x y. Some x \<in> snd ` set rs \<longrightarrow> Some y \<in> snd ` set rs \<longrightarrow> x \<noteq> y \<longrightarrow> rule_less x y \<or> rule_less y x)"

lemma ordered_unique:
  assumes "rules_ordered xs" and "rules_ordered ys" and "mset xs = mset ys"
    and "\<And>x y. x \<in> set xs \<Longrightarrow> y \<in> set xs \<Longrightarrow> x \<noteq> y \<Longrightarrow> rule_less x y \<or> rule_less y x"
  shows "xs = ys"
  using assms
proof (induction xs arbitrary: ys)
  case (Cons x xs)
  then obtain y ys' where ys: "ys = y # ys'" by (cases ys) auto
  have set: "set (x # xs) = set (y # ys')" using Cons.prems(3) ys by (metis set_mset_mset)
  have "x = y"
  proof (rule ccontr)
    assume ne: "x \<noteq> y"
    then have "x \<in> set ys'" "y \<in> set xs" using set by auto
    then have "\<not> rule_less x y" "\<not> rule_less y x" using Cons.prems(1,2) ys by auto
    moreover have "rule_less x y \<or> rule_less y x"
      using Cons.prems(4) [of x y] ne \<open>y \<in> set xs\<close> by simp
    ultimately show False by blast
  qed
  with Cons.prems ys Cons.IH [of ys'] show ?case by simp
qed simp

lemma Rules_Sort_order:
  assumes "Rules_Sort (range_order ns rs) = Inr srt"
  shows "mset srt = mset (map snd rs)"
    and "Rules_Sort (range_order ns' rs) = Inr srt' \<Longrightarrow> mset srt' = mset srt"
    and "\<exists>srt'. Rules_Sort (range_order ns' rs) = Inr srt'"
proof -
  have keeps: "Rules_Sort (range_order ms rs) = Inr s \<Longrightarrow> mset s = mset (map snd rs)" for ms s
    using Rules_Sort_keeps [of "range_order ms rs" s] by simp
  show "mset srt = mset (map snd rs)" by (rule keeps [OF assms])
  show "mset srt' = mset srt" if "Rules_Sort (range_order ns' rs) = Inr srt'"
    using keeps [OF assms] keeps [OF that] by simp
  show "\<exists>srt'. Rules_Sort (range_order ns' rs) = Inr srt'"
    using Rules_Sort_panics [of "range_order ns rs" NilDeref] Rules_Sort_panics [of "range_order ns' rs"] assms
    by (cases "Rules_Sort (range_order ns' rs)") auto
qed

lemma Rules_Sort_unique:
  assumes "ranks_differ rs" and "Rules_Sort (range_order ns rs) = Inr srt"
    and "Rules_Sort (range_order ns' rs) = Inr srt'"
  shows "srt' = srt"
proof (cases "None \<in> snd ` set rs")
  case True
  with assms(2) Rules_Sort_nil [of "range_order ns rs"] have "length rs < 2" by fastforce
  with True obtain r where "rs = [r]" by (cases rs; cases "tl rs") auto
  with assms(2,3) show ?thesis by simp
next
  case False
  have "\<exists>zs. s = map Some zs \<and> rules_ordered zs" if "Rules_Sort (range_order ms rs) = Inr s" for ms s
  proof -
    have "None \<notin> set (map snd (range_order ms rs))" using False by simp
    then obtain xs where "map snd (range_order ms rs) = map Some xs" by (metis ex_map_conv not_None_eq)
    from Rules_Sort_Some [OF this] that show ?thesis by auto
  qed
  from this [OF assms(2)] this [OF assms(3)] obtain zs zs' where z: "srt = map Some zs" "rules_ordered zs"
    "srt' = map Some zs'" "rules_ordered zs'" by blast
  have m: "mset (map Some zs') = mset (map Some zs)" using Rules_Sort_order(2) [OF assms(2,3)] z by simp
  then have "image_mset the (mset (map Some zs')) = image_mset the (mset (map Some zs))" by simp
  then have "mset zs = mset zs'" by (simp add: image_mset.compositionality comp_def)
  have "set srt = snd ` set rs" using Rules_Sort_order(1) [OF assms(2)]
    by (metis set_map set_mset_mset)
  then have lt: "rule_less x y \<or> rule_less y x" if "x \<in> set zs" "y \<in> set zs" "x \<noteq> y" for x y
  proof -
    have "Some x \<in> snd ` set rs" "Some y \<in> snd ` set rs"
      using that(1,2) z(1) by (simp_all add: \<open>set srt = snd ` set rs\<close> [symmetric])
    with assms(1) that(3) show ?thesis by (simp add: ranks_differ_def)
  qed
  have "zs = zs'" by (rule ordered_unique [OF z(2,4) \<open>mset zs = mset zs'\<close> lt])
  with z show ?thesis by simp
qed

text \<open>A permutation of the values of a map comes from a permutation of the map.\<close>

lemma mset_map_lift: "mset ys = mset (map f xs) \<Longrightarrow> \<exists>xs'. mset xs' = mset xs \<and> map f xs' = ys"
proof (induction ys arbitrary: xs)
  case (Cons y ys)
  then have "y \<in> set (map f xs)" by (metis list.set_intros(1) set_mset_mset)
  then obtain x where x: "x \<in> set xs" "f x = y" by auto
  have "mset ys = mset (map f (remove1 x xs))"
    using x arg_cong [OF Cons.prems, of "\<lambda>m. m - {#y#}"] by (simp add: image_mset_Diff)
  from Cons.IH [OF this] obtain xs' where "mset xs' = mset (remove1 x xs)" "map f xs' = ys" by blast
  with x show ?case by (intro exI [of _ "x # xs'"]) simp
qed simp

section \<open>Properties\<close>

text \<open>C10: the results \<open>Rules.Sort\<close> can have, over all iteration orders of the rule map, are exactly the
  arrangements of its rules that respect \<open>Less\<close>: nothing is lost or invented, no rule comes after a
  lighter or less specific one, and every such arrangement of ties can occur.\<close>

theorem sort_reaches:
  assumes "map snd rs = map Some qs"
  shows "(\<exists>rs'. perm_of rs' rs \<and> Rules_Sort rs' = Inr (map Some zs)) \<longleftrightarrow>
    mset zs = mset qs \<and> rules_ordered zs"
proof
  assume "\<exists>rs'. perm_of rs' rs \<and> Rules_Sort rs' = Inr (map Some zs)"
  then obtain rs' where rs': "perm_of rs' rs" "Rules_Sort rs' = Inr (map Some zs)" by blast
  from rs'(1) have "mset (map snd rs') = mset (map snd rs)"
    by (simp add: perm_of_def)
  then have "mset (map snd rs') = mset (map Some qs)" by (simp only: assms)
  then obtain ys where ys: "map snd rs' = map Some ys" "mset ys = mset qs"
    by (metis mset_map_lift)
  from sort_rules_Some [of "[]" ys] rs'(2) ys show "mset zs = mset qs \<and> rules_ordered zs"
    by (auto simp: Rules_Sort_insertion dest!: map_injective [OF _ inj_Some])
next
  assume zs: "mset zs = mset qs \<and> rules_ordered zs"
  then have "mset (map Some zs) = mset (map snd rs)" unfolding assms by simp
  then obtain rs' where "mset rs' = mset rs" "map snd rs' = map Some zs"
    using mset_map_lift by metis
  with zs sort_rules_ordered [of "[]" zs]
  show "\<exists>rs'. perm_of rs' rs \<and> Rules_Sort rs' = Inr (map Some zs)"
    by (auto simp: perm_of_def Rules_Sort_insertion)
qed

definition test_rule :: "string \<Rightarrow> string \<Rightarrow> action \<Rightarrow> rule" where
  "test_rule hob path a =
     \<lparr>r_Match = Some \<lparr>m_Hob = hob, m_Path = path, m_Source = '''', m_Proportion = 1, m_Sampler = 0\<rparr>,
      r_Action = a, r_Payload = None, r_Weight = 0\<rparr>"

theorem sort_reaches_witness:
  "\<exists>rs'. perm_of rs' [(''a'', Some (test_rule ''LON'' '''' 1)), (''b'', Some (test_rule '''' ''/v1'' 3))] \<and>
     Rules_Sort rs' = Inr (map Some [test_rule '''' ''/v1'' 3, test_rule ''LON'' '''' 1])"
proof -
  have "rules_ordered [test_rule '''' ''/v1'' 3, test_rule ''LON'' '''' 1]" by code_simp
  then show ?thesis
    by (subst sort_reaches [where qs = "[test_rule ''LON'' '''' 1, test_rule '''' ''/v1'' 3]"]) auto
qed

text \<open>A configuration with two or more rules one of which is \<open>null\<close> makes \<open>Rules.Sort\<close> panic: \<open>Less\<close>
  reads the weight of a nil rule, although matching and specificity allow for nil rules.\<close>

theorem nil_rule_panics:
  assumes "2 \<le> length rs" and "None \<in> snd ` set rs"
  shows "Rules_Sort rs = Inl NilDeref"
  by (rule Rules_Sort_nil [OF assms])

theorem nil_rule_panics_witness:
  "Rules_Sort [(''a'', Some (test_rule '''' ''/v1'' 3)), (''b'', None)] = Inl NilDeref"
  by (rule nil_rule_panics) simp_all

end
