(* ===== verification/Fnv.thy ===== *)
theory Fnv
  imports Go_Base "HOL-Library.Log_Nat"
begin

unbundle bit_operations_syntax

text \<open>
  The library code under \<open>controlplane/rules.go\<close>'s sampling: the FNV hashes of package \<open>hash/fnv\<close>,
  and the \<open>float32\<close> product with its conversion to \<open>uint64\<close>. A \<open>float32\<close> is the rational it stands
  for; the product is rounded to 24 significant bits, ties to even. The conversion follows amd64
  code: truncation, and 0 for a value from \<open>2 ^ 64\<close> on.
\<close>

section \<open>FNV\<close>

definition fnv64 :: "string \<Rightarrow> 64 word" where
  "fnv64 s = foldl (\<lambda>h c. (h * 1099511628211) XOR of_char c) 14695981039346656037 s"

definition fnv32a :: "string \<Rightarrow> 32 word" where
  "fnv32a s = foldl (\<lambda>h c. (h XOR of_char c) * 16777619) 2166136261 s"

section \<open>float32\<close>

text \<open>Ties-to-even rounding of a rational to an integer.\<close>

definition round_even :: "rat \<Rightarrow> int" where
  "round_even q =
     (let f = \<lfloor>q\<rfloor>; r = q - of_int f
      in if r < 1 / 2 then f
         else if r > 1 / 2 then f + 1
         else if even f then f else f + 1)"

text \<open>For \<open>1 \<le> q\<close>: the number of bits of its integer part, and the spacing of the \<open>float32\<close> values
  around it (a spacing below 1 is kept as a reciprocal power).\<close>

definition pow2 :: "int \<Rightarrow> rat" where
  "pow2 e = (if 0 \<le> e then 2 ^ nat e else 1 / 2 ^ nat (- e))"

function int_bits :: "int \<Rightarrow> nat" where
  "int_bits n = (if n \<le> 0 then 0 else Suc (int_bits (n div 2)))"
  by pat_completeness auto
termination
  by (relation "measure nat") auto

declare int_bits.simps [simp del]

text \<open>The exponent of the last place: \<open>\<lfloor>log2 q\<rfloor> - 23\<close>, at least \<open>-149\<close>.\<close>

definition rat_log2 :: "rat \<Rightarrow> int" where
  "rat_log2 q =
     (let (a, b) = quotient_of q;
          k = int (int_bits a) - int (int_bits b)
      in if pow2 k \<le> q then k else k - 1)"

definition f32_ulp :: "rat \<Rightarrow> int" where
  "f32_ulp q = max (-149) (rat_log2 q - 23)"

text \<open>Rounding of positive values below the largest float32, \<open>2 ^ 128\<close> about: larger ones, which would be
  infinite, stay finite here. The sums and quotients of this program stay far below.\<close>

definition f32_round :: "rat \<Rightarrow> rat" where
  "f32_round q =
     (if q \<le> 0 then 0 else of_int (round_even (q / pow2 (f32_ulp q))) * pow2 (f32_ulp q))"

definition u64_of_f32 :: "rat \<Rightarrow> 64 word" where
  "u64_of_f32 q = (if q < 2 ^ 64 then word_of_int \<lfloor>q\<rfloor> else 0)"

section \<open>Lemmas\<close>

lemma round_even_mono: "p \<le> q \<Longrightarrow> round_even p \<le> round_even q"
proof -
  assume le: "p \<le> q"
  have f: "\<lfloor>p\<rfloor> \<le> \<lfloor>q\<rfloor>" using le by (rule floor_mono)
  have bounds: "\<lfloor>x\<rfloor> \<le> round_even x \<and> round_even x \<le> \<lfloor>x\<rfloor> + 1" for x :: rat
    by (simp add: round_even_def Let_def)
  show ?thesis
  proof (cases "\<lfloor>p\<rfloor> = \<lfloor>q\<rfloor>")
    case True
    with le show ?thesis by (auto simp: round_even_def Let_def)
  next
    case False
    with f bounds [of p] bounds [of q] show ?thesis by linarith
  qed
qed

lemma round_even_of_int [simp]: "round_even (of_int i) = i"
  by (simp add: round_even_def)

lemma round_even_numeral [simp]: "round_even (numeral n) = numeral n"
  by (simp add: round_even_def)

lemma pow2_pos [simp]: "0 < pow2 e"
  by (simp add: pow2_def)

lemma pow2_powi: "pow2 e = 2 powi e"
  by (simp add: pow2_def power_int_def divide_simps)

lemma pow2_add: "pow2 (a + b) = pow2 a * pow2 b"
  by (simp add: pow2_powi power_int_add)

lemma pow2_mono: "a \<le> b \<Longrightarrow> pow2 a \<le> pow2 b"
  by (simp add: pow2_powi power_int_increasing)

lemma pow2_less_imp: "pow2 a < pow2 b \<Longrightarrow> a < b"
  using pow2_mono [of b a] by (cases "a < b") auto

lemma pow2_nat: "pow2 (int n) = 2 ^ n"
  by (simp add: pow2_def)

lemma int_bits_bounds: "0 < n \<Longrightarrow> 2 ^ (int_bits n - 1) \<le> n \<and> n < 2 ^ int_bits n \<and> 0 < int_bits n"
proof (induction n rule: int_bits.induct)
  case (1 n)
  show ?case
  proof (cases "n div 2 \<le> 0")
    case True
    with "1.prems" have "n = 1" by auto
    then show ?thesis by (simp add: int_bits.simps)
  next
    case False
    with "1.IH" "1.prems" have IH: "2 ^ (int_bits (n div 2) - 1) \<le> n div 2"
      "n div 2 < 2 ^ int_bits (n div 2)" "0 < int_bits (n div 2)" by auto
    have bits: "int_bits n = Suc (int_bits (n div 2))" using "1.prems" by (subst int_bits.simps) simp
    from IH obtain k where k: "int_bits (n div 2) = Suc k" by (cases "int_bits (n div 2)") auto
    show ?thesis using IH by (simp add: bits k) linarith
  qed
qed

lemma int_bits_pow2:
  assumes "0 < n"
  shows "pow2 (int (int_bits n) - 1) \<le> of_int n \<and> of_int n < pow2 (int (int_bits n))"
proof -
  have B: "2 ^ (int_bits n - 1) \<le> n" "n < 2 ^ int_bits n" "0 < int_bits n"
    using int_bits_bounds [OF assms] by auto
  have "(of_int (2 ^ (int_bits n - 1)) :: rat) \<le> of_int n" using B(1) by (subst of_int_le_iff)
  moreover have "(of_int n :: rat) < of_int (2 ^ int_bits n)" using B(2) by (subst of_int_less_iff)
  moreover have "int (int_bits n) - 1 = int (int_bits n - 1)" using B(3) by simp
  ultimately show ?thesis by (simp only: pow2_nat) simp
qed

lemma rat_log2_bounds:
  assumes "0 < q"
  shows "pow2 (rat_log2 q) \<le> q \<and> q < pow2 (rat_log2 q + 1)"
proof -
  obtain a b where ab: "quotient_of q = (a, b)" by (cases "quotient_of q")
  then have b: "0 < b" and q: "q = of_int a / of_int b"
    using quotient_of_denom_pos quotient_of_div by blast+
  with assms have a: "0 < a" by (simp add: zero_less_divide_iff)
  let ?m = "int_bits a" and ?n = "int_bits b"
  have A': "pow2 (int ?m - 1) \<le> of_int a" "of_int a < pow2 (int ?m)"
    using int_bits_pow2 [OF a] by simp_all
  have B': "pow2 (int ?n - 1) \<le> of_int b" "of_int b < pow2 (int ?n)"
    using int_bits_pow2 [OF b] by simp_all
  let ?k = "int ?m - int ?n"
  have bpos: "(0 :: rat) < of_int b" using b by simp
  have low: "pow2 (?k - 1) < q"
  proof -
    have "pow2 (?k - 1) * of_int b < pow2 (?k - 1) * pow2 (int ?n)"
      using B'(2) by (simp add: mult_strict_left_mono)
    also have "\<dots> = pow2 (int ?m - 1)" by (simp add: pow2_add [symmetric])
    also have "\<dots> \<le> of_int a" by (rule A'(1))
    finally show ?thesis using bpos by (simp add: q pos_less_divide_eq)
  qed
  have high: "q < pow2 (?k + 1)"
  proof -
    have "of_int a < pow2 (?k + 1) * pow2 (int ?n - 1)"
      using A'(2) by (simp add: pow2_add [symmetric])
    also have "\<dots> \<le> pow2 (?k + 1) * of_int b"
      using B'(1) by (simp add: mult_left_mono less_imp_le)
    finally show ?thesis using bpos by (simp add: q pos_divide_less_eq)
  qed
  have "rat_log2 q = (if pow2 ?k \<le> q then ?k else ?k - 1)"
    by (simp add: rat_log2_def ab Let_def)
  then show ?thesis using low high by (auto simp: not_le)
qed

lemma rat_log2_mono: "0 < p \<Longrightarrow> p \<le> q \<Longrightarrow> rat_log2 p \<le> rat_log2 q"
proof -
  assume p: "0 < p" and le: "p \<le> q"
  then have "pow2 (rat_log2 p) < pow2 (rat_log2 q + 1)"
    using rat_log2_bounds [of p] rat_log2_bounds [of q] by linarith
  then have "rat_log2 p < rat_log2 q + 1" by (rule pow2_less_imp)
  then show ?thesis by simp
qed

lemma f32_ulp_mono: "0 < p \<Longrightarrow> p \<le> q \<Longrightarrow> f32_ulp p \<le> f32_ulp q"
  using rat_log2_mono [of p q] by (auto simp: f32_ulp_def)

text \<open>A positive value lies below \<open>2 ^ 24\<close> units in the last place.\<close>

lemma f32_round_le_top: "0 < p \<Longrightarrow> f32_round p \<le> pow2 (f32_ulp p + 24)"
proof -
  assume p: "0 < p"
  have "p < pow2 (rat_log2 p + 1)" using rat_log2_bounds [OF p] by simp
  also have "\<dots> \<le> pow2 (24 + f32_ulp p)" by (rule pow2_mono) (simp add: f32_ulp_def)
  finally have "p / pow2 (f32_ulp p) < pow2 24"
    by (simp add: pow2_add pos_divide_less_eq)
  then have "round_even (p / pow2 (f32_ulp p)) \<le> round_even (of_int (2 ^ 24))"
    by (intro round_even_mono) (simp add: pow2_def)
  then have "(of_int (round_even (p / pow2 (f32_ulp p))) :: rat) \<le> of_int (2 ^ 24)"
    by (subst of_int_le_iff) simp
  then have "of_int (round_even (p / pow2 (f32_ulp p))) * pow2 (f32_ulp p) \<le> pow2 24 * pow2 (f32_ulp p)"
    by (intro mult_right_mono) (simp_all add: pow2_def)
  then show ?thesis using p by (simp add: f32_round_def pow2_add mult.commute)
qed

lemma f32_round_ge_bottom:
  assumes "0 < q" and "-149 < f32_ulp q"
  shows "pow2 (f32_ulp q + 23) \<le> f32_round q"
proof -
  have e: "rat_log2 q = f32_ulp q + 23" using assms(2) by (auto simp: f32_ulp_def)
  have "pow2 (23 + f32_ulp q) \<le> q"
    using rat_log2_bounds [OF assms(1)] by (simp add: e add.commute)
  then have "of_int (2 ^ 23) \<le> q / pow2 (f32_ulp q)"
    by (simp add: pow2_add pos_le_divide_eq) (simp add: pow2_def)
  then have "2 ^ 23 \<le> round_even (q / pow2 (f32_ulp q))"
    using round_even_mono [of "of_int (2 ^ 23)" "q / pow2 (f32_ulp q)"]
    by (simp only: round_even_of_int)
  then have "(of_int (2 ^ 23) :: rat) \<le> of_int (round_even (q / pow2 (f32_ulp q)))"
    by (subst of_int_le_iff)
  then have "pow2 23 * pow2 (f32_ulp q) \<le> of_int (round_even (q / pow2 (f32_ulp q))) * pow2 (f32_ulp q)"
    by (intro mult_right_mono) (simp_all add: pow2_def less_imp_le)
  then show ?thesis using assms(1) by (simp add: f32_round_def pow2_add mult.commute)
qed

lemma f32_round_nonneg [simp]: "0 \<le> f32_round q"
proof (cases "q \<le> 0")
  case False
  then have "0 \<le> q / pow2 (f32_ulp q)" by (simp add: divide_nonneg_pos)
  then have "round_even (of_int 0) \<le> round_even (q / pow2 (f32_ulp q))"
    by (intro round_even_mono) simp
  then have "0 \<le> round_even (q / pow2 (f32_ulp q))" by (simp only: round_even_of_int)
  then show ?thesis using False by (simp add: f32_round_def less_imp_le)
qed (simp add: f32_round_def)

lemma f32_round_mono: "p \<le> q \<Longrightarrow> f32_round p \<le> f32_round q"
proof -
  assume le: "p \<le> q"
  show ?thesis
  proof (cases "0 < p")
    case False
    then have "f32_round p = 0" by (simp add: f32_round_def)
    then show ?thesis by simp
  next
    case True
    with le have q: "0 < q" by simp
    show ?thesis
    proof (cases "f32_ulp p = f32_ulp q")
      case same: True
      have "round_even (p / pow2 (f32_ulp q)) \<le> round_even (q / pow2 (f32_ulp q))"
        using le by (intro round_even_mono) (simp add: divide_right_mono less_imp_le)
      then show ?thesis using True q by (simp add: f32_round_def same mult_right_mono less_imp_le)
    next
      case False
      with f32_ulp_mono [OF True le] have lt: "f32_ulp p < f32_ulp q" by simp
      moreover have "-149 \<le> f32_ulp p" by (simp add: f32_ulp_def)
      ultimately have "pow2 (f32_ulp q + 23) \<le> f32_round q"
        using f32_round_ge_bottom [OF q] by simp
      moreover have "pow2 (f32_ulp p + 24) \<le> pow2 (f32_ulp q + 23)"
        using lt by (intro pow2_mono) simp
      ultimately show ?thesis using f32_round_le_top [OF True] by linarith
    qed
  qed
qed

end
