(* ===== verification/Rules.thy ===== *)
theory Rules
  imports Rule_Sorting Fnv
begin

text \<open>
  \<open>src/controlplane/rules.go\<close>: the identity of a rule, matching a rule against a request seen through
  the \<open>Extractor\<close> interface, and the sampling of requests.

  The \<open>Extractor\<close> interface of \<open>types.go\<close> is a record of operations \<open>extractor_if\<close> over a state
  \<open>'e\<close>: reading a value may parse the request first and so changes the state. The locale
  \<open>extractor_contract\<close> states what a client relies on: all reads see one fixed \<open>req_view\<close> of the
  request, whatever was read before. Under it, matching with its side effects is the pure
  predicate \<open>match_view\<close>.

  \<open>rand.Float32()\<close> is an argument \<open>roll\<close>.
\<close>

section \<open>The Extractor interface\<close>

record 'e extractor_if =
  ei_Hob :: "'e \<Rightarrow> string \<times> 'e"
  ei_Value :: "string \<Rightarrow> 'e \<Rightarrow> string \<times> 'e"
  ei_Path :: "'e \<Rightarrow> string \<times> 'e"
  ei_SetHob :: "string \<Rightarrow> 'e \<Rightarrow> 'e"
  ei_Source :: "'e \<Rightarrow> string \<times> 'e"
  ei_Host :: "'e \<Rightarrow> string"
  ei_Header :: "string \<Rightarrow> 'e \<Rightarrow> string"

section \<open>Identity\<close>

text \<open>\<open>Rule.Id\<close>: the 32-bit FNV-1a hash of the JSON text of the rule (\<open>marshal\<close>), as eight
  hexadecimal digits, and \<open>Rules.Add\<close>, which stores the rule under its identifier.\<close>

definition hex_lower :: "nat \<Rightarrow> char" where
  "hex_lower n = char_of (if n < 10 then n + 48 else n + 87)"

definition hex8 :: "32 word \<Rightarrow> string" where
  "hex8 w = map (\<lambda>i. hex_lower (unat (drop_bit (4 * i) w mod 16))) [7, 6, 5, 4, 3, 2, 1, 0]"

definition Rule_Id :: "(rule option \<Rightarrow> string) \<Rightarrow> rule option \<Rightarrow> string" where
  "Rule_Id marshal r = hex8 (fnv32a (marshal r))"

definition Rules_Add :: "(rule option \<Rightarrow> string) \<Rightarrow> rules \<Rightarrow> rule option \<Rightarrow> rules" where
  "Rules_Add marshal rs r = AList.update (Rule_Id marshal r) r rs"

section \<open>Sampling and matching\<close>

definition hashSample :: "string \<Rightarrow> f32 \<Rightarrow> bool" where
  "hashSample v prop =
     (if v = '''' then True
      else if prop \<le> 0 then False
      else (let bucket = fnv64 v mod 1000000
            in \<not> (bucket > u64_of_f32 (f32_round (prop * 1000000)))))"

definition withinCsv :: "string \<Rightarrow> string \<Rightarrow> bool" where
  "withinCsv csv test \<longleftrightarrow> list_ex (\<lambda>v. v = test) (split_on CHR '','' csv)"

definition match_sample :: "'e extractor_if \<Rightarrow> f32 \<Rightarrow> rule_match \<Rightarrow> 'e \<Rightarrow> bool \<times> 'e" where
  "match_sample I roll m e =
     (let by_value = (\<lambda>n. case ei_Value I n e of (v, e') \<Rightarrow> (hashSample v (m_Proportion m), e'))
      in if m_Sampler m = CustomerSampler then by_value ''customer''
         else if m_Sampler m = DriverSampler then by_value ''driver''
         else if m_Sampler m = DeviceSampler then by_value ''device''
         else if m_Sampler m = SessionSampler then by_value ''session_id''
         else (\<not> (roll > m_Proportion m), e))"

text \<open>The four tests of \<open>Match.matches\<close>, in the order of the code, up to the first that fails.\<close>

fun run_checks :: "('e \<Rightarrow> bool \<times> 'e) list \<Rightarrow> 'e \<Rightarrow> bool \<times> 'e" where
  "run_checks [] e = (True, e)"
| "run_checks (c # cs) e = (case c e of (b, e') \<Rightarrow> if b then run_checks cs e' else (False, e'))"

definition match_matches :: "'e extractor_if \<Rightarrow> f32 \<Rightarrow> rule_match \<Rightarrow> 'e \<Rightarrow> bool \<times> 'e" where
  "match_matches I roll m = run_checks
     [(\<lambda>e. if m_Path m = '''' then (True, e)
           else (case ei_Path I e of (p, e') \<Rightarrow> (has_prefix p (m_Path m), e'))),
      (\<lambda>e. if m_Source m = '''' then (True, e)
           else (case ei_Source I e of (s, e') \<Rightarrow> (s = m_Source m, e'))),
      (\<lambda>e. if m_Hob m = '''' then (True, e)
           else (case ei_Hob I e of (h, e') \<Rightarrow> (withinCsv (m_Hob m) h, e'))),
      match_sample I roll m]"

definition Rule_Matches :: "'e extractor_if \<Rightarrow> f32 \<Rightarrow> rule option \<Rightarrow> 'e \<Rightarrow> bool \<times> 'e" where
  "Rule_Matches I roll r e =
     (case r of None \<Rightarrow> (False, e)
      | Some r \<Rightarrow> (case r_Match r of None \<Rightarrow> (False, e) | Some m \<Rightarrow> match_matches I roll m e))"

section \<open>What a rule matches, without side effects\<close>

record req_view =
  rv_hob :: string
  rv_path :: string
  rv_source :: string
  rv_value :: "string \<Rightarrow> string"

definition sampled_names :: "string list" where
  "sampled_names = [''customer'', ''driver'', ''device'', ''session_id'']"

definition sampler_name :: "sampler \<Rightarrow> string option" where
  "sampler_name s =
     (if s = CustomerSampler then Some ''customer''
      else if s = DriverSampler then Some ''driver''
      else if s = DeviceSampler then Some ''device''
      else if s = SessionSampler then Some ''session_id''
      else None)"

definition sample_view :: "f32 \<Rightarrow> rule_match \<Rightarrow> req_view \<Rightarrow> bool" where
  "sample_view roll m v =
     (case sampler_name (m_Sampler m) of
        Some n \<Rightarrow> hashSample (rv_value v n) (m_Proportion m)
      | None \<Rightarrow> roll \<le> m_Proportion m)"

definition match_view :: "f32 \<Rightarrow> rule_match \<Rightarrow> req_view \<Rightarrow> bool" where
  "match_view roll m v \<longleftrightarrow>
     (m_Path m = '''' \<or> has_prefix (rv_path v) (m_Path m)) \<and>
     (m_Source m = '''' \<or> rv_source v = m_Source m) \<and>
     (m_Hob m = '''' \<or> withinCsv (m_Hob m) (rv_hob v)) \<and>
     sample_view roll m v"

definition rule_view :: "f32 \<Rightarrow> rule option \<Rightarrow> req_view \<Rightarrow> bool" where
  "rule_view roll r v \<longleftrightarrow>
     (case r of None \<Rightarrow> False | Some r \<Rightarrow>
        (case r_Match r of None \<Rightarrow> False | Some m \<Rightarrow> match_view roll m v))"

lemma sampler_name_sampled: "sampler_name s = Some n \<Longrightarrow> n \<in> set sampled_names"
  by (auto simp: sampler_name_def sampled_names_def split: if_splits)

lemma match_sample_by_name:
  "match_sample I roll m e =
     (case sampler_name (m_Sampler m) of
        Some n \<Rightarrow> (case ei_Value I n e of (v, e') \<Rightarrow> (hashSample v (m_Proportion m), e'))
      | None \<Rightarrow> (\<not> (roll > m_Proportion m), e))"
  by (simp add: match_sample_def sampler_name_def)

locale extractor_contract =
  fixes I :: "'e extractor_if" and view :: "'e \<Rightarrow> req_view"
  assumes hob_law: "ei_Hob I e = (h, e') \<Longrightarrow> h = rv_hob (view e) \<and> view e' = view e"
    and path_law: "ei_Path I e = (p, e') \<Longrightarrow> p = rv_path (view e) \<and> view e' = view e"
    and source_law: "ei_Source I e = (s, e') \<Longrightarrow> s = rv_source (view e) \<and> view e' = view e"
    and value_law: "n \<in> set sampled_names \<Longrightarrow> ei_Value I n e = (x, e') \<Longrightarrow>
      x = rv_value (view e) n \<and> view e' = view e"
begin

lemma sample_law:
  assumes "match_sample I roll m e = (b, e')"
  shows "b = sample_view roll m (view e) \<and> view e' = view e"
proof (cases "sampler_name (m_Sampler m)")
  case None
  with assms show ?thesis by (auto simp: match_sample_by_name sample_view_def)
next
  case (Some n)
  with assms obtain v where "ei_Value I n e = (v, e')" "b = hashSample v (m_Proportion m)"
    by (auto simp: match_sample_by_name split: prod.splits)
  with value_law [OF sampler_name_sampled [OF Some]] Some show ?thesis
    by (auto simp: sample_view_def)
qed

text \<open>A check that tests a predicate of the view and leaves the view as it is.\<close>

definition checks :: "('e \<Rightarrow> bool \<times> 'e) \<Rightarrow> (req_view \<Rightarrow> bool) \<Rightarrow> bool" where
  "checks c p \<longleftrightarrow> (\<forall>e b e'. c e = (b, e') \<longrightarrow> b = p (view e) \<and> view e' = view e)"

lemma run_checks_law:
  "list_all2 checks cs ps \<Longrightarrow> run_checks cs e = (b, e') \<Longrightarrow>
     b = list_all (\<lambda>p. p (view e)) ps \<and> view e' = view e"
proof (induction cs ps arbitrary: e rule: list_all2_induct)
  case (Cons c cs p ps)
  obtain b1 e1 where c: "c e = (b1, e1)" by (cases "c e")
  with Cons.hyps(1) have "b1 = p (view e)" "view e1 = view e" by (auto simp: checks_def)
  with Cons.IH [of e1] Cons.prems c show ?case by (cases b1) auto
qed simp

lemma matches_law:
  assumes "match_matches I roll m e = (b, e')"
  shows "b = match_view roll m (view e) \<and> view e' = view e"
proof -
  let ?ps = "[\<lambda>v. m_Path m = '''' \<or> has_prefix (rv_path v) (m_Path m),
      \<lambda>v. m_Source m = '''' \<or> rv_source v = m_Source m,
      \<lambda>v. m_Hob m = '''' \<or> withinCsv (m_Hob m) (rv_hob v), sample_view roll m]"
  have "b = list_all (\<lambda>p. p (view e)) ?ps \<and> view e' = view e"
    by (rule run_checks_law [OF _ assms [unfolded match_matches_def]])
      (auto simp: checks_def split: if_splits prod.splits
        dest: path_law source_law hob_law sample_law)
  then show ?thesis by (simp add: match_view_def)
qed

lemma Rule_Matches_law:
  "Rule_Matches I roll r e = (b, e') \<Longrightarrow> b = rule_view roll r (view e) \<and> view e' = view e"
  using matches_law
  by (auto simp: Rule_Matches_def rule_view_def split: option.splits)

end

section \<open>Properties\<close>

lemma u64_of_f32_le_iff:
  assumes "q < 2 ^ 64" and "0 \<le> q"
  shows "w \<le> u64_of_f32 q \<longleftrightarrow> of_int (uint w) \<le> q"
proof -
  have "\<lfloor>q\<rfloor> < 2 ^ 64" using assms(1) by (simp add: floor_less_iff)
  then have "uint (u64_of_f32 q) = \<lfloor>q\<rfloor>"
    using assms by (simp add: u64_of_f32_def uint_word_of_int)
  then show ?thesis by (simp add: word_le_def le_floor_iff)
qed

lemma million_le_one: "p \<le> 1 \<Longrightarrow> f32_round (p * 1000000) \<le> 1000000"
proof -
  assume "p \<le> 1"
  then have "f32_round (p * 1000000) \<le> f32_round 1000000" by (intro f32_round_mono) simp
  also have "\<dots> = 1000000" by code_simp
  finally show ?thesis .
qed

lemma hashSample_iff:
  assumes "v \<noteq> ''''" and "0 < p" and "p \<le> 1"
  shows "hashSample v p \<longleftrightarrow> of_int (uint (fnv64 v mod 1000000)) \<le> f32_round (p * 1000000)"
proof -
  have "f32_round (p * 1000000) < 2 ^ 64" using million_le_one [OF assms(3)] by simp
  from u64_of_f32_le_iff [OF this f32_round_nonneg] show ?thesis
    using assms by (simp add: hashSample_def Let_def not_less)
qed

lemma bucket_bound: "uint (fnv64 v mod 1000000) \<le> 999999"
  using pos_mod_bound [of 1000000 "uint (fnv64 v)"] by (simp add: uint_mod)

text \<open>C35: raising the proportion of a rule keeps every request it sampled: hash sampling with a
  proportion \<open>p\<close> implies hash sampling with any \<open>q\<close> between \<open>p\<close> and 1, \<open>float32\<close> rounding included.
  Proportion 1 samples every value and proportion 0 only the empty one.\<close>

theorem hashSample_monotone:
  assumes "p \<le> q" and "q \<le> 1"
  shows "(hashSample v p \<longrightarrow> hashSample v q) \<and> hashSample v 1 \<and> (hashSample v 0 \<longleftrightarrow> v = '''')"
proof -
  have one: "hashSample v 1"
  proof (cases "v = ''''")
    case False
    have "f32_round (1 * 1000000) = 1000000" by code_simp
    moreover have "(of_int (uint (fnv64 v mod 1000000)) :: rat) \<le> of_int 999999"
      using bucket_bound by (subst of_int_le_iff)
    ultimately show ?thesis by (subst hashSample_iff [OF False]) simp_all
  qed (simp add: hashSample_def)
  have "hashSample v p \<longrightarrow> hashSample v q"
  proof (cases "v = '''' \<or> p \<le> 0")
    case False
    then have "f32_round (p * 1000000) \<le> f32_round (q * 1000000)"
      using assms by (intro f32_round_mono) simp
    with False assms show ?thesis by (auto simp: hashSample_iff)
  qed (auto simp: hashSample_def)
  with one show ?thesis by (auto simp: hashSample_def)
qed

theorem hashSample_monotone_witness:
  "\<not> hashSample ''foobar'' (1 / 2) \<and> hashSample ''foobar'' (15 / 16) \<and> hashSample ''foobar'' 1"
proof -
  have "hashSample ''foobar'' (15 / 16)" and "\<not> hashSample ''foobar'' (1 / 2)" by code_simp+
  then show ?thesis using hashSample_monotone [of "15 / 16" 1 "''foobar''"] by simp
qed

text \<open>The cut-off is inclusive: of the 1000000 buckets, a proportion of one half samples the values
  of buckets 0 to 500000, which is one bucket more than half, and a positive proportion however
  small samples the values of bucket 0.\<close>

theorem hashSample_buckets:
  assumes "v \<noteq> ''''"
  shows "(hashSample v (1 / 2) \<longleftrightarrow> fnv64 v mod 1000000 \<le> 500000) \<and>
    (fnv64 v mod 1000000 = 0 \<and> 0 < p \<and> p \<le> 1 \<longrightarrow> hashSample v p)"
proof -
  have "u64_of_f32 (f32_round (1 / 2 * 1000000)) = 500000" by code_simp
  then have "hashSample v (1 / 2) \<longleftrightarrow> fnv64 v mod 1000000 \<le> 500000"
    using assms by (simp add: hashSample_def Let_def not_less)
  moreover have "fnv64 v mod 1000000 = 0 \<and> 0 < p \<and> p \<le> 1 \<longrightarrow> hashSample v p"
    using assms by (auto simp: hashSample_iff)
  ultimately show ?thesis by (rule conjI)
qed

theorem hashSample_buckets_witness: "hashSample ''foobarbaz4'' (1 / 2) \<longleftrightarrow> fnv64 ''foobarbaz4'' mod 1000000 \<le> 500000"
  using hashSample_buckets [of "''foobarbaz4''" 1] by simp

end
