(* ===== verification/Go_Url.thy ===== *)
theory Go_Url
  imports Go_Base
begin

text \<open>
  The part of Go's package \<open>net/url\<close> the proxy relies on: \<open>QueryUnescape\<close>, \<open>QueryEscape\<close>,
  \<open>ParseQuery\<close>, and the methods \<open>Get\<close>, \<open>Add\<close> and \<open>Encode\<close> of \<open>url.Values\<close>. The results are the
  two facts the components need: every key of a parsed query has at least one value (so an index
  \<open>vs[0]\<close> is in range), and parsing an encoded query gives the values back.
\<close>

type_synonym url_values = "(string, string list) gomap"

definition vals :: "url_values \<Rightarrow> string \<Rightarrow> string list" where
  "vals m k = (case map_of m k of None \<Rightarrow> [] | Some vs \<Rightarrow> vs)"

definition values_get :: "url_values \<Rightarrow> string \<Rightarrow> string" where
  "values_get m k = (case vals m k of [] \<Rightarrow> '''' | v # _ \<Rightarrow> v)"

definition values_add :: "string \<Rightarrow> string \<Rightarrow> url_values \<Rightarrow> url_values" where
  "values_add k v m = AList.update k (vals m k @ [v]) m"

definition wf_values :: "url_values \<Rightarrow> bool" where
  "wf_values m \<longleftrightarrow> wf_map m \<and> (\<forall>(k, vs)\<in>set m. vs \<noteq> [])"

section \<open>Escaping\<close>

definition hex_val :: "char \<Rightarrow> nat option" where
  "hex_val c = (let n = of_char c :: nat in
     if 48 \<le> n \<and> n \<le> 57 then Some (n - 48)
     else if 97 \<le> n \<and> n \<le> 102 then Some (n - 87)
     else if 65 \<le> n \<and> n \<le> 70 then Some (n - 55)
     else None)"

definition hex_digit :: "nat \<Rightarrow> char" where
  "hex_digit n = char_of (if n < 10 then n + 48 else n + 55)"

fun query_unescape :: "string \<Rightarrow> string option" where
  "query_unescape [] = Some []"
| "query_unescape (c # s) =
     (if c = CHR ''%'' then
        (case s of
           a # b # t \<Rightarrow>
             (case (hex_val a, hex_val b) of
                (Some x, Some y) \<Rightarrow> map_option ((#) (char_of (16 * x + y))) (query_unescape t)
              | _ \<Rightarrow> None)
         | _ \<Rightarrow> None)
      else map_option ((#) (if c = CHR ''+'' then CHR '' '' else c)) (query_unescape s))"

definition unreserved :: "char \<Rightarrow> bool" where
  "unreserved c \<longleftrightarrow> is_alnum c \<or> c \<in> {CHR ''-'', CHR ''_'', CHR ''.'', CHR ''~''}"

definition escape_c :: "char \<Rightarrow> string" where
  "escape_c c =
     (if unreserved c then [c]
      else if c = CHR '' '' then ''+''
      else [CHR ''%'', hex_digit (of_char c div 16), hex_digit (of_char c mod 16)])"

definition query_escape :: "string \<Rightarrow> string" where
  "query_escape s = concat (map escape_c s)"

lemma of_char_less: "(of_char c :: nat) < 256"
  using take_bit_nat_less_exp [of 8 "of_char c"] by simp

lemma hex_val_digit: "n < 16 \<Longrightarrow> hex_val (hex_digit n) = Some n"
  by (cases "n < 10") (auto simp: hex_val_def hex_digit_def Let_def)

lemma unescape_escape_c: "query_unescape (escape_c c @ s) = map_option ((#) c) (query_unescape s)"
proof -
  have "(of_char c :: nat) < 256" by (rule of_char_less)
  then have "(of_char c :: nat) div 16 < 16" and "(of_char c :: nat) mod 16 < 16"
    by (simp_all add: less_mult_imp_div_less)
  moreover have "char_of (16 * (of_char c div 16) + of_char c mod 16 :: nat) = c"
    by (simp only: mult_div_mod_eq char_of_char)
  ultimately have hex: "query_unescape (CHR ''%'' # hex_digit (of_char c div 16) #
      hex_digit (of_char c mod 16) # s) = map_option ((#) c) (query_unescape s)"
    by (simp add: hex_val_digit)
  consider "unreserved c" | "\<not> unreserved c" "c = CHR '' ''" | "\<not> unreserved c" "c \<noteq> CHR '' ''"
    by blast
  then show ?thesis
  proof cases
    case 1
    then have "c \<noteq> CHR ''%''" and "c \<noteq> CHR ''+''"
      by (auto simp: unreserved_def is_alnum_def less_eq_char_def)
    with 1 show ?thesis by (simp add: escape_c_def)
  next
    case 2
    then show ?thesis by (simp add: escape_c_def)
  next
    case 3
    then show ?thesis using hex by (simp add: escape_c_def)
  qed
qed

lemma unescape_escape: "query_unescape (query_escape s) = Some s"
  by (induction s) (simp_all add: query_escape_def unescape_escape_c)

definition is_reserved_sep :: "char \<Rightarrow> bool" where
  "is_reserved_sep c \<longleftrightarrow> c \<in> {CHR ''&'', CHR '';'', CHR ''=''}"

lemma hex_digit_no_sep: "n < 16 \<Longrightarrow> \<not> is_reserved_sep (hex_digit n)"
  by (cases "n < 10") (auto simp: hex_digit_def is_reserved_sep_def char_of_eq_iff take_bit_eq_mod)

lemma query_escape_no_sep: "d \<in> set (query_escape s) \<Longrightarrow> \<not> is_reserved_sep d"
proof -
  assume "d \<in> set (query_escape s)"
  then obtain c where "d \<in> set (escape_c c)" by (auto simp: query_escape_def)
  moreover have "(of_char c :: nat) div 16 < 16"
    using of_char_less [of c] by (simp add: less_mult_imp_div_less)
  ultimately show ?thesis
    using hex_digit_no_sep [of "of_char c div 16"] hex_digit_no_sep [of "of_char c mod 16"]
    by (auto simp: escape_c_def unreserved_def is_reserved_sep_def is_alnum_def less_eq_char_def
        split: if_splits)
qed

section \<open>ParseQuery and Encode\<close>

text \<open>One \<open>key=value\<close> piece: an empty piece is skipped, a bad escape drops the piece and is
  reported as the error of the whole parse.\<close>

definition split_eq :: "string \<Rightarrow> string \<times> string" where
  "split_eq s = (case str_index s ''='' of
     None \<Rightarrow> (s, '''') | Some i \<Rightarrow> (take i s, drop (Suc i) s))"

definition parse_piece :: "string \<Rightarrow> url_values \<times> bool \<Rightarrow> url_values \<times> bool" where
  "parse_piece p st = (case st of (m, err) \<Rightarrow>
     if p = '''' then (m, err)
     else let (k, v) = split_eq p in
       (case (query_unescape k, query_unescape v) of
          (Some k', Some v') \<Rightarrow> (values_add k' v' m, err)
        | _ \<Rightarrow> (m, True)))"

definition parse_query :: "string \<Rightarrow> url_values \<times> bool" where
  "parse_query q = fold parse_piece (split_by (\<lambda>c. c = CHR ''&'' \<or> c = CHR '';'') q) ([], False)"

definition query_of :: "string \<Rightarrow> url_values" where
  "query_of q = fst (parse_query q)"

definition query_bad :: "string \<Rightarrow> bool" where
  "query_bad q = snd (parse_query q)"

definition encode_pair :: "string \<times> string \<Rightarrow> string" where
  "encode_pair kv = query_escape (fst kv) @ ''='' @ query_escape (snd kv)"

definition flat_values :: "url_values \<Rightarrow> (string \<times> string) list" where
  "flat_values m = concat (map (\<lambda>(k, vs). map (Pair k) vs) m)"

definition values_encode :: "url_values \<Rightarrow> string" where
  "values_encode m = str_join ''&'' (map encode_pair (flat_values (sort_key fst m)))"

lemma vals_add [simp]: "vals (values_add k v m) k' = vals m k' @ (if k' = k then [v] else [])"
  by (simp add: values_add_def vals_def update_conv')

lemma in_set_updateD: "x \<in> set (AList.update k v m) \<Longrightarrow> x = (k, v) \<or> x \<in> set m"
  by (induction m) (auto split: if_splits)

lemma wf_values_add: "wf_values m \<Longrightarrow> wf_values (values_add k v m)"
  unfolding wf_values_def values_add_def
  by (auto simp: distinct_update dest: in_set_updateD)

lemma wf_values_Nil [simp]: "wf_values []"
  by (simp add: wf_values_def)

lemma wf_values_vals: "wf_values m \<Longrightarrow> (k, vs) \<in> set m \<Longrightarrow> vs \<noteq> [] \<and> vals m k = vs"
  by (auto simp: wf_values_def vals_def)

lemma wf_values_perm: "perm_of a b \<Longrightarrow> wf_values b \<Longrightarrow> wf_values a"
  unfolding wf_values_def using perm_of_wf perm_of_set by blast

lemma parse_piece_wf: "wf_values (fst st) \<Longrightarrow> wf_values (fst (parse_piece p st))"
  by (auto simp: parse_piece_def wf_values_add split: prod.splits option.splits)

lemma fold_parse_piece_wf: "wf_values (fst st) \<Longrightarrow> wf_values (fst (fold parse_piece ps st))"
  by (induction ps arbitrary: st) (simp_all add: parse_piece_wf)

lemma query_of_wf [simp, go_intros]: "wf_values (query_of q)"
  unfolding query_of_def parse_query_def by (rule fold_parse_piece_wf) simp

lemma split_eq_encode: "split_eq (encode_pair (k, v)) = (query_escape k, query_escape v)"
proof -
  have idx: "str_index (w @ ''='' @ t) ''='' = Some (length w)"
    if "CHR ''='' \<notin> set w" for w t :: string
    using that by (induction w) (auto simp: has_prefix_def)
  have "CHR ''='' \<notin> set (query_escape k)"
    using query_escape_no_sep [of "CHR ''=''" k] by (auto simp: is_reserved_sep_def)
  from idx [OF this] show ?thesis by (simp add: split_eq_def encode_pair_def)
qed

lemma parse_encode_pair: "parse_piece (encode_pair (k, v)) (m, err) = (values_add k v m, err)"
proof -
  have "encode_pair (k, v) \<noteq> ''''" by (simp add: encode_pair_def)
  then show ?thesis by (simp add: parse_piece_def split_eq_encode unescape_escape)
qed

lemma fold_parse_encoded:
  "fold parse_piece (map encode_pair kvs) (m, err)
     = (fold (\<lambda>(k, v). values_add k v) kvs m, err)"
  by (induction kvs arbitrary: m) (auto simp: parse_encode_pair)

lemma vals_fold_add:
  "vals (fold (\<lambda>(k, v). values_add k v) kvs m) k = vals m k @ map snd (filter (\<lambda>p. fst p = k) kvs)"
  by (induction kvs arbitrary: m) auto

lemma flat_values_filter:
  "wf_map m \<Longrightarrow> map snd (filter (\<lambda>p. fst p = k) (flat_values m)) = vals m k"
proof (induction m)
  case (Cons kv m)
  obtain k' vs where kv: "kv = (k', vs)" by (cases kv)
  have flat: "flat_values (kv # m) = map (Pair k') vs @ flat_values m"
    by (simp add: flat_values_def kv)
  have IH: "map snd (filter (\<lambda>p. fst p = k) (flat_values m)) = vals m k"
    using Cons by simp
  show ?case
  proof (cases "k' = k")
    case True
    with Cons.prems have "map_of m k = None" by (simp add: kv map_of_eq_None_iff)
    with True show ?thesis by (simp add: flat IH) (simp add: kv vals_def filter_map o_def)
  next
    case False
    then show ?thesis by (simp add: flat IH) (simp add: kv vals_def filter_map o_def)
  qed
qed (simp add: flat_values_def vals_def)

lemma encode_pair_no_sep:
  "c \<in> set (encode_pair kv) \<Longrightarrow> \<not> (c = CHR ''&'' \<or> c = CHR '';'')"
  using query_escape_no_sep by (fastforce simp: encode_pair_def is_reserved_sep_def)

lemma vals_perm: "perm_of a b \<Longrightarrow> wf_map b \<Longrightarrow> vals a k = vals b k"
  by (simp add: vals_def perm_of_map_of)

lemma sort_key_perm: "perm_of (sort_key f m) m"
  by (simp add: perm_of_def)

lemma parse_values_encode:
  assumes "wf_map m"
  shows "vals (query_of (values_encode m)) k = vals m k \<and> \<not> query_bad (values_encode m)"
proof -
  let ?ps = "map encode_pair (flat_values (sort_key fst m))"
  have wf: "wf_map (sort_key fst m)" by (rule perm_of_wf [OF sort_key_perm assms])
  have "fold parse_piece (split_by (\<lambda>c. c = CHR ''&'' \<or> c = CHR '';'') (values_encode m)) ([], False)
      = fold parse_piece ?ps ([], False)"
  proof (cases "?ps = []")
    case True
    then show ?thesis by (simp add: values_encode_def parse_piece_def)
  next
    case False
    then show ?thesis unfolding values_encode_def
      by (subst split_by_join) (auto dest: encode_pair_no_sep)
  qed
  then show ?thesis
    using vals_perm [OF sort_key_perm assms, of fst k] flat_values_filter [OF wf, of k]
    by (simp add: query_of_def query_bad_def parse_query_def fold_parse_encoded vals_fold_add)
      (simp add: vals_def)
qed

end
