(* ===== verification/Go_Http.thy ===== *)
theory Go_Http
  imports Go_Url
begin

text \<open>
  The part of Go's package \<open>net/http\<close> the proxy relies on: header maps with canonical keys, the
  request with its lazily parsed forms (\<open>Request.ParseForm\<close>), and the response writer, whose
  header map is copied when the status line goes out, so that later changes to it are lost.

  \<open>mime.ParseMediaType\<close> is an argument \<open>mime\<close>: \<open>None\<close> for an error, \<open>Some\<close> of the media type
  otherwise. A body is absent, a byte string still to be read, or one whose reading fails. What a
  handler writes is kept as chunks: bytes, or a JSON value before it is printed.
\<close>

section \<open>Headers\<close>

type_synonym header = "(string, string list) gomap"

definition token_c :: "char \<Rightarrow> bool" where
  "token_c c \<longleftrightarrow> is_alnum c \<or> c \<in> set ''!#$%&*+-.^_`|~'' \<or> c = CHR 0x27"

fun canon_from :: "bool \<Rightarrow> string \<Rightarrow> string" where
  "canon_from up [] = []"
| "canon_from up (c # s) = (if up then to_upper_c c else to_lower_c c) # canon_from (c = CHR ''-'') s"

definition canonical_key :: "string \<Rightarrow> string" where
  "canonical_key k = (if list_all token_c k then canon_from True k else k)"

definition header_get :: "header \<Rightarrow> string \<Rightarrow> string" where
  "header_get h k = values_get h (canonical_key k)"

definition header_set :: "string \<Rightarrow> string \<Rightarrow> header \<Rightarrow> header" where
  "header_set k v h = AList.update (canonical_key k) [v] h"

definition header_add :: "string \<Rightarrow> string \<Rightarrow> header \<Rightarrow> header" where
  "header_add k v h = values_add (canonical_key k) v h"

lemma vals_update [simp]: "vals (AList.update k vs m) k' = (if k' = k then vs else vals m k')"
  by (simp add: vals_def update_conv')

lemma header_get_set [go_simps]:
  "header_get (header_set k v h) k' =
     (if canonical_key k' = canonical_key k then v else header_get h k')"
  by (simp add: header_get_def header_set_def values_get_def)

lemma header_get_add [go_simps]:
  "header_get (header_add k v h) k' =
     (if canonical_key k' = canonical_key k \<and> vals h (canonical_key k) = [] then v
      else header_get h k')"
  by (auto simp: header_get_def header_add_def values_get_def split: list.splits)

lemma header_set_wf: "wf_map h \<Longrightarrow> wf_map (header_set k v h)"
  by (simp add: header_set_def distinct_update)

lemma header_set_wf_values: "wf_values h \<Longrightarrow> wf_values (header_set k v h)"
  unfolding wf_values_def header_set_def by (auto simp: distinct_update dest: in_set_updateD)

text \<open>Canonical keys stay as they are.\<close>

lemma to_case_dash: "to_upper_c c = CHR ''-'' \<longleftrightarrow> c = CHR ''-''" "to_lower_c c = CHR ''-'' \<longleftrightarrow> c = CHR ''-''"
proof -
  have of45: "(of_char CHR ''-'' :: nat) = 45" by simp
  have iff: "a = b \<longleftrightarrow> (of_char a :: nat) = of_char b" for a b :: char by simp
  show "to_upper_c c = CHR ''-'' \<longleftrightarrow> c = CHR ''-''" "to_lower_c c = CHR ''-'' \<longleftrightarrow> c = CHR ''-''"
    unfolding iff by (auto simp: to_upper_c_def to_lower_c_def less_eq_char_def)
qed

lemma token_case: "token_c c \<Longrightarrow> token_c (to_upper_c c) \<and> token_c (to_lower_c c)"
proof -
  have "is_alnum c \<Longrightarrow> is_alnum (to_upper_c c) \<and> is_alnum (to_lower_c c)"
    by (auto simp: is_alnum_def to_upper_c_def to_lower_c_def less_eq_char_def)
  moreover have "\<not> is_alnum c \<Longrightarrow> to_upper_c c = c \<and> to_lower_c c = c"
    by (auto simp: is_alnum_def to_upper_c_def to_lower_c_def)
  ultimately show "token_c c \<Longrightarrow> token_c (to_upper_c c) \<and> token_c (to_lower_c c)"
    by (cases "is_alnum c") (auto simp: token_c_def)
qed

lemma to_case_idem [simp]:
  "to_upper_c (to_upper_c c) = to_upper_c c" "to_lower_c (to_lower_c c) = to_lower_c c"
  by (auto simp: to_upper_c_def to_lower_c_def less_eq_char_def)

lemma canon_from_token: "list_all token_c k \<Longrightarrow> list_all token_c (canon_from b k)"
  by (induction k arbitrary: b) (auto simp: token_case)

lemma canon_from_idem: "canon_from b (canon_from b k) = canon_from b k"
  by (induction k arbitrary: b) (auto simp: to_case_dash)

lemma canonical_idem: "canonical_key (canonical_key k) = canonical_key k"
  by (simp add: canonical_key_def canon_from_token canon_from_idem)
section \<open>Requests\<close>

datatype body = NoBody | Body string | BadBody

record request =
  rq_Method :: string
  rq_Host :: string
  rq_Path :: string
  rq_RawQuery :: string
  rq_Header :: header
  rq_Body :: body
  rq_Form :: "url_values option"
  rq_PostForm :: "url_values option"
  rq_RemoteAddr :: string

abbreviation url_query :: "request \<Rightarrow> url_values" where
  "url_query r \<equiv> query_of (rq_RawQuery r)"

text \<open>\<open>Values.Get\<close> on a form that may still be nil.\<close>

definition form_get :: "url_values option \<Rightarrow> string \<Rightarrow> string" where
  "form_get f k = (case f of None \<Rightarrow> '''' | Some m \<Rightarrow> values_get m k)"

definition form_mime :: string where
  "form_mime = ''application/x-www-form-urlencoded''"

definition max_form_size :: nat where
  "max_form_size = 10485760"

text \<open>\<open>parsePostForm\<close>: the values (nil when the body is not a form), whether an error is reported,
  and the body as it is left.\<close>

definition parse_post_form ::
    "(string \<Rightarrow> string option) \<Rightarrow> request \<Rightarrow> url_values option \<times> bool \<times> body" where
  "parse_post_form mime r =
     (case rq_Body r of
        NoBody \<Rightarrow> (None, False, NoBody)
      | b \<Rightarrow>
        (let ct = header_get (rq_Header r) ''Content-Type'' in
         (case mime (if ct = '''' then ''application/octet-stream'' else ct) of
            None \<Rightarrow> (None, True, b)
          | Some t \<Rightarrow>
              if t = form_mime then
                (case b of
                   Body s \<Rightarrow>
                     if max_form_size < length s then (None, True, Body (drop (Suc max_form_size) s))
                     else (Some (query_of s), query_bad s, Body '''')
                 | _ \<Rightarrow> (None, True, b))
              else (None, False, b))))"

definition copy_values :: "url_values \<Rightarrow> url_values \<Rightarrow> url_values" where
  "copy_values dst src = fold (\<lambda>(k, v). values_add k v) (flat_values src) dst"

text \<open>\<open>Request.ParseForm\<close>: the form body once, for the three methods that carry one, then the form
  that joins it with the query. The result is the request with its forms filled in, and whether an
  error is returned.\<close>

definition post_form :: "(string \<Rightarrow> string option) \<Rightarrow> request \<Rightarrow> url_values \<times> bool \<times> body" where
  "post_form mime r =
     (case rq_PostForm r of
        Some p \<Rightarrow> (p, False, rq_Body r)
      | None \<Rightarrow>
          if rq_Method r \<in> {''POST'', ''PUT'', ''PATCH''} then
            (case parse_post_form mime r of (p, e, b) \<Rightarrow> ((case p of None \<Rightarrow> [] | Some p \<Rightarrow> p), e, b))
          else ([], False, rq_Body r))"

definition full_form :: "request \<Rightarrow> url_values \<Rightarrow> bool \<Rightarrow> url_values \<times> bool" where
  "full_form r pf e =
     (case rq_Form r of
        Some f \<Rightarrow> (f, e)
      | None \<Rightarrow>
          (if pf = [] then url_query r else copy_values (copy_values [] pf) (url_query r),
           e \<or> query_bad (rq_RawQuery r)))"

definition parse_form :: "(string \<Rightarrow> string option) \<Rightarrow> request \<Rightarrow> request \<times> bool" where
  "parse_form mime r =
     (case post_form mime r of (pf, e1, b) \<Rightarrow>
      case full_form r pf e1 of (f, e2) \<Rightarrow>
        (r\<lparr>rq_PostForm := Some pf, rq_Form := Some f, rq_Body := b\<rparr>, e2))"

lemma wf_values_fold_add: "wf_values m \<Longrightarrow> wf_values (fold (\<lambda>(k, v). values_add k v) kvs m)"
  by (induction kvs arbitrary: m) (auto simp: wf_values_add)

lemma copy_values_wf: "wf_values dst \<Longrightarrow> wf_values (copy_values dst src)"
  by (simp add: copy_values_def wf_values_fold_add)

lemma vals_copy_values [go_simps]:
  "wf_map src \<Longrightarrow> vals (copy_values dst src) k = vals dst k @ vals src k"
  by (simp add: copy_values_def vals_fold_add flat_values_filter)

text \<open>What every request keeps: the forms, where they have been parsed, have distinct keys and at
  least one value for each of them, and so have the headers.\<close>

definition wf_request :: "request \<Rightarrow> bool" where
  "wf_request r \<longleftrightarrow> wf_values (rq_Header r) \<and>
     (\<forall>f. rq_Form r = Some f \<longrightarrow> wf_values f) \<and> (\<forall>f. rq_PostForm r = Some f \<longrightarrow> wf_values f)"

text \<open>Both forms after the call, and the body, as one update of the request.\<close>

lemma parse_form_update:
  "\<exists>pf f b e. parse_form mime r = (r\<lparr>rq_PostForm := Some pf, rq_Form := Some f, rq_Body := b\<rparr>, e)"
  by (simp add: parse_form_def split: prod.split) blast

lemma parse_form_parsed: "parse_form mime r = (r', e) \<Longrightarrow> rq_Form r' \<noteq> None \<and> rq_PostForm r' \<noteq> None"
  using parse_form_update [of mime r] by auto

lemma parse_form_frame [go_simps]:
  assumes "parse_form mime r = (r', e)"
  shows "rq_Method r' = rq_Method r" and "rq_Host r' = rq_Host r" and "rq_Path r' = rq_Path r"
    and "rq_RawQuery r' = rq_RawQuery r" and "rq_Header r' = rq_Header r"
    and "rq_RemoteAddr r' = rq_RemoteAddr r"
  using assms parse_form_update [of mime r] by auto

lemma parse_post_form_wf: "parse_post_form mime r = (Some p, e, b) \<Longrightarrow> wf_values p"
  by (auto simp: parse_post_form_def Let_def split: body.splits option.splits if_splits)

lemma post_form_wf: "wf_request r \<Longrightarrow> post_form mime r = (pf, e, b) \<Longrightarrow> wf_values pf"
  using parse_post_form_wf [of mime r]
  by (cases "rq_PostForm r"; cases "parse_post_form mime r")
    (auto simp: post_form_def wf_request_def split: option.splits if_splits)

lemma full_form_wf: "wf_request r \<Longrightarrow> full_form r pf e = (f, e') \<Longrightarrow> wf_values f"
  by (auto simp: full_form_def wf_request_def copy_values_wf split: option.splits if_splits)

lemma parse_form_wf: "wf_request r \<Longrightarrow> parse_form mime r = (r', e) \<Longrightarrow> wf_request r'"
proof -
  assume wf: "wf_request r" and eq: "parse_form mime r = (r', e)"
  obtain pf e1 b where p: "post_form mime r = (pf, e1, b)" by (cases "post_form mime r") auto
  obtain f e2 where f: "full_form r pf e1 = (f, e2)" by (cases "full_form r pf e1")
  from eq have "r' = r\<lparr>rq_PostForm := Some pf, rq_Form := Some f, rq_Body := b\<rparr>"
    by (simp add: parse_form_def p f)
  then show ?thesis
    using wf post_form_wf [OF wf p] full_form_wf [OF wf f] by (simp add: wf_request_def)
qed

text \<open>A second call does nothing and reports nothing, even when the first reported an error.\<close>

lemma parse_form_done:
  "rq_Form r = Some f \<Longrightarrow> rq_PostForm r = Some p \<Longrightarrow> parse_form mime r = (r, False)"
  by (cases r) (simp add: parse_form_def post_form_def full_form_def)

lemma parse_form_twice [go_simps]: "parse_form mime r = (r', e) \<Longrightarrow> parse_form mime' r' = (r', False)"
  using parse_form_parsed [of mime r r' e] by (auto simp: parse_form_done)

section \<open>Response writers\<close>

datatype json = JNull | JBool bool | JNum int | JStr string | JArr "json list"
  | JObj "(string \<times> json) list"

datatype chunk = Bytes string | Json json

record rwriter =
  rw_Header :: header
  rw_Status :: "int option"
  rw_Sent :: header
  rw_Body :: "chunk list"

definition new_rwriter :: rwriter where
  "new_rwriter = \<lparr>rw_Header = [], rw_Status = None, rw_Sent = [], rw_Body = []\<rparr>"

text \<open>Only the first \<open>WriteHeader\<close> counts; \<open>Write\<close> sends status 200 when none went out yet.\<close>

definition write_header :: "int \<Rightarrow> rwriter \<Rightarrow> rwriter" where
  "write_header code w =
     (if rw_Status w = None then w\<lparr>rw_Status := Some code, rw_Sent := rw_Header w\<rparr> else w)"

definition write_body :: "chunk \<Rightarrow> rwriter \<Rightarrow> rwriter" where
  "write_body c w = (let w = write_header 200 w in w\<lparr>rw_Body := rw_Body w @ [c]\<rparr>)"

definition set_hdr :: "string \<Rightarrow> string \<Rightarrow> rwriter \<Rightarrow> rwriter" where
  "set_hdr k v w = w\<lparr>rw_Header := header_set k v (rw_Header w)\<rparr>"

definition add_hdr :: "string \<Rightarrow> string \<Rightarrow> rwriter \<Rightarrow> rwriter" where
  "add_hdr k v w = w\<lparr>rw_Header := header_add k v (rw_Header w)\<rparr>"

abbreviation get_hdr :: "rwriter \<Rightarrow> string \<Rightarrow> string" where
  "get_hdr w k \<equiv> header_get (rw_Header w) k"

text \<open>\<open>http.Error\<close>.\<close>

definition http_error :: "string \<Rightarrow> int \<Rightarrow> rwriter \<Rightarrow> rwriter" where
  "http_error msg code w =
     write_body (Bytes (msg @ [CHR 0x0A]))
       (write_header code (set_hdr ''Content-Type'' ''text/plain; charset=utf-8'' w))"

lemma rw_set_hdr [simp]:
  "rw_Status (set_hdr k v w) = rw_Status w" "rw_Sent (set_hdr k v w) = rw_Sent w"
  "rw_Body (set_hdr k v w) = rw_Body w"
  "rw_Header (set_hdr k v w) = header_set k v (rw_Header w)"
  by (simp_all add: set_hdr_def)

lemma rw_add_hdr [simp]:
  "rw_Status (add_hdr k v w) = rw_Status w" "rw_Sent (add_hdr k v w) = rw_Sent w"
  "rw_Body (add_hdr k v w) = rw_Body w"
  "rw_Header (add_hdr k v w) = header_add k v (rw_Header w)"
  by (simp_all add: add_hdr_def)

lemma rw_write_header [simp]:
  "rw_Header (write_header c w) = rw_Header w" "rw_Body (write_header c w) = rw_Body w"
  "rw_Status (write_header c w) = (if rw_Status w = None then Some c else rw_Status w)"
  "rw_Sent (write_header c w) = (if rw_Status w = None then rw_Header w else rw_Sent w)"
  by (simp_all add: write_header_def)

lemma rw_write_body [simp]:
  "rw_Header (write_body c w) = rw_Header w" "rw_Body (write_body c w) = rw_Body w @ [c]"
  "rw_Status (write_body c w) = (if rw_Status w = None then Some 200 else rw_Status w)"
  "rw_Sent (write_body c w) = (if rw_Status w = None then rw_Header w else rw_Sent w)"
  by (simp_all add: write_body_def Let_def)

end
