(* ===== verification/Session.thy ===== *)
theory Session
  imports Go_Http
begin

text \<open>
  Package \<open>session\<close> (\<open>src/session/session.go\<close>): where the proxy finds the session identifier of a
  request. The query comes first, then the parsed form, then the headers. The headers are visited
  by a \<open>range\<close> over the map \<open>headerExtractors\<close>, so the order of the two headers is the argument
  \<open>hx\<close>, any permutation of \<^verbatim>\<open>headerExtractors\<close>.
\<close>

type_synonym header_extractor = "string \<Rightarrow> string \<Rightarrow> string"

definition authorizationScheme :: string where
  "authorizationScheme = ''token''"

definition extractXApiTokenHeader :: header_extractor where
  "extractXApiTokenHeader key value = value"

definition extractAuthorizationHeader :: header_extractor where
  "extractAuthorizationHeader key value =
     (let parts = split_on CHR '' '' value in
      if length parts < 2 then ''''
      else if parts ! 0 \<noteq> authorizationScheme then ''''
      else parts ! 1)"

definition headerExtractors :: "(string, header_extractor) gomap" where
  "headerExtractors =
     [(''X-Api-Token'', extractXApiTokenHeader), (''Authorization'', extractAuthorizationHeader)]"

text \<open>The two nested loops over headers and over the values of one header.\<close>

fun scan_values :: "header_extractor \<Rightarrow> string \<Rightarrow> string list \<Rightarrow> string" where
  "scan_values f hdr [] = ''''"
| "scan_values f hdr (v # vs) =
     (let sessId = f hdr v in if sessId \<noteq> '''' then sessId else scan_values f hdr vs)"

fun scan_headers :: "(string, header_extractor) gomap \<Rightarrow> header \<Rightarrow> string" where
  "scan_headers [] h = ''''"
| "scan_headers ((hdr, f) # hx) h =
     (let sessId = scan_values f hdr (vals h hdr)
      in if sessId \<noteq> '''' then sessId else scan_headers hx h)"

definition SessionId :: "(string, header_extractor) gomap \<Rightarrow> request option \<Rightarrow> string" where
  "SessionId hx ro = (case ro of None \<Rightarrow> '''' | Some r \<Rightarrow>
     (let q1 = values_get (url_query r) ''session_id'';
          q2 = values_get (url_query r) ''api_token'';
          f1 = form_get (rq_Form r) ''session_id'';
          f2 = form_get (rq_Form r) ''api_token''
      in if q1 \<noteq> '''' then q1
         else if q2 \<noteq> '''' then q2
         else if f1 \<noteq> '''' then f1
         else if f2 \<noteq> '''' then f2
         else scan_headers hx (rq_Header r)))"

section \<open>Lemmas\<close>

lemma scan_values_find:
  "scan_values f hdr vs = (case find (\<lambda>v. f hdr v \<noteq> '''') vs of None \<Rightarrow> '''' | Some v \<Rightarrow> f hdr v)"
  by (induction vs) (auto simp: Let_def)

lemma perm_headerExtractors:
  assumes "perm_of hx headerExtractors"
  shows "hx = headerExtractors \<or> hx = rev headerExtractors"
proof -
  have "length hx = length headerExtractors"
    using assms unfolding perm_of_def by (rule mset_eq_length)
  then obtain a b where hx: "hx = [a, b]"
    by (auto simp: headerExtractors_def length_Suc_conv)
  have "a \<in> set headerExtractors" and "b \<in> set headerExtractors"
    using perm_of_set [OF assms] by (auto simp: hx)
  moreover have "fst a \<noteq> fst b"
    using perm_of_wf [OF assms] by (simp add: hx headerExtractors_def)
  ultimately show ?thesis by (auto simp: hx headerExtractors_def)
qed

text \<open>The headers are searched in an open order, but it matters only when both carry a session.\<close>

lemma scan_headers_perm:
  assumes "perm_of hx headerExtractors"
    and "scan_values extractXApiTokenHeader ''X-Api-Token'' (vals h ''X-Api-Token'') = '''' \<or>
         scan_values extractAuthorizationHeader ''Authorization'' (vals h ''Authorization'') = ''''"
  shows "scan_headers hx h = scan_headers headerExtractors h"
  using perm_headerExtractors [OF assms(1)] assms(2)
  by (auto simp: headerExtractors_def Let_def)

lemma authorization_token:
  assumes "CHR '' '' \<notin> set tok"
  shows "extractAuthorizationHeader hdr (authorizationScheme @ '' '' @ tok) = tok"
proof -
  have "split_on CHR '' '' (authorizationScheme @ '' '' @ tok) = [authorizationScheme, tok]"
    using assms split_by_word [of tok "\<lambda>c. c = CHR '' ''"]
    by (auto simp: split_on_def authorizationScheme_def)
  then show ?thesis by (simp add: extractAuthorizationHeader_def)
qed

lemma SessionId_frame:
  assumes "rq_RawQuery r' = rq_RawQuery r" and "rq_Form r' = rq_Form r"
    and "\<forall>k\<in>{''X-Api-Token'', ''Authorization''}. vals (rq_Header r') k = vals (rq_Header r) k"
    and "perm_of hx headerExtractors"
  shows "SessionId hx (Some r') = SessionId hx (Some r)"
  using perm_headerExtractors [OF assms(4)] assms(1-3)
  by (auto simp: SessionId_def Let_def headerExtractors_def)

section \<open>Properties\<close>

definition plain_request :: request where
  "plain_request = \<lparr>rq_Method = ''GET'', rq_Host = ''api.elasticride.com'', rq_Path = ''/v1/foo/bar'',
     rq_RawQuery = '''', rq_Header = [], rq_Body = NoBody, rq_Form = None, rq_PostForm = None,
     rq_RemoteAddr = ''10.0.0.1:4242''\<rparr>"

text \<open>An \<open>Authorization: token X\<close> header is read back: when neither the query nor the form names a
  session and there is no \<open>X-Api-Token\<close> header, the session of the request is exactly \<open>X\<close>, for every
  order in which the headers are tried.\<close>

theorem authorization_roundtrip:
  assumes "perm_of hx headerExtractors" and "CHR '' '' \<notin> set tok"
    and "\<forall>k\<in>{''session_id'', ''api_token''}. values_get (url_query r) k = '''' \<and> form_get (rq_Form r) k = ''''"
    and "vals (rq_Header r) ''X-Api-Token'' = []"
    and "vals (rq_Header r) ''Authorization'' = [authorizationScheme @ '' '' @ tok]"
  shows "SessionId hx (Some r) = tok"
  using perm_headerExtractors [OF assms(1)] assms(3-5) authorization_token [OF assms(2)]
  by (auto simp: SessionId_def headerExtractors_def Let_def)

theorem authorization_roundtrip_witness:
  "SessionId headerExtractors
     (Some (plain_request\<lparr>rq_Header := [(''Authorization'', [''token Wqr2FMf/3=''])]\<rparr>)) = ''Wqr2FMf/3=''"
  by (rule authorization_roundtrip)
    (simp_all add: plain_request_def vals_def authorizationScheme_def form_get_def values_get_def
      query_of_def parse_query_def parse_piece_def)

text \<open>The session found does not depend on the order in which Go ranges over \<open>headerExtractors\<close>, as
  long as the query or the form names it or at most one of the two headers holds one.\<close>

theorem session_order_independent:
  assumes "perm_of hx headerExtractors"
    and "(\<exists>k\<in>{''session_id'', ''api_token''}. values_get (url_query r) k \<noteq> '''' \<or> form_get (rq_Form r) k \<noteq> '''') \<or>
      scan_values extractXApiTokenHeader ''X-Api-Token'' (vals (rq_Header r) ''X-Api-Token'') = '''' \<or>
      scan_values extractAuthorizationHeader ''Authorization'' (vals (rq_Header r) ''Authorization'') = ''''"
  shows "SessionId hx (Some r) = SessionId headerExtractors (Some r)"
  using assms(2) scan_headers_perm [OF assms(1)] by (auto simp: SessionId_def Let_def)

theorem session_order_independent_witness:
  "SessionId (rev headerExtractors) (Some (plain_request\<lparr>rq_Header := [(''X-Api-Token'', [''s1''])]\<rparr>)) =
   SessionId headerExtractors (Some (plain_request\<lparr>rq_Header := [(''X-Api-Token'', [''s1''])]\<rparr>))"
proof (rule session_order_independent)
  show "perm_of (rev headerExtractors) headerExtractors" by (simp add: perm_of_def)
qed (simp add: plain_request_def vals_def)

text \<open>With both headers present the session depends on Go's map iteration order: the same request
  belongs to session \<open>s1\<close> in one order and to session \<open>s2\<close> in the other.\<close>

theorem session_header_race:
  "let r = plain_request\<lparr>rq_Header := [(''X-Api-Token'', [''s1'']), (''Authorization'', [''token s2''])]\<rparr>
   in SessionId headerExtractors (Some r) = ''s1'' \<and>
      SessionId (rev headerExtractors) (Some r) = ''s2'' \<and>
      perm_of (rev headerExtractors) headerExtractors"
  by (simp add: plain_request_def perm_of_def) code_simp

end
