(* ===== verification/Extractor.thy ===== *)
theory Extractor
  imports Rules Session
begin

text \<open>
  \<open>src/controlplane/extractor.go\<close> and \<open>citymapping.go\<close>: the request as the routing rules see it. The
  values of the query and of a form body are collected once, on the first read (\<open>doExtraction\<close>),
  which drains the body and puts a copy back, completes a missing content type, parses the form
  and notes the session identifier. \<open>Hob\<close> finds the city code in the values or from the host name,
  and in the second case adds it to the query.

  The state is the request and the collected values (\<open>None\<close> before the first read). The server
  always passes a request, so the nil test of \<open>Hob\<close> has no branch here. The section at the end
  shows that the extractor keeps the contract of the \<open>Extractor\<close> interface.
\<close>

section \<open>The host table\<close>

definition hostMap :: "(string, string) gomap" where
  "hostMap = [
    (''api-driver-london.elasticride.com'', ''LON''),
    (''api-driver-london-test.elasticride.com'', ''LON''),
    (''api-driver-london-staging.elasticride.com'', ''LON''),
    (''api-driver.elasticride.com'', ''LON''),
    (''api-driver-test.elasticride.com'', ''LON''),
    (''api-driver-staging.elasticride.com'', ''LON''),
    (''api-driver-dublin.elasticride.com'', ''DUB''),
    (''api-driver-dublin-test.elasticride.com'', ''DUB''),
    (''api-driver-dublin-staging.elasticride.com'', ''DUB''),
    (''api-driver-boston.elasticride.com'', ''BOS''),
    (''api-driver-boston-test.elasticride.com'', ''BOS''),
    (''api-driver-boston-staging.elasticride.com'', ''BOS''),
    (''api-driver-chicago.elasticride.com'', ''CHI''),
    (''api-driver-chicago-test.elasticride.com'', ''CHI''),
    (''api-driver-chicago-staging.elasticride.com'', ''CHI''),
    (''api-driver-nyc.elasticride.com'', ''NYC''),
    (''api-driver-nyc-test.elasticride.com'', ''NYC''),
    (''api-driver-nyc-staging.elasticride.com'', ''NYC''),
    (''api-driver-toronto.elasticride.com'', ''TOR''),
    (''api-driver-toronto-test.elasticride.com'', ''TOR''),
    (''api-driver-toronto-staging.elasticride.com'', ''TOR''),
    (''api-driver-montreal.elasticride.com'', ''MTR''),
    (''api-driver-montreal-test.elasticride.com'', ''MTR''),
    (''api-driver-montreal-staging.elasticride.com'', ''MTR''),
    (''api-driver-madrid.elasticride.com'', ''MAD''),
    (''api-driver-madrid-test.elasticride.com'', ''MAD''),
    (''api-driver-madrid-staging.elasticride.com'', ''MAD''),
    (''api-driver-barcelona.elasticride.com'', ''BCN''),
    (''api-driver-barcelona-test.elasticride.com'', ''BCN''),
    (''api-driver-barcelona-staging.elasticride.com'', ''BCN''),
    (''api-driver-dc.elasticride.com'', ''WAS''),
    (''api-driver-dc-test.elasticride.com'', ''WAS''),
    (''api-driver-dc-staging.elasticride.com'', ''WAS''),
    (''api-driver-washington.elasticride.com'', ''WAS''),
    (''api-driver-washington-test.elasticride.com'', ''WAS''),
    (''api-driver-washington-staging.elasticride.com'', ''WAS''),
    (''api-driver-osaka.elasticride.com'', ''OSA''),
    (''api-driver-osaka-test.elasticride.com'', ''OSA''),
    (''api-driver-osaka-staging.elasticride.com'', ''OSA''),
    (''api-driver-tokyo.elasticride.com'', ''TYO''),
    (''api-driver-tokyo-test.elasticride.com'', ''TYO''),
    (''api-driver-tokyo-staging.elasticride.com'', ''TYO'')]"

definition cityCodeKey :: string where [go_simps]: "cityCodeKey = ''city''"
definition hobCodeKey :: string where [go_simps]: "hobCodeKey = ''hob''"

section \<open>State and operations\<close>

record extractor =
  ex_req :: request
  ex_values :: "(string \<Rightarrow> string option) option"

definition newExtractor :: "request \<Rightarrow> extractor" where
  "newExtractor r = \<lparr>ex_req = r, ex_values = None\<rparr>"

text \<open>\<open>drainBody\<close>: two readers over the same bytes, or nil readers and an error.\<close>

definition drainBody :: "body \<Rightarrow> body \<times> body \<times> bool" where
  "drainBody b = (case b of Body s \<Rightarrow> (Body s, Body s, False) | _ \<Rightarrow> (NoBody, NoBody, True))"

text \<open>\<open>for k, vs := range m { out[k] = vs[0] }\<close>; the keys are distinct, so the order is immaterial,
  and every key has a value (\<open>wf_values\<close>), so the index is in range.\<close>

definition first_vals :: "url_values \<Rightarrow> (string \<Rightarrow> string option)" where
  "first_vals m = map_of (map (\<lambda>(k, vs). (k, vs ! 0)) m)"

text \<open>The content type completed for \<open>POST\<close> and \<open>PUT\<close>.\<close>

definition complete_content_type :: "(string \<Rightarrow> string option) \<Rightarrow> request \<Rightarrow> request" where
  "complete_content_type mime r =
     (if rq_Method r \<in> {''POST'', ''PUT''} \<and>
         (case mime (header_get (rq_Header r) ''Content-Type'') of None \<Rightarrow> True | Some ct \<Rightarrow> ct = '''')
      then r\<lparr>rq_Header := header_set ''Content-Type'' form_mime (rq_Header r)\<rparr>
      else r)"

definition doExtraction ::
    "(string \<Rightarrow> string option) \<Rightarrow> (string, header_extractor) gomap \<Rightarrow> extractor \<Rightarrow> extractor" where
  "doExtraction mime hx e =
     (let r = ex_req e;
          v0 = first_vals (url_query r);
          (saved, body, bad) = (if rq_Body r = NoBody then (NoBody, NoBody, False) else drainBody (rq_Body r))
      in if bad then \<lparr>ex_req = r\<lparr>rq_Body := saved\<rparr>, ex_values = Some v0\<rparr>
         else (let (r', err) = parse_form mime (complete_content_type mime (r\<lparr>rq_Body := body\<rparr>))
               in if err then \<lparr>ex_req = r'\<lparr>rq_Body := saved\<rparr>, ex_values = Some v0\<rparr>
                  else (let v1 = v0 ++ (case rq_PostForm r' of None \<Rightarrow> Map.empty | Some p \<Rightarrow> first_vals p)
                        in \<lparr>ex_req = r'\<lparr>rq_Body := saved\<rparr>,
                            ex_values = Some (v1(''session_id'' \<mapsto> SessionId hx (Some r')))\<rparr>)))"

text \<open>\<open>if e.extractedValues == nil \{ e.doExtraction() \}\<close>, and a read of the collected values.\<close>

definition settle ::
    "(string \<Rightarrow> string option) \<Rightarrow> (string, header_extractor) gomap \<Rightarrow> extractor \<Rightarrow> extractor" where
  "settle mime hx e = (if ex_values e = None then doExtraction mime hx e else e)"

definition ex_get :: "extractor \<Rightarrow> string \<Rightarrow> string" where
  "ex_get e n = (case ex_values e of None \<Rightarrow> '''' | Some m \<Rightarrow> (case m n of None \<Rightarrow> '''' | Some v \<Rightarrow> v))"

definition ex_Value where
  "ex_Value mime hx n e = (let e' = settle mime hx e in (ex_get e' n, e'))"

definition ex_SetHob where
  "ex_SetHob mime hx code e =
     (let r = ex_req e;
          q = values_add cityCodeKey code (url_query r);
          e' = e\<lparr>ex_req := r\<lparr>rq_RawQuery := values_encode q\<rparr>\<rparr>
      in (case ex_values e' of
            None \<Rightarrow> doExtraction mime hx e'
          | Some m \<Rightarrow> e'\<lparr>ex_values := Some (m(cityCodeKey \<mapsto> code))\<rparr>))"

definition ex_CityOrHob where
  "ex_CityOrHob mime hx e =
     (case ex_Value mime hx cityCodeKey e of (hob, e') \<Rightarrow>
        if hob \<noteq> '''' then (hob, e') else ex_Value mime hx hobCodeKey e')"

definition ex_Hob where
  "ex_Hob mime hx e =
     (case ex_CityOrHob mime hx e of (hob, e') \<Rightarrow>
        if hob \<noteq> '''' then (hob, e')
        else (case map_of hostMap (rq_Host (ex_req e')) of
                Some code \<Rightarrow> (code, ex_SetHob mime hx code e')
              | None \<Rightarrow> ('''', e')))"

definition ex_Path where
  "ex_Path mime hx e = (let e' = settle mime hx e in (rq_Path (ex_req e'), e'))"

definition request_source :: "request \<Rightarrow> string" where
  "request_source r =
     (if str_contains (rq_Host r) ''driver'' then ''driver''
      else if str_contains (rq_Host r) ''customer'' then ''customer''
      else header_get (rq_Header r) ''X-H-Source'')"

definition ex_Source where
  "ex_Source mime hx e = (let e' = settle mime hx e in (request_source (ex_req e'), e'))"

definition ex_Host :: "extractor \<Rightarrow> string" where
  "ex_Host e = rq_Host (ex_req e)"

definition ex_Header :: "string \<Rightarrow> extractor \<Rightarrow> string" where
  "ex_Header hdr e = header_get (rq_Header (ex_req e)) hdr"

definition request_extractor ::
    "(string \<Rightarrow> string option) \<Rightarrow> (string, header_extractor) gomap \<Rightarrow> extractor extractor_if" where
  "request_extractor mime hx =
     \<lparr>ei_Hob = ex_Hob mime hx, ei_Value = ex_Value mime hx, ei_Path = ex_Path mime hx,
      ei_SetHob = ex_SetHob mime hx, ei_Source = ex_Source mime hx, ei_Host = ex_Host,
      ei_Header = ex_Header\<rparr>"

section \<open>What extraction keeps\<close>

lemma first_vals_get: "first_vals m k = map_option (\<lambda>vs. vs ! 0) (map_of m k)"
  by (induction m) (auto simp: first_vals_def)

lemma complete_content_type_frame [simp]:
  "rq_Method (complete_content_type mime r) = rq_Method r"
  "rq_Host (complete_content_type mime r) = rq_Host r"
  "rq_Path (complete_content_type mime r) = rq_Path r"
  "rq_RawQuery (complete_content_type mime r) = rq_RawQuery r"
  "rq_Body (complete_content_type mime r) = rq_Body r"
  "rq_RemoteAddr (complete_content_type mime r) = rq_RemoteAddr r"
  "rq_Form (complete_content_type mime r) = rq_Form r"
  "rq_PostForm (complete_content_type mime r) = rq_PostForm r"
  by (auto simp: complete_content_type_def)

lemma complete_content_type_header:
  "canonical_key k \<noteq> canonical_key ''Content-Type'' \<Longrightarrow>
     header_get (rq_Header (complete_content_type mime r)) k = header_get (rq_Header r) k"
  by (auto simp: complete_content_type_def header_get_set)

lemma complete_content_type_wf: "wf_request r \<Longrightarrow> wf_request (complete_content_type mime r)"
  by (auto simp: complete_content_type_def wf_request_def header_set_wf_values)

text \<open>The three outcomes of extraction: an unreadable body, a malformed form, or all values.\<close>

definition extracted_ok :: "(string, header_extractor) gomap \<Rightarrow> (string \<Rightarrow> string option) \<Rightarrow> request \<Rightarrow>
    (string \<Rightarrow> string option)" where
  "extracted_ok hx v0 r' =
     (v0 ++ (case rq_PostForm r' of None \<Rightarrow> Map.empty | Some p \<Rightarrow> first_vals p))
       (''session_id'' \<mapsto> SessionId hx (Some r'))"

lemma doExtraction_eq:
  "doExtraction mime hx e =
     (let r = ex_req e; v0 = first_vals (url_query r);
          p = parse_form mime (complete_content_type mime r)
      in if rq_Body r = BadBody then \<lparr>ex_req = r\<lparr>rq_Body := NoBody\<rparr>, ex_values = Some v0\<rparr>
         else \<lparr>ex_req = (fst p)\<lparr>rq_Body := rq_Body r\<rparr>,
               ex_values = Some (if snd p then v0 else extracted_ok hx v0 (fst p))\<rparr>)"
proof -
  have body_same: "r\<lparr>rq_Body := b\<rparr> = r" if "rq_Body r = b" for r :: request and b
    using that by (cases r) simp
  show ?thesis
    by (cases "rq_Body (ex_req e)"; cases "parse_form mime (complete_content_type mime (ex_req e))")
      (simp_all add: doExtraction_def drainBody_def body_same extracted_ok_def Let_def)
qed

lemma parse_form_fst [simp]:
  "rq_Method (fst (parse_form mime r)) = rq_Method r" "rq_Host (fst (parse_form mime r)) = rq_Host r"
  "rq_Path (fst (parse_form mime r)) = rq_Path r" "rq_RawQuery (fst (parse_form mime r)) = rq_RawQuery r"
  "rq_Header (fst (parse_form mime r)) = rq_Header r"
  "rq_RemoteAddr (fst (parse_form mime r)) = rq_RemoteAddr r"
  using parse_form_frame [of mime r "fst (parse_form mime r)" "snd (parse_form mime r)"] by simp_all

lemma doExtraction_frame [simp]:
  "rq_Method (ex_req (doExtraction mime hx e)) = rq_Method (ex_req e)"
  "rq_Host (ex_req (doExtraction mime hx e)) = rq_Host (ex_req e)"
  "rq_Path (ex_req (doExtraction mime hx e)) = rq_Path (ex_req e)"
  "rq_RawQuery (ex_req (doExtraction mime hx e)) = rq_RawQuery (ex_req e)"
  "rq_RemoteAddr (ex_req (doExtraction mime hx e)) = rq_RemoteAddr (ex_req e)"
  "ex_values (doExtraction mime hx e) \<noteq> None"
  by (simp_all add: doExtraction_eq Let_def)

lemma doExtraction_header:
  "canonical_key k \<noteq> canonical_key ''Content-Type'' \<Longrightarrow>
     header_get (rq_Header (ex_req (doExtraction mime hx e))) k = header_get (rq_Header (ex_req e)) k"
  by (simp add: doExtraction_eq Let_def complete_content_type_header)

lemma doExtraction_body:
  "rq_Body (ex_req (doExtraction mime hx e)) =
     (case rq_Body (ex_req e) of BadBody \<Rightarrow> NoBody | b \<Rightarrow> b)"
  by (simp add: doExtraction_eq Let_def split: body.splits)

lemma doExtraction_wf: "wf_request (ex_req e) \<Longrightarrow> wf_request (ex_req (doExtraction mime hx e))"
  using parse_form_wf [OF complete_content_type_wf [of "ex_req e" mime], of mime
      "fst (parse_form mime (complete_content_type mime (ex_req e)))"
      "snd (parse_form mime (complete_content_type mime (ex_req e)))"]
  by (auto simp: doExtraction_eq Let_def wf_request_def)

lemma doExtraction_values [simp]: "\<exists>y. ex_values (doExtraction mime hx e) = Some y"
  using doExtraction_frame(6) by blast

lemma settle_done: "ex_values e = Some m \<Longrightarrow> settle mime hx e = e"
  by (simp add: settle_def)

lemma settle_frame [simp]:
  "rq_Method (ex_req (settle mime hx e)) = rq_Method (ex_req e)"
  "rq_Host (ex_req (settle mime hx e)) = rq_Host (ex_req e)"
  "rq_Path (ex_req (settle mime hx e)) = rq_Path (ex_req e)"
  "rq_RawQuery (ex_req (settle mime hx e)) = rq_RawQuery (ex_req e)"
  "rq_RemoteAddr (ex_req (settle mime hx e)) = rq_RemoteAddr (ex_req e)"
  "ex_values (settle mime hx e) \<noteq> None"
  "settle mime hx (settle mime hx e) = settle mime hx e"
  by (simp_all add: settle_def)

lemma settle_header:
  "canonical_key k \<noteq> canonical_key ''Content-Type'' \<Longrightarrow>
     header_get (rq_Header (ex_req (settle mime hx e))) k = header_get (rq_Header (ex_req e)) k"
  by (simp add: settle_def doExtraction_header)

section \<open>The contract of the interface\<close>

text \<open>What every read sees: the city code resolved from the values or the host, and the values the
  samplers ask for.\<close>

definition request_hob :: "extractor \<Rightarrow> string" where
  "request_hob e =
     (if ex_get e ''city'' \<noteq> '''' then ex_get e ''city''
      else if ex_get e ''hob'' \<noteq> '''' then ex_get e ''hob''
      else mget hostMap (rq_Host (ex_req e)))"

definition request_view ::
    "(string \<Rightarrow> string option) \<Rightarrow> (string, header_extractor) gomap \<Rightarrow> extractor \<Rightarrow> req_view" where
  "request_view mime hx e =
     (let e' = settle mime hx e
      in \<lparr>rv_hob = request_hob e', rv_path = rq_Path (ex_req e'), rv_source = request_source (ex_req e'),
          rv_value = (\<lambda>n. if n \<in> set sampled_names then ex_get e' n else '''')\<rparr>)"

lemma hostMap_codes: "map_of hostMap host = Some code \<Longrightarrow> code \<noteq> ''''"
proof -
  have "list_all (\<lambda>(h, c). c \<noteq> '''') hostMap" by (simp add: hostMap_def)
  moreover assume "map_of hostMap host = Some code"
  ultimately show ?thesis by (auto simp: list_all_iff dest: map_of_SomeD)
qed

lemma request_view_settle [simp]: "request_view mime hx (settle mime hx e) = request_view mime hx e"
  by (simp add: request_view_def)

lemma ex_SetHob_settled:
  "ex_values e = Some m \<Longrightarrow> ex_SetHob mime hx code e =
     \<lparr>ex_req = (ex_req e)\<lparr>rq_RawQuery := values_encode (values_add ''city'' code (url_query (ex_req e)))\<rparr>,
      ex_values = Some (m(''city'' \<mapsto> code))\<rparr>"
  by (cases e) (simp add: ex_SetHob_def cityCodeKey_def Let_def)

lemma ex_SetHob_get:
  "ex_values e \<noteq> None \<Longrightarrow>
     ex_get (ex_SetHob mime hx code e) n = (if n = ''city'' then code else ex_get e n)"
  by (auto simp: ex_SetHob_settled ex_get_def)

lemma ex_Hob_eq:
  "ex_Hob mime hx e =
     (let e' = settle mime hx e
      in (request_hob e',
          if ex_get e' ''city'' = '''' \<and> ex_get e' ''hob'' = '''' then
            (case map_of hostMap (rq_Host (ex_req e')) of
               Some code \<Rightarrow> ex_SetHob mime hx code e' | None \<Rightarrow> e')
          else e'))"
  by (simp add: ex_Hob_def ex_CityOrHob_def ex_Value_def request_hob_def Let_def mget_def
      cityCodeKey_def hobCodeKey_def split: option.splits)

lemma ex_Hob_view: "request_view mime hx (snd (ex_Hob mime hx e)) = request_view mime hx e"
proof -
  let ?e = "settle mime hx e"
  obtain m where m: "ex_values ?e = Some m" using settle_frame(6) by blast
  have "request_view mime hx (ex_SetHob mime hx code ?e) = request_view mime hx ?e"
    if none: "ex_get ?e ''city'' = ''''" "ex_get ?e ''hob'' = ''''"
      and code: "map_of hostMap (rq_Host (ex_req ?e)) = Some code" for code
  proof -
    have s: "settle mime hx (ex_SetHob mime hx code ?e) = ex_SetHob mime hx code ?e"
      by (rule settle_done) (simp add: ex_SetHob_settled [OF m])
    have g: "ex_get (ex_SetHob mime hx code ?e) n = (if n = ''city'' then code else ex_get ?e n)" for n
      by (rule ex_SetHob_get) (simp add: m)
    have r: "rq_Path (ex_req (ex_SetHob mime hx code ?e)) = rq_Path (ex_req ?e)"
      "request_source (ex_req (ex_SetHob mime hx code ?e)) = request_source (ex_req ?e)"
      by (simp_all add: ex_SetHob_settled [OF m] request_source_def)
    have "request_hob (ex_SetHob mime hx code ?e) = request_hob ?e"
      using none code hostMap_codes [OF code] by (simp add: request_hob_def g mget_def)
    then show ?thesis
      by (simp add: request_view_def s r g Let_def sampled_names_def fun_eq_iff)
  qed
  then show ?thesis by (auto simp: ex_Hob_eq Let_def split: option.splits)
qed

interpretation rx: extractor_contract "request_extractor mime hx" "request_view mime hx" for mime hx
proof unfold_locales
  fix e h e'
  assume "ei_Hob (request_extractor mime hx) e = (h, e')"
  then have eq: "ex_Hob mime hx e = (h, e')" by (simp add: request_extractor_def)
  then show "h = rv_hob (request_view mime hx e) \<and> request_view mime hx e' = request_view mime hx e"
    using ex_Hob_view [of mime hx e] by (simp add: ex_Hob_eq request_view_def Let_def) 
next
qed (auto simp: request_extractor_def ex_Path_def ex_Source_def ex_Value_def Let_def request_view_def)

section \<open>Lemmas for the properties\<close>

lemma vals_SetHob:
  "vals (url_query (ex_req (ex_SetHob mime hx code e))) k =
     vals (url_query (ex_req e)) k @ (if k = ''city'' then [code] else [])"
proof -
  have wf: "wf_map (values_add ''city'' code (url_query (ex_req e)))"
    using wf_values_add [OF query_of_wf] by (simp add: wf_values_def)
  have "rq_RawQuery (ex_req (ex_SetHob mime hx code e)) =
      values_encode (values_add ''city'' code (url_query (ex_req e)))"
    by (simp add: ex_SetHob_def cityCodeKey_def Let_def split: option.splits)
  then show ?thesis using parse_values_encode [OF wf] by simp
qed

lemma ex_get_settled: "ex_values e = Some m \<Longrightarrow> ex_get e n = (case m n of None \<Rightarrow> '''' | Some v \<Rightarrow> v)"
  by (simp add: ex_get_def)

lemma first_vals_values_get:
  "wf_values m \<Longrightarrow> (case first_vals m n of None \<Rightarrow> '''' | Some v \<Rightarrow> v) = values_get m n"
  by (auto simp: first_vals_get values_get_def vals_def wf_values_def neq_Nil_conv
      split: option.splits list.splits dest!: map_of_SomeD) 

lemma complete_content_type_form:
  assumes "mime form_mime = Some form_mime" and "rq_Method r \<in> {''POST'', ''PUT''}"
    and "mime (header_get (rq_Header r) ''Content-Type'') \<in> {None, Some '''', Some form_mime}"
  shows "mime (header_get (rq_Header (complete_content_type mime r)) ''Content-Type'') = Some form_mime"
  using assms by (auto simp: complete_content_type_def header_get_set form_mime_def)

section \<open>Properties\<close>


definition test_mime :: "string \<Rightarrow> string option" where
  "test_mime ct = (if ct = form_mime then Some form_mime else None)"


text \<open>Finding the hob leaves the request as it is but for the two things it may add: a content
  type, and under \<open>city\<close> the code of a known host when neither \<open>city\<close> nor \<open>hob\<close> has a value. The
  body is put back whole.\<close>

theorem hob_frame:
  "let r = ex_req e; r' = ex_req (snd (ex_Hob mime hx e)); e1 = settle mime hx e in
    rq_Method r' = rq_Method r \<and> rq_Host r' = rq_Host r \<and> rq_Path r' = rq_Path r \<and>
    (rq_Body r \<noteq> BadBody \<longrightarrow> rq_Body r' = rq_Body r) \<and>
    (canonical_key h \<noteq> canonical_key ''Content-Type'' \<longrightarrow>
       header_get (rq_Header r') h = header_get (rq_Header r) h) \<and>
    vals (url_query r') k = vals (url_query r) k @
      (if k = ''city'' \<and> ex_get e1 ''city'' = '''' \<and> ex_get e1 ''hob'' = ''''
       then (case map_of hostMap (rq_Host r) of None \<Rightarrow> [] | Some code \<Rightarrow> [code]) else [])"
proof -
  let ?e = "settle mime hx e" and ?r = "ex_req e"
  obtain m where m: "ex_values ?e = Some m" using settle_frame(6) by blast
  have body: "rq_Body ?r \<noteq> BadBody \<longrightarrow> rq_Body (ex_req ?e) = rq_Body ?r"
    by (auto simp: settle_def doExtraction_body split: body.splits)
  have hdr: "canonical_key h \<noteq> canonical_key ''Content-Type'' \<longrightarrow>
      header_get (rq_Header (ex_req ?e)) h = header_get (rq_Header ?r) h"
    by (simp add: settle_header)
  show ?thesis
  proof (cases "ex_get ?e ''city'' = '''' \<and> ex_get ?e ''hob'' = '''' \<and> map_of hostMap (rq_Host ?r) \<noteq> None")
    case True
    then obtain code where code: "map_of hostMap (rq_Host ?r) = Some code" by blast
    with True have r': "snd (ex_Hob mime hx e) = ex_SetHob mime hx code ?e"
      by (simp add: ex_Hob_eq Let_def)
    have q: "vals (url_query (ex_req (ex_SetHob mime hx code ?e))) k =
        vals (url_query ?r) k @ (if k = ''city'' then [code] else [])"
      by (simp add: vals_SetHob)
    have "rq_Method (ex_req (ex_SetHob mime hx code ?e)) = rq_Method ?r"
      "rq_Host (ex_req (ex_SetHob mime hx code ?e)) = rq_Host ?r"
      "rq_Path (ex_req (ex_SetHob mime hx code ?e)) = rq_Path ?r"
      "rq_Body (ex_req (ex_SetHob mime hx code ?e)) = rq_Body (ex_req ?e)"
      "rq_Header (ex_req (ex_SetHob mime hx code ?e)) = rq_Header (ex_req ?e)"
      by (simp_all add: ex_SetHob_settled [OF m])
    with q True code body hdr show ?thesis by (simp add: r' Let_def)
  next
    case False
    then have "snd (ex_Hob mime hx e) = ?e"
      by (auto simp: ex_Hob_eq Let_def split: option.splits)
    with False body hdr show ?thesis by (auto simp: Let_def)
  qed
qed

theorem hob_frame_witness:
  "rq_Body (ex_req (snd (ex_Hob test_mime headerExtractors (newExtractor
     (plain_request\<lparr>rq_Method := ''POST'', rq_Host := ''api-driver.elasticride.com'', rq_Body := Body ''a=b''\<rparr>)))))
   = Body ''a=b''"
  using hob_frame [of "newExtractor (plain_request\<lparr>rq_Method := ''POST'',
      rq_Host := ''api-driver.elasticride.com'', rq_Body := Body ''a=b''\<rparr>)" test_mime headerExtractors]
  by (simp add: newExtractor_def Let_def)

text \<open>The values of a form body win over those of the query, name by name, also when the client
  left out the content type: a read gives the first value in the body when there is one and the
  first value in the query otherwise.\<close>

theorem body_over_query:
  assumes "mime form_mime = Some form_mime" and "mime '''' = None" and "rq_Method r \<in> {''POST'', ''PUT''}"
    and "mime (header_get (rq_Header r) ''Content-Type'') \<in> {None, Some '''', Some form_mime}"
    and "rq_Body r = Body s" and "length s \<le> max_form_size" and "\<not> query_bad s"
    and "\<not> query_bad (rq_RawQuery r)" and "rq_Form r = None" and "rq_PostForm r = None"
    and "n \<noteq> ''session_id''"
  shows "fst (ex_Value mime hx n (newExtractor r)) =
    (if vals (query_of s) n = [] then values_get (url_query r) n else values_get (query_of s) n)"
proof -
  let ?r = "complete_content_type mime r"
  have "mime (header_get (rq_Header ?r) ''Content-Type'') = Some form_mime"
    by (rule complete_content_type_form [OF assms(1,3,4)])
  moreover have "header_get (rq_Header ?r) ''Content-Type'' = '''' \<Longrightarrow> False"
    using assms(1-4) by (auto simp: complete_content_type_def header_get_set form_mime_def split: if_splits)
  ultimately have pp: "parse_post_form mime ?r = (Some (query_of s), False, Body '''')"
    using assms(5-7) by (auto simp: parse_post_form_def Let_def)
  have "post_form mime ?r = (query_of s, False, Body '''')"
    using assms(3,10) by (auto simp: post_form_def pp)
  then have pf: "rq_PostForm (fst (parse_form mime ?r)) = Some (query_of s)"
    "\<not> snd (parse_form mime ?r)"
    using assms(8,9) by (simp_all add: parse_form_def full_form_def)
  have "ex_values (settle mime hx (newExtractor r)) =
      Some (extracted_ok hx (first_vals (url_query r)) (fst (parse_form mime ?r)))"
    using pf(2) assms(5) by (simp add: settle_def newExtractor_def doExtraction_eq Let_def)
  then have "fst (ex_Value mime hx n (newExtractor r)) =
      (case (first_vals (url_query r) ++ first_vals (query_of s)) n of None \<Rightarrow> '''' | Some v \<Rightarrow> v)"
    using assms(11) by (simp add: ex_Value_def Let_def ex_get_settled extracted_ok_def pf(1))
  also have "\<dots> = (if vals (query_of s) n = [] then values_get (url_query r) n else values_get (query_of s) n)"
    using first_vals_values_get [OF query_of_wf, of "rq_RawQuery r" n]
      first_vals_values_get [OF query_of_wf, of s n] wf_values_vals [OF query_of_wf, of n _ s]
    by (auto simp: map_add_def first_vals_get vals_def split: option.splits dest: map_of_SomeD)
  finally show ?thesis .
qed

theorem body_over_query_witness:
  "fst (ex_Value test_mime headerExtractors ''city'' (newExtractor
     (plain_request\<lparr>rq_Method := ''POST'', rq_RawQuery := ''city=LON&hob=BCN'', rq_Body := Body ''city=MAD''\<rparr>)))
   = values_get (query_of ''city=MAD'') ''city'' \<and> values_get (query_of ''city=MAD'') ''city'' = ''MAD''"
proof -
  have v: "vals (query_of ''city=MAD'') ''city'' = [''MAD'']" "\<not> query_bad ''city=MAD''"
    "\<not> query_bad ''city=LON&hob=BCN''" by code_simp+
  have h: "header_get [] k = ''''" for k by (simp add: header_get_def values_get_def vals_def)
  show ?thesis
    by (subst body_over_query [where s = "''city=MAD''"])
      (simp_all add: v h test_mime_def plain_request_def values_get_def max_form_size_def form_mime_def)
qed

text \<open>A form that does not parse goes unnoticed. The values are then those of the query alone (no
  session is looked for in the headers), and the next call of \<open>ParseForm\<close> on the request, which is
  where the handlers would answer 400, reports no error.\<close>

theorem malformed_form_swallowed:
  assumes "snd (parse_form mime (complete_content_type mime r))" and "rq_Body r \<noteq> BadBody"
  shows "fst (ex_Value mime hx n (newExtractor r)) = values_get (url_query r) n \<and>
    \<not> snd (parse_form mime' (ex_req (snd (ex_Value mime hx n (newExtractor r)))))"
proof -
  let ?p = "parse_form mime (complete_content_type mime r)"
  have e: "settle mime hx (newExtractor r) = \<lparr>ex_req = (fst ?p)\<lparr>rq_Body := rq_Body r\<rparr>,
      ex_values = Some (first_vals (url_query r))\<rparr>"
    using assms by (simp add: settle_def newExtractor_def doExtraction_eq Let_def)
  obtain f p where "rq_Form (fst ?p) = Some f" "rq_PostForm (fst ?p) = Some p"
    using parse_form_parsed [of mime "complete_content_type mime r" "fst ?p" "snd ?p"] by auto
  then have "parse_form mime' ((fst ?p)\<lparr>rq_Body := rq_Body r\<rparr>) = ((fst ?p)\<lparr>rq_Body := rq_Body r\<rparr>, False)"
    by (intro parse_form_done) simp_all
  then show ?thesis
    by (simp add: ex_Value_def Let_def e ex_get_def first_vals_values_get)
qed

theorem malformed_form_swallowed_witness:
  "fst (ex_Value test_mime headerExtractors ''session_id'' (newExtractor
     (plain_request\<lparr>rq_RawQuery := ''a=%zz'', rq_Header := [(''X-Api-Token'', [''s1''])]\<rparr>))) =
   values_get (query_of ''a=%zz'') ''session_id''"
proof -
  let ?r = "plain_request\<lparr>rq_RawQuery := ''a=%zz'', rq_Header := [(''X-Api-Token'', [''s1''])]\<rparr>"
  have "snd (parse_form test_mime (complete_content_type test_mime ?r))" by code_simp
  then show ?thesis
    using malformed_form_swallowed [of test_mime ?r headerExtractors "''session_id''" test_mime]
    by (simp add: plain_request_def)
qed

end
