(* ===== verification/Router.thy ===== *)
theory Router
  imports Extractor
begin

text \<open>
  \<open>src/controlplane/router.go\<close>: \<open>RuleRouter\<close>, which picks the rule for a request (a forced route
  first, then the first matching rule), the mode and the region of its hob, and tells whether the
  request came in under the right host name. The operations are written over the \<open>Extractor\<close>
  interface (\<open>'e extractor_if\<close>) and over the configuration loaded at the time of the call; the
  \<open>i\<close>-th rule of the loop draws the random number \<open>rolls i\<close>.
\<close>

record cp_config =
  cf_rules :: sorted_rules
  cf_regions :: regions
  cf_hobRegions :: hob_regions
  cf_hobModes :: hob_modes
  cf_version :: int
  cf_hash :: string

definition empty_config :: cp_config where
  "empty_config = \<lparr>cf_rules = [], cf_regions = [], cf_hobRegions = [], cf_hobModes = [],
     cf_version = 0, cf_hash = ''''\<rparr>"

section \<open>Route\<close>

definition action_rule :: "action \<Rightarrow> rule" where
  "action_rule a = \<lparr>r_Match = None, r_Action = a, r_Payload = None, r_Weight = 0\<rparr>"

definition forceRoute :: "string \<Rightarrow> rule option" where
  "forceRoute routeStr =
     (let s = to_upper routeStr in
      if s = ''H2'' then Some (action_rule ActionSendToH2)
      else if s = ''H1'' then Some (action_rule ActionProxyToH1)
      else if s = ''DEPRECATE'' then Some (action_rule ActionDeprecate)
      else if s = ''THROTTLE'' then Some (action_rule ActionThrottle)
      else None)"

definition forced_route :: "'e extractor_if \<Rightarrow> 'e \<Rightarrow> rule option" where
  "forced_route I e =
     (let routeStr = ei_Header I ''X-Hailo-Route'' e
      in if routeStr \<noteq> '''' then forceRoute routeStr else None)"

fun route_loop ::
    "'e extractor_if \<Rightarrow> (nat \<Rightarrow> f32) \<Rightarrow> nat \<Rightarrow> sorted_rules \<Rightarrow> 'e \<Rightarrow> rule option \<times> 'e" where
  "route_loop I rolls i [] e = (None, e)"
| "route_loop I rolls i (r # rs) e =
     (case Rule_Matches I (rolls i) r e of (b, e') \<Rightarrow>
        if b then (r, e') else route_loop I rolls (Suc i) rs e')"

definition Route :: "'e extractor_if \<Rightarrow> cp_config \<Rightarrow> (nat \<Rightarrow> f32) \<Rightarrow> 'e \<Rightarrow> rule option \<times> 'e" where
  "Route I cfg rolls e =
     (case forced_route I e of
        Some r \<Rightarrow> (Some r, e)
      | None \<Rightarrow> route_loop I rolls 0 (cf_rules cfg) e)"

section \<open>GetHobMode and Region\<close>

definition GetHobMode :: "'e extractor_if \<Rightarrow> cp_config \<Rightarrow> 'e \<Rightarrow> string \<times> 'e" where
  "GetHobMode I cfg e =
     (let routeStr = ei_Header I ''X-Hailo-Route'' e in
      if routeStr = ''H1'' then (''h1'', e)
      else if routeStr = ''H2'' then (''h2'', e)
      else (case ei_Hob I e of (hob, e') \<Rightarrow> (HobModes_Find (cf_hobModes cfg) hob, e')))"

definition fallback_region :: "regions \<Rightarrow> region option" where
  "fallback_region rs = region_at rs (sort (map fst rs) ! 0)"

text \<open>An offline region gives way to its first failover region that is online, if there is one.\<close>

definition with_failover :: "(string \<Rightarrow> region option) \<Rightarrow> region option \<Rightarrow> region option" where
  "with_failover lk region =
     (case region of
        None \<Rightarrow> None
      | Some g \<Rightarrow>
          if IsOnline region then region
          else (case find (\<lambda>foId. IsOnline (lk foId)) (g_Failover g) of
                  Some foId \<Rightarrow> lk foId
                | None \<Rightarrow> region))"

definition select_region :: "cp_config \<Rightarrow> string \<Rightarrow> region option" where
  "select_region cfg hob =
     (let rs = cf_regions cfg;
          found = region_at rs (HobRegions_Find (cf_hobRegions cfg) hob)
      in with_failover (region_at rs) (if found = None \<and> rs \<noteq> [] then fallback_region rs else found))"

definition Router_Region :: "'e extractor_if \<Rightarrow> cp_config \<Rightarrow> 'e \<Rightarrow> (region option \<times> int) \<times> 'e" where
  "Router_Region I cfg e =
     (case ei_Hob I e of (hob, e') \<Rightarrow> ((select_region cfg hob, cf_version cfg), e'))"

section \<open>CorrectHostname\<close>

datatype hostname_error = NoHob | NoRegion

record hostname_check =
  hc_err :: "hostname_error option"
  hc_correct :: bool
  hc_urls :: "urls option"
  hc_version :: int

text \<open>The URL under the name \<open>api\<close>; indexing a nil map gives the empty string.\<close>

definition urlName :: string where [go_simps]: "urlName = ''api''"

definition api_url :: "urls option \<Rightarrow> string" where
  "api_url u = (case u of None \<Rightarrow> '''' | Some u \<Rightarrow> mget u urlName)"

definition CorrectHostname ::
    "'e extractor_if \<Rightarrow> cp_config \<Rightarrow> header \<Rightarrow> 'e \<Rightarrow> hostname_check \<times> 'e" where
  "CorrectHostname I cfg rwh e =
     (case ei_Hob I e of (hob, e1) \<Rightarrow>
        if hob = '''' \<and> header_get rwh ''X-H-HOB'' = '''' then
          (\<lparr>hc_err = Some NoHob, hc_correct = False, hc_urls = None, hc_version = 0\<rparr>, e1)
        else (case Router_Region I cfg e1 of ((region, version), e2) \<Rightarrow>
          (case region of
             None \<Rightarrow>
               (\<lparr>hc_err = Some NoRegion, hc_correct = False, hc_urls = None, hc_version = version\<rparr>, e2)
           | Some g \<Rightarrow>
               (case ei_Source I e2 of (source, e3) \<Rightarrow>
                  let urls = Region_Urls g source
                  in (\<lparr>hc_err = None, hc_correct = (ei_Host I e2 = api_url urls), hc_urls = urls,
                       hc_version = version\<rparr>, e3)))))"

section \<open>The router over any extractor that keeps its contract\<close>

context extractor_contract
begin

lemma route_loop_law:
  "route_loop I rolls i rs e = (res, e') \<Longrightarrow>
     view e' = view e \<and>
     (case res of
        None \<Rightarrow> \<forall>j<length rs. \<not> rule_view (rolls (i + j)) (rs ! j) (view e)
      | Some r \<Rightarrow> \<exists>j<length rs. rs ! j = Some r \<and> rule_view (rolls (i + j)) (Some r) (view e) \<and>
          (\<forall>k<j. \<not> rule_view (rolls (i + k)) (rs ! k) (view e)))"
proof (induction rs arbitrary: i e)
  case (Cons r rs)
  obtain b e1 where m: "Rule_Matches I (rolls i) r e = (b, e1)"
    by (cases "Rule_Matches I (rolls i) r e")
  from Rule_Matches_law [OF m] have b: "b = rule_view (rolls i) r (view e)" "view e1 = view e"
    by auto
  show ?case
  proof (cases b)
    case True
    with b have "r \<noteq> None" by (cases r) (auto simp: rule_view_def)
    with Cons.prems m b True show ?thesis by (auto intro!: exI [of _ 0])
  next
    case False
    with Cons.prems m have loop: "route_loop I rolls (Suc i) rs e1 = (res, e')" by simp
    have first: "\<not> rule_view (rolls (i + 0)) ((r # rs) ! 0) (view e)" using b False by simp
    show ?thesis
    proof (cases res)
      case None
      with Cons.IH [OF loop] b first show ?thesis
        by (auto simp: nth_Cons split: nat.split)
    next
      case (Some x)
      with Cons.IH [OF loop] b obtain j where j: "j < length rs" "rs ! j = Some x"
        "rule_view (rolls (i + Suc j)) (Some x) (view e)"
        "\<forall>k<j. \<not> rule_view (rolls (i + Suc k)) (rs ! k) (view e)" "view e' = view e"
        by auto
      with first show ?thesis
        by (auto simp: Some nth_Cons split: nat.split intro!: exI [of _ "Suc j"])
    qed
  qed
qed simp

lemma CorrectHostname_law:
  assumes "CorrectHostname I cfg rwh e = (c, e')"
  shows "(hc_err c = Some NoHob \<longleftrightarrow> rv_hob (view e) = '''' \<and> header_get rwh ''X-H-HOB'' = '''')"
    and "(hc_err c = Some NoRegion \<longleftrightarrow> \<not> (rv_hob (view e) = '''' \<and> header_get rwh ''X-H-HOB'' = '''') \<and>
      select_region cfg (rv_hob (view e)) = None)"
    and "hc_err c = None \<Longrightarrow> \<exists>g. select_region cfg (rv_hob (view e)) = Some g \<and>
      hc_urls c = Region_Urls g (rv_source (view e)) \<and> hc_version c = cf_version cfg"
    and "view e' = view e"
  using assms
  by (auto simp: CorrectHostname_def Router_Region_def Let_def split: prod.splits if_splits option.splits
      dest!: hob_law source_law)

end

section \<open>Region selection\<close>

lemma select_region_online:
  assumes "select_region cfg hob = Some g" and "\<not> IsOnline (Some g)"
  shows "\<forall>foId\<in>set (g_Failover g). \<not> IsOnline (region_at (cf_regions cfg) foId)"
  using assms
  by (auto simp: select_region_def with_failover_def Let_def find_None_iff find_Some_iff
      split: option.splits if_splits)

lemma select_region_perm:
  assumes "perm_of (cf_regions cfg') (cf_regions cfg)" and "wf_map (cf_regions cfg)"
    and "perm_of (cf_hobRegions cfg') (cf_hobRegions cfg)" and "wf_map (cf_hobRegions cfg)"
  shows "select_region cfg' hob = select_region cfg hob"
proof -
  have at: "region_at (cf_regions cfg') = region_at (cf_regions cfg)"
    by (rule ext) (rule region_at_perm [OF assms(1,2)])
  have "sort (map fst (cf_regions cfg')) = sort (map fst (cf_regions cfg))"
    using assms(1) by (metis perm_of_def mset_map properties_for_sort sorted_sort mset_sort)
  moreover have "cf_regions cfg' = [] \<longleftrightarrow> cf_regions cfg = []"
    using perm_of_set [OF assms(1)] by auto
  ultimately show ?thesis
    by (simp add: select_region_def fallback_region_def at Find_perm [OF assms(3,4)] Let_def)
qed

lemma fallback_region_key:
  assumes "rs \<noteq> []"
  shows "sort (map fst rs) ! 0 \<in> fst ` set rs"
proof -
  have "sort (map fst rs) ! 0 \<in> set (sort (map fst rs))" using assms by (intro nth_mem) simp
  then show ?thesis by simp
qed

lemma select_region_total:
  assumes "cf_regions cfg \<noteq> []" and "\<forall>(i, r)\<in>set (cf_regions cfg). r \<noteq> None"
  shows "select_region cfg hob \<noteq> None"
proof -
  have at: "region_at (cf_regions cfg) i \<noteq> None" if "i \<in> fst ` set (cf_regions cfg)" for i
  proof -
    from that obtain r where "map_of (cf_regions cfg) i = Some r"
      by (metis domD dom_map_of_conv_image_fst)
    with assms(2) show ?thesis by (auto simp: region_at_def dest!: map_of_SomeD)
  qed
  then have "fallback_region (cf_regions cfg) \<noteq> None"
    using at [OF fallback_region_key [OF assms(1)]] by (simp add: fallback_region_def)
  then show ?thesis using assms(1)
    by (auto simp: select_region_def with_failover_def Let_def find_Some_iff IsOnline_def
        split: option.splits)
qed

lemma CorrectHostname_eq:
  "fst (CorrectHostname (request_extractor mime hx) cfg rwh e) =
     (let v = request_view mime hx e in
      if rv_hob v = '''' \<and> header_get rwh ''X-H-HOB'' = '''' then
        \<lparr>hc_err = Some NoHob, hc_correct = False, hc_urls = None, hc_version = 0\<rparr>
      else (case select_region cfg (rv_hob v) of
          None \<Rightarrow> \<lparr>hc_err = Some NoRegion, hc_correct = False, hc_urls = None, hc_version = cf_version cfg\<rparr>
        | Some g \<Rightarrow> \<lparr>hc_err = None,
            hc_correct = (rq_Host (ex_req e) = api_url (Region_Urls g (rv_source v))),
            hc_urls = Region_Urls g (rv_source v), hc_version = cf_version cfg\<rparr>))"
proof -
  let ?I = "request_extractor mime hx" and ?v = "request_view mime hx e"
  obtain h e1 where 1: "ei_Hob ?I e = (h, e1)" by (cases "ei_Hob ?I e")
  obtain h2 e2 where 2: "ei_Hob ?I e1 = (h2, e2)" by (cases "ei_Hob ?I e1")
  obtain s e3 where 3: "ei_Source ?I e2 = (s, e3)" by (cases "ei_Source ?I e2")
  have h: "h = rv_hob ?v" "h2 = rv_hob ?v" "s = rv_source ?v"
    using rx.hob_law [OF 1] rx.hob_law [OF 2] rx.source_law [OF 3] by auto
  have frame: "rq_Host (ex_req (snd (ex_Hob mime hx x))) = rq_Host (ex_req x)" for x
  proof -
    obtain m where m: "ex_values (settle mime hx x) = Some m" using settle_frame(6) by blast
    show ?thesis by (auto simp: ex_Hob_eq Let_def ex_SetHob_settled [OF m] split: option.splits)
  qed
  have "ei_Host ?I e2 = rq_Host (ex_req e)"
    using 1 2 frame [of e] frame [of e1] by (simp add: request_extractor_def ex_Host_def)
  then show ?thesis
    by (simp add: CorrectHostname_def Router_Region_def 1 2 3 h Let_def split: option.splits)
qed

lemma forced_h1: "to_upper s = ''H1'' \<Longrightarrow> forceRoute s = Some (action_rule ActionProxyToH1)"
  by (simp add: forceRoute_def)

lemma Min_first_key: "rs \<noteq> [] \<Longrightarrow> sort (map fst rs) ! 0 = Min (fst ` set rs)"
proof -
  assume "rs \<noteq> []"
  then have "sort (map fst rs) \<noteq> []" by (metis length_0_conv length_map length_sort)
  then obtain x xs where s: "sort (map fst rs) = x # xs" by (cases "sort (map fst rs)") auto
  have "sorted (x # xs)" and "set (x # xs) = fst ` set rs"
    using s by (metis sorted_sort, metis list.set_map set_sort)
  then show ?thesis
    by (metis List.finite_set Min_eqI list.set_intros(1) nth_Cons_0 s set_ConsD sorted_simps(2) order_refl)
qed

section \<open>Properties\<close>

text \<open>C9: without a forced route the rule chosen is the first of the configuration that matches the
  request with the random number it draws; when the rules are in order, no matching rule is heavier,
  or as heavy and more specific. \<open>None\<close> means that no rule matches. Looking for the rule changes
  nothing of what later reads see.\<close>

theorem route_picks_best:
  assumes "Route (request_extractor mime hx) cfg rolls e = (res, e')"
    and "forced_route (request_extractor mime hx) e = None"
    and "cf_rules cfg = map Some rs" and "rules_ordered rs"
  shows "(case res of
      None \<Rightarrow> \<forall>j<length rs. \<not> rule_view (rolls j) (Some (rs ! j)) (request_view mime hx e)
    | Some r \<Rightarrow> \<exists>j<length rs. rs ! j = r \<and> rule_view (rolls j) (Some r) (request_view mime hx e) \<and>
        (\<forall>k<length rs. rule_view (rolls k) (Some (rs ! k)) (request_view mime hx e) \<longrightarrow>
           j \<le> k \<and> \<not> rule_less (rs ! k) r)) \<and>
    request_view mime hx e' = request_view mime hx e"
proof -
  have loop: "route_loop (request_extractor mime hx) rolls 0 (map Some rs) e = (res, e')"
    using assms(1-3) by (simp add: Route_def)
  note law = rx.route_loop_law [OF loop]
  show ?thesis
  proof (cases res)
    case None
    with law show ?thesis by auto
  next
    case (Some r)
    with law obtain j where j: "j < length rs" "rs ! j = r"
      "rule_view (rolls j) (Some r) (request_view mime hx e)"
      and before: "\<forall>k<j. \<not> rule_view (rolls k) (map Some rs ! k) (request_view mime hx e)" by auto
    have "j \<le> k \<and> \<not> rule_less (rs ! k) r"
      if "k < length rs" "rule_view (rolls k) (Some (rs ! k)) (request_view mime hx e)" for k
    proof -
      have jk: "j \<le> k" using before that by (metis not_less nth_map)
      show ?thesis
      proof (cases "j = k")
        case False
        with jk have "j < k" by simp
        from sorted_wrt_nth_less [OF assms(4) this that(1)] j(2) jk show ?thesis by simp
      qed (use j jk in simp)
    qed
    with j law Some show ?thesis by auto
  qed
qed

definition test_config :: cp_config where
  "test_config = \<lparr>cf_rules = map Some [test_rule '''' ''/v1'' ActionProxyToH1, test_rule '''' '''' ActionSendToH2],
     cf_regions = [(''us'', Some \<lparr>g_Id = ''us'', g_Status = ''OFFLINE'', g_Failover = [''ap'', ''eu''], g_Apps = []\<rparr>),
       (''eu'', Some \<lparr>g_Id = ''eu'', g_Status = ''ONLINE'', g_Failover = [],
          g_Apps = [(''default'', Some [(''api'', ''api.eu.elasticride.com'')])]\<rparr>)],
     cf_hobRegions = [(''NYC'', ''us''), (''default'', ''eu'')], cf_hobModes = [(''default'', ''h2'')],
     cf_version = 7, cf_hash = ''x''\<rparr>"

lemma plain_request_route:
  "map_option r_Action (fst (Route (request_extractor test_mime headerExtractors) test_config (\<lambda>_. 0)
     (newExtractor plain_request))) = Some ActionProxyToH1"
  by code_simp

theorem route_picks_best_witness:
  "\<exists>j<2. rule_view 0 (Some ([test_rule '''' ''/v1'' ActionProxyToH1, test_rule '''' '''' ActionSendToH2] ! j))
     (request_view test_mime headerExtractors (newExtractor plain_request))"
proof -
  let ?rs = "[test_rule '''' ''/v1'' ActionProxyToH1, test_rule '''' '''' ActionSendToH2]"
  obtain r e' where r: "Route (request_extractor test_mime headerExtractors) test_config (\<lambda>_. 0)
      (newExtractor plain_request) = (Some r, e')"
    using plain_request_route by (cases "Route (request_extractor test_mime headerExtractors) test_config
      (\<lambda>_. 0) (newExtractor plain_request)") auto
  have "forced_route (request_extractor test_mime headerExtractors) (newExtractor plain_request) = None"
    and "rules_ordered ?rs" by code_simp+
  from route_picks_best [OF r this(1) _ this(2)]
  obtain j where "j < length ?rs" "?rs ! j = r"
    "rule_view 0 (Some r) (request_view test_mime headerExtractors (newExtractor plain_request))"
    by (auto simp: test_config_def)
  then show ?thesis by (intro exI [of _ j]) simp
qed

text \<open>The header \<open>X-Hailo-Route\<close> forces a route in any case of letters, but \<open>GetHobMode\<close>, which
  must return \<open>what they're forcing to\<close>, knows the two upper-case names only: with \<open>h1\<close> the request is
  proxied to H1 while the mode announced is the one configured for the hob.\<close>

theorem forced_mode_divergence:
  assumes "to_upper (header_get (rq_Header (ex_req e)) ''X-Hailo-Route'') = ''H1''"
  shows "map_option r_Action (fst (Route (request_extractor mime hx) cfg rolls e)) = Some ActionProxyToH1 \<and>
    fst (GetHobMode (request_extractor mime hx) cfg e) =
      (if header_get (rq_Header (ex_req e)) ''X-Hailo-Route'' = ''H1'' then ''h1''
       else HobModes_Find (cf_hobModes cfg) (rv_hob (request_view mime hx e)))"
proof -
  let ?I = "request_extractor mime hx" and ?s = "header_get (rq_Header (ex_req e)) ''X-Hailo-Route''"
  have s: "ei_Header ?I ''X-Hailo-Route'' e = ?s" by (simp add: request_extractor_def ex_Header_def)
  have "?s \<noteq> ''''" "?s \<noteq> ''H2''" using assms by (auto simp: to_upper_def to_upper_c_def)
  moreover obtain h e1 where h: "ei_Hob ?I e = (h, e1)" by (cases "ei_Hob ?I e")
  moreover have "h = rv_hob (request_view mime hx e)" using rx.hob_law [OF h] by simp
  ultimately show ?thesis
    using forced_h1 [OF assms] by (simp add: Route_def forced_route_def GetHobMode_def s action_rule_def Let_def)
qed

theorem forced_mode_divergence_witness:
  "fst (GetHobMode (request_extractor test_mime headerExtractors) test_config
     (newExtractor (plain_request\<lparr>rq_Header := [(''X-Hailo-Route'', [''h1''])]\<rparr>))) \<noteq> ''h1''"
proof -
  let ?e = "newExtractor (plain_request\<lparr>rq_Header := [(''X-Hailo-Route'', [''h1''])]\<rparr>)"
  have h: "header_get (rq_Header (ex_req ?e)) ''X-Hailo-Route'' = ''h1''" "to_upper ''h1'' = ''H1''"
    by code_simp+
  have "HobModes_Find (cf_hobModes test_config) (rv_hob (request_view test_mime headerExtractors ?e)) = ''h2''"
    by code_simp
  then show ?thesis
    using forced_mode_divergence [of ?e test_mime headerExtractors test_config] h by simp
qed

text \<open>C22: the region of a request. The starting point is the region of the hob, or the region with the
  least identifier when the hob has none. It is taken when it is online; otherwise the first of its
  failover regions that is online is taken, and the offline region itself only when none is.\<close>

theorem region_failover:
  assumes "base = (let home = region_at (cf_regions cfg) (HobRegions_Find (cf_hobRegions cfg) hob)
      in if home = None then region_at (cf_regions cfg) (Min (fst ` set (cf_regions cfg))) else home)"
    and "cf_regions cfg \<noteq> []" and "\<forall>(i, r)\<in>set (cf_regions cfg). r \<noteq> None"
  shows "\<exists>b. base = Some b \<and>
    (if IsOnline base then select_region cfg hob = base
     else (\<exists>us f vs. g_Failover b = us @ f # vs \<and> IsOnline (region_at (cf_regions cfg) f) \<and>
             (\<forall>u\<in>set us. \<not> IsOnline (region_at (cf_regions cfg) u)) \<and>
             select_region cfg hob = region_at (cf_regions cfg) f) \<or>
          ((\<forall>f\<in>set (g_Failover b). \<not> IsOnline (region_at (cf_regions cfg) f)) \<and> select_region cfg hob = base))"
proof -
  have sel: "select_region cfg hob = with_failover (region_at (cf_regions cfg)) base"
    using assms(1,2) by (simp add: select_region_def fallback_region_def Min_first_key Let_def)
  then obtain b where b: "base = Some b"
    using select_region_total [OF assms(2,3), of hob] by (cases base) (auto simp: with_failover_def)
  show ?thesis
  proof (cases "find (\<lambda>f. IsOnline (region_at (cf_regions cfg) f)) (g_Failover b)")
    case None
    then have "\<forall>f\<in>set (g_Failover b). \<not> IsOnline (region_at (cf_regions cfg) f)"
      by (simp add: find_None_iff)
    with None b sel show ?thesis by (simp add: with_failover_def)
  next
    case (Some f)
    with find_Some_split [OF Some] b sel show ?thesis by (auto simp: with_failover_def)
  qed
qed

theorem region_failover_witness:
  "\<exists>b. region_at (cf_regions test_config) ''us'' = Some b \<and> g_Failover b = [''ap'', ''eu''] \<and>
     select_region test_config ''NYC'' = region_at (cf_regions test_config) ''eu''"
proof -
  have r: "region_at (cf_regions test_config) (HobRegions_Find (cf_hobRegions test_config) ''NYC'') =
      region_at (cf_regions test_config) ''us''" by code_simp
  have s: "select_region test_config ''NYC'' = region_at (cf_regions test_config) ''eu''" by code_simp
  have "\<exists>b. region_at (cf_regions test_config) ''us'' = Some b"
    using region_failover [of "region_at (cf_regions test_config) ''us''" test_config "''NYC''"]
    by (simp add: r) (simp add: test_config_def region_at_def)
  then show ?thesis using s by (auto simp: test_config_def region_at_def)
qed

text \<open>The region does not depend on the order in which Go ranges over the region map or the hob
  map, the fallback region included.\<close>

theorem region_order_independent:
  assumes "perm_of (cf_regions cfg') (cf_regions cfg)" and "wf_map (cf_regions cfg)"
    and "perm_of (cf_hobRegions cfg') (cf_hobRegions cfg)" and "wf_map (cf_hobRegions cfg)"
  shows "select_region cfg' hob = select_region cfg hob"
  by (rule select_region_perm [OF assms])

theorem region_order_independent_witness:
  "select_region (test_config\<lparr>cf_regions := rev (cf_regions test_config)\<rparr>) ''BOS'' = select_region test_config ''BOS''"
  by (rule region_order_independent) (simp_all add: perm_of_def test_config_def)

text \<open>Pinning converges. When a check finds the wrong host name and announces \<open>urls\<close>, the client
  that repeats the request under the announced \<open>api\<close> name, with the same hob and source, is told that
  its host name is right and gets the same URLs.\<close>

theorem pinning_converges:
  assumes "fst (CorrectHostname (request_extractor mime hx) cfg rwh e) =
      \<lparr>hc_err = None, hc_correct = False, hc_urls = urls, hc_version = version\<rparr>"
    and "rv_hob (request_view mime hx e2) = rv_hob (request_view mime hx e)"
    and "rv_source (request_view mime hx e2) = rv_source (request_view mime hx e)"
    and "rq_Host (ex_req e2) = api_url urls"
  shows "fst (CorrectHostname (request_extractor mime hx) cfg rwh e2) =
    \<lparr>hc_err = None, hc_correct = True, hc_urls = urls, hc_version = version\<rparr>"
  using assms by (auto simp: CorrectHostname_eq Let_def split: option.splits if_splits)

definition city_request :: "string \<Rightarrow> string \<Rightarrow> extractor" where
  "city_request host city = newExtractor (plain_request\<lparr>rq_Host := host, rq_RawQuery := ''city='' @ city\<rparr>)"

theorem pinning_converges_witness:
  "fst (CorrectHostname (request_extractor test_mime headerExtractors) test_config []
     (city_request ''api.eu.elasticride.com'' ''NYC'')) =
   \<lparr>hc_err = None, hc_correct = True, hc_urls = Some [(''api'', ''api.eu.elasticride.com'')], hc_version = 7\<rparr>"
  by (rule pinning_converges [where e = "city_request ''api.us.elasticride.com'' ''NYC''"]) code_simp+

text \<open>The hob that a backend put into the response header \<open>X-H-HOB\<close> decides whether a host name is
  checked at all, but not against which region: for a request without a hob the region is that of
  the empty hob, whatever the header says.\<close>

theorem response_hob_ignored:
  assumes "rv_hob (request_view mime hx e) = ''''"
    and "header_get rwh ''X-H-HOB'' \<noteq> ''''" and "header_get rwh' ''X-H-HOB'' \<noteq> ''''"
  shows "fst (CorrectHostname (request_extractor mime hx) cfg rwh e) =
    fst (CorrectHostname (request_extractor mime hx) cfg rwh' e)"
  using assms by (simp add: CorrectHostname_eq)

theorem response_hob_ignored_witness:
  "fst (CorrectHostname (request_extractor test_mime headerExtractors) test_config
     [(''X-H-Hob'', [''NYC''])] (newExtractor plain_request)) =
   fst (CorrectHostname (request_extractor test_mime headerExtractors) test_config
     [(''X-H-Hob'', [''DUB''])] (newExtractor plain_request))"
  by (rule response_hob_ignored) code_simp+

end
