(* ===== verification/Api_Errors.thy ===== *)
theory Api_Errors
  imports Go_Http
begin

text \<open>
  Package \<open>errors\<close> (\<open>errors.go\<close>): how an error goes out to the client, as JSON or as a protobuf
  message, with its number looked for in the context and in the code. Package \<open>trace\<close> (\<open>trace.go\<close>):
  which requests are traced, and the trace header of the response.

  An error of the platform is what its methods return; the call stack it also carries is not
  written and not modelled. The protobuf text of an error is the argument \<open>marshal\<close>, the setting
  \<open>hailo/api/sanitiseErrors\<close> the argument \<open>sanitise\<close>. Random numbers, identifiers and the
  configured chance are arguments of the trace functions.
\<close>

section \<open>strconv.Atoi\<close>

definition digit_val :: "char \<Rightarrow> int option" where
  "digit_val c = (if CHR ''0'' \<le> c \<and> c \<le> CHR ''9'' then Some (int (of_char c) - 48) else None)"

fun digits_val :: "int \<Rightarrow> string \<Rightarrow> int option" where
  "digits_val acc [] = Some acc"
| "digits_val acc (c # s) =
     (case digit_val c of None \<Rightarrow> None | Some d \<Rightarrow> digits_val (10 * acc + d) s)"

definition parse_digits :: "string \<Rightarrow> int option" where
  "parse_digits s = (if s = '''' then None else digits_val 0 s)"

text \<open>An optional sign and digits, within the range of a 64-bit \<open>int\<close>.\<close>

definition Atoi :: "string \<Rightarrow> int option" where
  "Atoi s =
     (let r = (case s of
          c # t \<Rightarrow> if c = CHR ''-'' then map_option uminus (parse_digits t)
                   else if c = CHR ''+'' then parse_digits t else parse_digits s
        | [] \<Rightarrow> None)
      in (case r of None \<Rightarrow> None
          | Some n \<Rightarrow> if - (2 ^ 63) \<le> n \<and> n < 2 ^ 63 then Some n else None))"

section \<open>trace.go\<close>

record trace_info =
  ti_TraceId :: string
  ti_PersistentTrace :: bool

definition randomTrace :: "rat \<Rightarrow> rat \<Rightarrow> bool" where
  "randomTrace pcChance roll = (if pcChance \<le> 0 then False else roll < pcChance)"

text \<open>\<open>Start\<close>: the trace of the request and the start event sent, if any (its identifier and whether
  it is persistent).\<close>

definition trace_Start ::
    "rat \<Rightarrow> rat \<Rightarrow> string \<Rightarrow> request \<Rightarrow> trace_info \<times> (string \<times> bool) option" where
  "trace_Start pcChance roll uuid r =
     (let traceId = header_get (rq_Header r) ''X-H-TRACEID'';
          userInitiatedTrace = (header_get (rq_Header r) ''X-H-TRACE'' = ''1'' \<or> traceId \<noteq> '''');
          traceId' = (if (userInitiatedTrace \<or> randomTrace pcChance roll) \<and> traceId = '''' then uuid else traceId)
      in (\<lparr>ti_TraceId = traceId', ti_PersistentTrace = userInitiatedTrace\<rparr>,
          if traceId' \<noteq> '''' then Some (traceId', userInitiatedTrace) else None))"

definition trace_Write :: "trace_info \<Rightarrow> rwriter \<Rightarrow> rwriter" where
  "trace_Write t w = (if ti_TraceId t \<noteq> '''' then set_hdr ''X-H-TRACEID'' (ti_TraceId t) w else w)"

section \<open>errors.go\<close>

definition profobufContentType :: string where
  "profobufContentType = ''application/x-protobuf''"

definition defaultContentType :: string where
  "defaultContentType = ''application/json; charset=utf-8''"

text \<open>A slice of context strings is nil or a list.\<close>

record error_body =
  eb_Status :: bool
  eb_Payload :: string
  eb_Number :: int
  eb_DottedCode :: string
  eb_Context :: "string list option"

definition json_strings :: "string list option \<Rightarrow> json" where
  "json_strings ss = (case ss of None \<Rightarrow> JNull | Some ss \<Rightarrow> JArr (map JStr ss))"

definition json_error_body :: "error_body \<Rightarrow> json" where
  "json_error_body e = JObj
     [(''status'', JBool (eb_Status e)), (''payload'', JStr (eb_Payload e)), (''code'', JNum (eb_Number e)),
      (''dotted_code'', JStr (eb_DottedCode e)), (''context'', json_strings (eb_Context e))]"

record api_error =
  ae_ErrorType :: string
  ae_ErrorCode :: string
  ae_ErrorDescription :: string
  ae_ErrorContext :: "string list option"
  ae_ErrorHttpCode :: int
  ae_HttpHeaders :: "(string, string) gomap"

definition ae_Description :: "api_error \<Rightarrow> string" where "ae_Description e = ae_ErrorDescription e"
definition ae_Error :: "api_error \<Rightarrow> string" where "ae_Error e = ae_Description e"
definition ae_Type :: "api_error \<Rightarrow> string" where "ae_Type e = ae_ErrorType e"
definition ae_Code :: "api_error \<Rightarrow> string" where "ae_Code e = ae_ErrorCode e"
definition ae_Context :: "api_error \<Rightarrow> string list option" where "ae_Context e = ae_ErrorContext e"
definition ae_HttpCode :: "api_error \<Rightarrow> int" where "ae_HttpCode e = ae_ErrorHttpCode e"

definition ae_AddContext :: "string list \<Rightarrow> api_error \<Rightarrow> api_error" where
  "ae_AddContext s e = e\<lparr>ae_ErrorContext :=
     (case ae_ErrorContext e of None \<Rightarrow> (if s = [] then None else Some s) | Some c \<Rightarrow> Some (c @ s))\<rparr>"

text \<open>The errors that reach \<open>Write\<close>: its own, or any other that the platform made.\<close>

record platform_error =
  pe_Type :: string
  pe_Code :: string
  pe_Description :: string
  pe_Context :: "string list option"
  pe_HttpCode :: int

datatype perror = IsApi api_error | IsPlatform platform_error

definition perror_Type :: "perror \<Rightarrow> string" where
  "perror_Type e = (case e of IsApi a \<Rightarrow> ae_Type a | IsPlatform p \<Rightarrow> pe_Type p)"

definition to_api_error :: "perror \<Rightarrow> api_error" where
  "to_api_error e = (case e of IsApi a \<Rightarrow> a
     | IsPlatform p \<Rightarrow> \<lparr>ae_ErrorType = pe_Type p, ae_ErrorCode = pe_Code p,
         ae_ErrorDescription = pe_Description p, ae_ErrorContext = pe_Context p,
         ae_ErrorHttpCode = pe_HttpCode p, ae_HttpHeaders = []\<rparr>)"

definition set_headers :: "(string, string) gomap \<Rightarrow> rwriter \<Rightarrow> rwriter" where
  "set_headers hs w = fold (\<lambda>(k, v). set_hdr k v) hs w"

definition writeProtoError :: "(api_error \<Rightarrow> string) \<Rightarrow> api_error \<Rightarrow> rwriter \<Rightarrow> rwriter" where
  "writeProtoError marshal err w =
     write_body (Bytes (marshal err))
       (write_header (ae_HttpCode err)
         (set_hdr ''Content-Type'' profobufContentType (set_headers (ae_HttpHeaders err) w)))"

text \<open>The number and the context that is left: the first entry of the context if it is a number, then the
  code, then 11.\<close>

definition error_number :: "api_error \<Rightarrow> int \<times> string list option" where
  "error_number err =
     (let (errNum, errContext) =
            (case ae_Context err of
               Some (c # cs) \<Rightarrow> (case Atoi c of Some n \<Rightarrow> (n, Some cs) | None \<Rightarrow> (0, ae_Context err))
             | _ \<Rightarrow> (0, ae_Context err));
          errNum = (if errNum = 0 then (case Atoi (ae_Code err) of Some n \<Rightarrow> n | None \<Rightarrow> errNum) else errNum);
          errNum = (if errNum = 0 then 11 else errNum)
      in (errNum, errContext))"

definition writeJsonError :: "api_error \<Rightarrow> rwriter \<Rightarrow> rwriter" where
  "writeJsonError err w =
     (let w1 = set_hdr ''Content-Type'' defaultContentType (set_headers (ae_HttpHeaders err) w);
          errDescription = (if ae_Description err = '''' then
            ''Internal low-level service failure, cannot complete request'' else ae_Description err);
          (errNum, errContext) = error_number err;
          e = \<lparr>eb_Status = False, eb_Payload = errDescription, eb_Number = errNum,
               eb_DottedCode = ae_Code err, eb_Context = errContext\<rparr>
      in write_body (Json (json_error_body e)) (write_header (ae_HttpCode err) w1))"

definition errors_Write ::
    "bool \<Rightarrow> (api_error \<Rightarrow> string) \<Rightarrow> perror \<Rightarrow> string \<Rightarrow> trace_info option \<Rightarrow> rwriter \<Rightarrow> rwriter" where
  "errors_Write sanitise marshal err mimeType traceInfo w =
     (let w1 = (case traceInfo of None \<Rightarrow> w | Some t \<Rightarrow> trace_Write t w);
          apiErr = to_api_error err;
          apiErr' = (if sanitise then apiErr\<lparr>ae_ErrorDescription := perror_Type err\<rparr> else apiErr)
      in if mimeType = profobufContentType then writeProtoError marshal apiErr' w1
         else writeJsonError apiErr' w1)"

section \<open>Lemmas\<close>

lemma set_headers_rw [simp]:
  "rw_Status (set_headers hs w) = rw_Status w" "rw_Sent (set_headers hs w) = rw_Sent w"
  "rw_Body (set_headers hs w) = rw_Body w"
  unfolding set_headers_def by (induction hs arbitrary: w) auto

lemma set_headers_get:
  assumes "wf_map hs" and "inj_on canonical_key (fst ` set hs)" and "(k, v) \<in> set hs"
  shows "get_hdr (set_headers hs w) k = v"
proof -
  have other: "get_hdr (set_headers xs w) k = get_hdr w k"
    if "canonical_key k \<notin> canonical_key ` fst ` set xs" for xs w
    using that unfolding set_headers_def
    by (induction xs arbitrary: w) (auto simp: header_get_set)
  show ?thesis
    using assms
  proof (induction hs arbitrary: w)
    case (Cons kv hs)
    obtain k' v' where kv: "kv = (k', v')" by (cases kv)
    show ?case
    proof (cases "(k, v) = kv")
      case True
      with Cons.prems kv have "k \<notin> fst ` set hs" by auto
      with Cons.prems(2) True kv have "canonical_key k \<notin> canonical_key ` fst ` set hs"
        by (auto simp: inj_on_def image_iff)
      with other [of hs "set_hdr k' v' w"] True kv show ?thesis
        by (simp add: set_headers_def header_get_set)
    next
      case False
      with Cons.prems kv have "wf_map hs" "inj_on canonical_key (fst ` set hs)" "(k, v) \<in> set hs"
        by (auto intro: inj_on_subset)
      with Cons.IH [of "set_hdr k' v' w"] kv show ?thesis by (simp add: set_headers_def)
    qed
  qed simp
qed

lemma digits_val_range: "digits_val acc s = Some n \<Longrightarrow> 0 \<le> acc \<Longrightarrow> 0 \<le> n"
proof (induction acc s rule: digits_val.induct)
  case (2 acc c s)
  have "CHR ''0'' \<le> c \<Longrightarrow> 48 \<le> (of_char c :: nat)" by (simp add: less_eq_char_def)
  with 2 show ?case by (auto simp: digit_val_def split: option.splits if_splits)
qed simp

lemma Atoi_bounds: "Atoi s = Some n \<Longrightarrow> - (2 ^ 63) \<le> n \<and> n < 2 ^ 63"
  by (auto simp: Atoi_def Let_def split: option.splits if_splits)

text \<open>How the number and what is left of the context relate to the context.\<close>

definition context_rest :: "string list option \<Rightarrow> int \<Rightarrow> string list option \<Rightarrow> bool" where
  "context_rest before num after \<longleftrightarrow>
     (case before of
        Some (c # cs) \<Rightarrow>
          if Atoi c \<noteq> None then after = Some cs \<and> (Atoi c \<noteq> Some 0 \<longrightarrow> Atoi c = Some num)
          else after = before
      | _ \<Rightarrow> after = before)"

lemma error_number_spec:
  assumes "error_number err = (num, ctx)"
  shows "num \<noteq> 0 \<and> context_rest (ae_ErrorContext err) num ctx"
proof (cases "ae_ErrorContext err")
  case None
  with assms show ?thesis
    by (auto simp: error_number_def ae_Context_def context_rest_def Let_def split: option.splits if_splits)
next
  case (Some c)
  with assms show ?thesis
    by (cases c)
      (auto simp: error_number_def ae_Context_def context_rest_def Let_def split: option.splits if_splits)
qed

section \<open>Properties\<close>

text \<open>The JSON answer to an error. It has the error's status, the JSON content type whatever headers
  the error brings, and a number that is never 0: the number at the head of the context, else the code
  read as a number, else 11. The context loses its head exactly when that is a number.\<close>

theorem json_error_shape:
  assumes "rw_Status w = None"
  shows "rw_Status (writeJsonError err w) = Some (ae_ErrorHttpCode err) \<and>
    header_get (rw_Sent (writeJsonError err w)) ''Content-Type'' = defaultContentType \<and>
    (\<exists>num payload ctx. rw_Body (writeJsonError err w) = rw_Body w @ [Json (json_error_body
        \<lparr>eb_Status = False, eb_Payload = payload, eb_Number = num, eb_DottedCode = ae_ErrorCode err,
         eb_Context = ctx\<rparr>)] \<and>
      payload \<noteq> '''' \<and> num \<noteq> 0 \<and> context_rest (ae_ErrorContext err) num ctx)"
proof -
  obtain num ctx where n: "error_number err = (num, ctx)" by (cases "error_number err")
  have "rw_Body (writeJsonError err w) = rw_Body w @ [Json (json_error_body
      \<lparr>eb_Status = False, eb_Payload = (if ae_ErrorDescription err = '''' then
         ''Internal low-level service failure, cannot complete request'' else ae_ErrorDescription err),
       eb_Number = num, eb_DottedCode = ae_ErrorCode err, eb_Context = ctx\<rparr>)]"
    by (simp add: writeJsonError_def n Let_def ae_Description_def ae_Code_def)
  moreover have "rw_Status (writeJsonError err w) = Some (ae_ErrorHttpCode err)"
    "header_get (rw_Sent (writeJsonError err w)) ''Content-Type'' = defaultContentType"
    using assms by (simp_all add: writeJsonError_def n Let_def ae_HttpCode_def header_get_set)
  ultimately show ?thesis using error_number_spec [OF n] by auto
qed

definition test_error :: api_error where
  "test_error = \<lparr>ae_ErrorType = ''NOT_FOUND'', ae_ErrorCode = ''com.x.notfound'', ae_ErrorDescription = ''No driver'',
     ae_ErrorContext = Some [''404'', ''driver''], ae_ErrorHttpCode = 404, ae_HttpHeaders = [(''X-A'', ''1'')]\<rparr>"

theorem json_error_shape_witness:
  "\<exists>payload num. rw_Body (writeJsonError test_error new_rwriter) = [Json (json_error_body
      \<lparr>eb_Status = False, eb_Payload = payload, eb_Number = num, eb_DottedCode = ''com.x.notfound'',
       eb_Context = Some [''driver'']\<rparr>)]"
proof -
  have "Atoi ''404'' = Some 404" by code_simp
  then have "context_rest (ae_ErrorContext test_error) num ctx \<Longrightarrow> ctx = Some [''driver'']" for num ctx
    by (simp add: context_rest_def test_error_def)
  moreover have "rw_Status new_rwriter = None" "rw_Body new_rwriter = []" by (simp_all add: new_rwriter_def)
  moreover have "ae_ErrorCode test_error = ''com.x.notfound''" by (simp add: test_error_def)
  ultimately show ?thesis
    using json_error_shape [of new_rwriter test_error] by force
qed

text \<open>With \<open>sanitiseErrors\<close> on, nothing of the description reaches a JSON client: two errors that
  differ only there are answered in the same way, and the payload is the type of the error.\<close>

theorem sanitised_errors:
  assumes "to_api_error e1 = (to_api_error e2)\<lparr>ae_ErrorDescription := d\<rparr>" and "mime \<noteq> profobufContentType"
  shows "errors_Write True marshal e1 mime t w = errors_Write True marshal e2 mime t w \<and>
    (ae_ErrorType (to_api_error e1) \<noteq> '''' \<longrightarrow> (\<exists>num ctx.
      rw_Body (errors_Write True marshal e1 mime t w) = rw_Body w @ [Json (json_error_body
        \<lparr>eb_Status = False, eb_Payload = ae_ErrorType (to_api_error e1), eb_Number = num,
         eb_DottedCode = ae_ErrorCode (to_api_error e1), eb_Context = ctx\<rparr>)]))"
proof -
  have type: "perror_Type e = ae_ErrorType (to_api_error e)" for e
    by (cases e) (simp_all add: perror_Type_def to_api_error_def ae_Type_def)
  have "rw_Body (case t of None \<Rightarrow> w | Some t \<Rightarrow> trace_Write t w) = rw_Body w"
    by (simp add: trace_Write_def split: option.split)
  with assms show ?thesis
    by (auto simp: errors_Write_def type writeJsonError_def ae_Description_def ae_Code_def Let_def split: prod.split)
qed

theorem sanitised_errors_witness:
  "errors_Write True (\<lambda>_. '''') (IsApi (test_error\<lparr>ae_ErrorDescription := ''password was x''\<rparr>)) ''application/json''
     None new_rwriter = errors_Write True (\<lambda>_. '''') (IsApi test_error) ''application/json'' None new_rwriter"
proof -
  have "to_api_error (IsApi (test_error\<lparr>ae_ErrorDescription := ''password was x''\<rparr>)) =
      (to_api_error (IsApi test_error))\<lparr>ae_ErrorDescription := ''password was x''\<rparr>"
    and "''application/json'' \<noteq> profobufContentType"
    by (simp_all add: to_api_error_def profobufContentType_def)
  from sanitised_errors [OF this] show ?thesis by blast
qed

text \<open>A trace is persistent exactly when the client asked for it, by identifier or by flag; the
  client's identifier is kept; a start event goes out exactly for the traced requests, under the
  identifier that the response announces.\<close>

theorem trace_start_spec:
  assumes "uuid \<noteq> ''''" and "trace_Start pcChance roll uuid r = (t, ev)"
  shows "ti_PersistentTrace t = (header_get (rq_Header r) ''X-H-TRACEID'' \<noteq> '''' \<or> header_get (rq_Header r) ''X-H-TRACE'' = ''1'') \<and>
    (header_get (rq_Header r) ''X-H-TRACEID'' \<noteq> '''' \<longrightarrow> ti_TraceId t = header_get (rq_Header r) ''X-H-TRACEID'') \<and>
    (ti_TraceId t \<noteq> '''' \<longleftrightarrow> ti_PersistentTrace t \<or> (0 < pcChance \<and> roll < pcChance)) \<and>
    ev = (if ti_TraceId t = '''' then None else Some (ti_TraceId t, ti_PersistentTrace t)) \<and>
    get_hdr (trace_Write t w) ''X-H-TRACEID'' = (case ev of None \<Rightarrow> get_hdr w ''X-H-TRACEID'' | Some (i, _) \<Rightarrow> i)"
  using assms
  by (auto simp: trace_Start_def trace_Write_def randomTrace_def Let_def header_get_set split: if_splits)

definition traced_request :: request where
  "traced_request = \<lparr>rq_Method = ''GET'', rq_Host = '''', rq_Path = ''/'', rq_RawQuery = '''',
     rq_Header = [(''X-H-Trace'', [''1''])], rq_Body = NoBody, rq_Form = None, rq_PostForm = None,
     rq_RemoteAddr = ''''\<rparr>"

theorem trace_start_spec_witness:
  "ti_PersistentTrace (fst (trace_Start 0 0 ''u'' traced_request))"
proof -
  have "header_get (rq_Header traced_request) ''X-H-TRACE'' = ''1''" by code_simp
  with trace_start_spec [of "''u''" 0 0 traced_request "fst (trace_Start 0 0 ''u'' traced_request)"
      "snd (trace_Start 0 0 ''u'' traced_request)" new_rwriter]
  show ?thesis by simp
qed

end
