(* ===== verification/Messages.thy ===== *)
theory Messages
  imports Go_Base
begin

text \<open>
  The messages of \<open>proto/api/api.proto\<close> as \<open>api.pb.go\<close> has them: structs of pointers, whose fields may be
  missing, with accessors that can be called on a nil message and give the zero value for what is not
  there. A \<open>*string\<close> is a \<open>string option\<close>, a \<open>*int32\<close> a \<open>32 word option\<close>, a receiver an option of the
  message; a nil slice is the empty list. The code puts no nil pointer into a list of pairs.

  The text form and the wire form of a message are the work of the protobuf library.
\<close>

record pair =
  pr_Key :: "string option"
  pr_Value :: "string option"
  pr_unrecognized :: string

record api_request =
  ar_Path :: "string option"
  ar_Verb :: "string option"
  ar_Get :: "pair list"
  ar_Post :: "pair list"
  ar_Header :: "string list"
  ar_Body :: "string option"
  ar_unrecognized :: string

record api_response =
  as_StatusCode :: "32 word option"
  as_Header :: "string list"
  as_Body :: "string option"
  as_unrecognized :: string

text \<open>An optional field read through a pointer to the message: both may be nil.\<close>

definition opt_field :: "('m \<Rightarrow> 'a option) \<Rightarrow> 'a \<Rightarrow> 'm option \<Rightarrow> 'a" where
  "opt_field fld zero m =
     (case m of None \<Rightarrow> zero | Some msg \<Rightarrow> (case fld msg of None \<Rightarrow> zero | Some v \<Rightarrow> v))"

definition rep_field :: "('m \<Rightarrow> 'a list) \<Rightarrow> 'm option \<Rightarrow> 'a list" where
  "rep_field fld m = (case m of None \<Rightarrow> [] | Some msg \<Rightarrow> fld msg)"

text \<open>\<open>Reset\<close> writes the zero message through the receiver, so a nil receiver panics.\<close>

definition reset_to :: "'m \<Rightarrow> 'm option \<Rightarrow> panic + 'm" where
  "reset_to zero m = (case m of None \<Rightarrow> Inl NilDeref | Some msg \<Rightarrow> Inr zero)"

section \<open>Request\<close>

definition Request_zero :: api_request where
  "Request_zero = \<lparr>ar_Path = None, ar_Verb = None, ar_Get = [], ar_Post = [], ar_Header = [], ar_Body = None,
     ar_unrecognized = ''''\<rparr>"

definition Request_Reset :: "api_request option \<Rightarrow> panic + api_request" where
  "Request_Reset = reset_to Request_zero"

definition GetPath :: "api_request option \<Rightarrow> string" where "GetPath = opt_field ar_Path ''''"
definition GetVerb :: "api_request option \<Rightarrow> string" where "GetVerb = opt_field ar_Verb ''''"
definition GetGet :: "api_request option \<Rightarrow> pair list" where "GetGet = rep_field ar_Get"
definition GetPost :: "api_request option \<Rightarrow> pair list" where "GetPost = rep_field ar_Post"
definition Request_GetHeader :: "api_request option \<Rightarrow> string list" where "Request_GetHeader = rep_field ar_Header"
definition Request_GetBody :: "api_request option \<Rightarrow> string" where "Request_GetBody = opt_field ar_Body ''''"

section \<open>Request_Pair\<close>

definition Pair_zero :: pair where
  "Pair_zero = \<lparr>pr_Key = None, pr_Value = None, pr_unrecognized = ''''\<rparr>"

definition Pair_Reset :: "pair option \<Rightarrow> panic + pair" where
  "Pair_Reset = reset_to Pair_zero"

definition GetKey :: "pair option \<Rightarrow> string" where "GetKey = opt_field pr_Key ''''"
definition GetValue :: "pair option \<Rightarrow> string" where "GetValue = opt_field pr_Value ''''"

text \<open>The literal \<open>&api.Request_Pair{Key: proto.String(k), Value: proto.String(v)}\<close>.\<close>

definition new_pair :: "string \<Rightarrow> string \<Rightarrow> pair" where
  "new_pair k v = Pair_zero\<lparr>pr_Key := Some k, pr_Value := Some v\<rparr>"

section \<open>Response\<close>

definition Response_zero :: api_response where
  "Response_zero = \<lparr>as_StatusCode = None, as_Header = [], as_Body = None, as_unrecognized = ''''\<rparr>"

definition Response_Reset :: "api_response option \<Rightarrow> panic + api_response" where
  "Response_Reset = reset_to Response_zero"

definition GetStatusCode :: "api_response option \<Rightarrow> 32 word" where "GetStatusCode = opt_field as_StatusCode 0"
definition Response_GetHeader :: "api_response option \<Rightarrow> string list" where "Response_GetHeader = rep_field as_Header"
definition Response_GetBody :: "api_response option \<Rightarrow> string" where "Response_GetBody = opt_field as_Body ''''"

section \<open>Lemmas\<close>

lemma opt_field_simps [simp]:
  "opt_field fld z None = z" "opt_field fld z (Some m) = (case fld m of None \<Rightarrow> z | Some v \<Rightarrow> v)"
  by (simp_all add: opt_field_def)

lemma rep_field_simps [simp]: "rep_field fld None = []" "rep_field fld (Some m) = fld m"
  by (simp_all add: rep_field_def)

lemmas getter_defs = GetPath_def GetVerb_def GetGet_def GetPost_def Request_GetHeader_def Request_GetBody_def
  GetKey_def GetValue_def GetStatusCode_def Response_GetHeader_def Response_GetBody_def

lemma new_pair_inject [simp]: "new_pair k v = new_pair k' v' \<longleftrightarrow> k = k' \<and> v = v'"
  by (simp add: new_pair_def Pair_zero_def)

lemma new_pair_get [simp]:
  "GetKey (Some (new_pair k v)) = k" "GetValue (Some (new_pair k v)) = v"
  by (simp_all add: getter_defs new_pair_def)

text \<open>To its accessors a message that has been reset is as good as no message.\<close>

lemma reset_reads_nil:
  "Request_Reset m = Inr r \<Longrightarrow> GetPath (Some r) = GetPath None \<and> GetVerb (Some r) = GetVerb None \<and>
     GetGet (Some r) = GetGet None \<and> GetPost (Some r) = GetPost None \<and>
     Request_GetHeader (Some r) = Request_GetHeader None \<and> Request_GetBody (Some r) = Request_GetBody None"
  "Pair_Reset p = Inr q \<Longrightarrow> GetKey (Some q) = GetKey None \<and> GetValue (Some q) = GetValue None"
  "Response_Reset a = Inr b \<Longrightarrow> GetStatusCode (Some b) = GetStatusCode None \<and>
     Response_GetHeader (Some b) = Response_GetHeader None \<and> Response_GetBody (Some b) = Response_GetBody None"
  by (auto simp: Request_Reset_def Pair_Reset_def Response_Reset_def reset_to_def getter_defs
      Request_zero_def Pair_zero_def Response_zero_def split: option.splits)

end
