(* ===== verification/Http_Handler.thy ===== *)
theory Http_Handler
  imports Api_Errors Messages
begin

text \<open>
  What the handlers of \<open>src/handler\<close> share: the events a handler causes outside the response
  (statistics, instrumentation, trace events, calls on the message bus) and the interface \<open>http.Handler\<close> with the contract every handler keeps: what
  has been sent stays sent.

  A handler is a function from the request and the response writer to the writer and the events it
  caused, in order. Durations are left out of the events. \<open>Aborted\<close> stands for the recovery of a panic by
  the HTTP server, which drops the connection.
\<close>

section \<open>Events\<close>

datatype bus_payload = ApiPayload api_request | ProtoPayload string | JsonPayload string

record bus_call =
  bc_Service :: string
  bc_Endpoint :: string
  bc_Payload :: bus_payload
  bc_Trace :: "(string \<times> bool) option"
  bc_SessionID :: string
  bc_From :: string
  bc_RemoteAddr :: string

datatype event =
    StatsRecord string bool
  | InstTiming string
  | InstCounter string
  | TraceSent string bool
  | BusCall bus_call
  | Aborted panic

type_synonym handler = "request \<Rightarrow> rwriter \<Rightarrow> rwriter \<times> event list"

text \<open>The deferred accounting of a handler: four instruments, the statistics of the root and of the path.\<close>

definition az_name :: "string \<Rightarrow> string \<Rightarrow> string" where
  "az_name az rest = ''handler.per-az.'' @ az @ ''.'' @ rest"

text \<open>\<open>init\<close> of the package: the zone of the metrics, which the platform may not know.\<close>

definition handler_az :: "string option \<Rightarrow> string" where
  "handler_az zone = (case zone of None \<Rightarrow> ''unknown'' | Some a \<Rightarrow> if a = '''' then ''unknown'' else a)"

definition outcome_events :: "string \<Rightarrow> string \<Rightarrow> bool \<Rightarrow> string \<Rightarrow> event list" where
  "outcome_events az backend success path =
     (let n = backend @ (if success then ''.success'' else ''.failure'')
      in [InstTiming (''handler.'' @ n), InstCounter (''handler.'' @ n),
          InstTiming (az_name az n), InstCounter (az_name az n)]
         @ (if path \<noteq> ''/'' then [StatsRecord ''/'' success] else []) @ [StatsRecord path success])"

text \<open>The calls a handler makes on the bus.\<close>

definition bus_calls :: "event list \<Rightarrow> bus_call list" where
  "bus_calls evs = concat (map (\<lambda>e. case e of BusCall c \<Rightarrow> [c] | _ \<Rightarrow> []) evs)"

lemma bus_calls_simps [simp]:
  "bus_calls [] = []" "bus_calls (BusCall c # evs) = c # bus_calls evs"
  "bus_calls (StatsRecord p b # evs) = bus_calls evs" "bus_calls (InstTiming n # evs) = bus_calls evs"
  "bus_calls (InstCounter n # evs) = bus_calls evs" "bus_calls (TraceSent i b # evs) = bus_calls evs"
  "bus_calls (Aborted pn # evs) = bus_calls evs"
  "bus_calls (evs @ evs') = bus_calls evs @ bus_calls evs'"
  by (simp_all add: bus_calls_def)

lemma bus_calls_outcome [simp]: "bus_calls (outcome_events az b s p) = []"
  by (simp add: outcome_events_def Let_def)

section \<open>The contract\<close>

definition rw_grows :: "rwriter \<Rightarrow> rwriter \<Rightarrow> bool" where
  "rw_grows w w' \<longleftrightarrow>
     (rw_Status w \<noteq> None \<longrightarrow> rw_Status w' = rw_Status w \<and> rw_Sent w' = rw_Sent w) \<and>
     (\<exists>cs. rw_Body w' = rw_Body w @ cs \<and> (cs \<noteq> [] \<longrightarrow> rw_Status w' \<noteq> None))"

named_theorems grow_intros \<open>operations that only add to the response\<close>

lemma grows_refl [simp, grow_intros]: "rw_grows w w"
  by (simp add: rw_grows_def)

lemma grows_trans [trans]:
  assumes "rw_grows w w'" and "rw_grows w' w''"
  shows "rw_grows w w''"
proof -
  obtain cs where cs: "rw_Body w' = rw_Body w @ cs" "cs \<noteq> [] \<longrightarrow> rw_Status w' \<noteq> None"
    using assms(1) by (auto simp: rw_grows_def)
  obtain ds where ds: "rw_Body w'' = rw_Body w' @ ds" "ds \<noteq> [] \<longrightarrow> rw_Status w'' \<noteq> None"
    using assms(2) by (auto simp: rw_grows_def)
  have "cs @ ds \<noteq> [] \<longrightarrow> rw_Status w'' \<noteq> None"
    using cs(2) ds(2) assms(2) by (auto simp: rw_grows_def)
  with cs(1) ds(1) assms show ?thesis by (auto simp: rw_grows_def)
qed

lemma grows_set_hdr [grow_intros]: "rw_grows w w' \<Longrightarrow> rw_grows w (set_hdr k v w')"
  by (rule grows_trans) (auto simp: rw_grows_def)

lemma grows_add_hdr [grow_intros]: "rw_grows w w' \<Longrightarrow> rw_grows w (add_hdr k v w')"
  by (rule grows_trans) (auto simp: rw_grows_def)

lemma grows_write_header [grow_intros]: "rw_grows w w' \<Longrightarrow> rw_grows w (write_header c w')"
  by (rule grows_trans) (auto simp: rw_grows_def)

lemma grows_write_body [grow_intros]: "rw_grows w w' \<Longrightarrow> rw_grows w (write_body c w')"
  by (rule grows_trans) (auto simp: rw_grows_def)

lemma grows_http_error [grow_intros]: "rw_grows w w' \<Longrightarrow> rw_grows w (http_error m c w')"
  unfolding http_error_def by (intro grow_intros)

lemma grows_fold:
  assumes "\<And>x v. rw_grows v (f x v)"
  shows "rw_grows w (fold f xs w)"
  by (induction xs arbitrary: w) (auto intro: grows_trans [OF assms])

lemma grows_set_headers [grow_intros]: "rw_grows w w' \<Longrightarrow> rw_grows w (set_headers hs w')"
  unfolding set_headers_def
  by (rule grows_trans, assumption, rule grows_fold) (auto intro: grow_intros)

lemma grows_trace_Write [grow_intros]: "rw_grows w w' \<Longrightarrow> rw_grows w (trace_Write t w')"
  by (simp add: trace_Write_def grow_intros)

lemma grows_errors_Write [grow_intros]: "rw_grows w w' \<Longrightarrow> rw_grows w (errors_Write s m e mt t w')"
  unfolding errors_Write_def writeProtoError_def writeJsonError_def
  by (auto simp: Let_def split: prod.split option.split intro!: grow_intros)

locale http_handler =
  fixes h :: handler
  assumes grows: "rw_grows w (fst (h r w))"
begin

text \<open>A response that has been sent is not changed by a handler that runs after it, other than by
  bytes at its end.\<close>

lemma sent_stays:
  assumes "rw_Status w = Some c"
  shows "rw_Status (fst (h r w)) = Some c" and "rw_Sent (fst (h r w)) = rw_Sent w"
    and "\<exists>cs. rw_Body (fst (h r w)) = rw_Body w @ cs"
  using grows [of w r] assms by (auto simp: rw_grows_def)

lemma no_body_without_status:
  assumes "rw_Status (fst (h r w)) = None"
  shows "rw_Body (fst (h r w)) = rw_Body w" and "rw_Status w = None"
proof -
  show "rw_Status w = None" using grows [of w r] assms by (auto simp: rw_grows_def)
  from grows [of w r] assms show "rw_Body (fst (h r w)) = rw_Body w" by (auto simp: rw_grows_def)
qed

end

text \<open>A decorator of a handler: it keeps the contract when the handler it decorates keeps it.\<close>

locale http_middleware =
  fixes m :: "handler \<Rightarrow> handler"
  assumes keeps: "(\<And>r w. rw_grows w (fst (h r w))) \<Longrightarrow> rw_grows w (fst (m h r w))"
begin

lemma wraps:
  assumes "http_handler h"
  shows "http_handler (m h)"
proof
  show "rw_grows w (fst (m h r w))" for r w
    by (rule keeps) (rule http_handler.grows [OF assms])
qed

end

end
