(* ===== verification/Pinning.thy ===== *)
theory Pinning
  imports Router Http_Handler
begin

text \<open>
  The interface \<open>controlplane.Router\<close> the handlers use, and the part of \<open>src/handler/handler.go\<close> that
  pins clients to a region with it: \<open>pinRequestToHostname\<close>, \<open>maybePinRequestToHostname\<close> and
  \<open>regionPinning\<close>.

  A \<open>router_if\<close> is a record of operations over a state \<open>'r\<close>. The router holds a pointer to the request
  the handler works on, so the state gives the request (\<open>ri_request\<close>) and takes over changes of it
  (\<open>ri_update\<close>). The locale \<open>router_contract\<close> states what pinning relies on; the router of the control
  plane over the extractor keeps it. The configuration is the one loaded at the time of the calls.
\<close>

record 'r router_if =
  ri_Route :: "(nat \<Rightarrow> f32) \<Rightarrow> 'r \<Rightarrow> rule option \<times> 'r"
  ri_GetHobMode :: "'r \<Rightarrow> string \<times> 'r"
  ri_SetHob :: "string \<Rightarrow> 'r \<Rightarrow> 'r"
  ri_Region :: "'r \<Rightarrow> (region option \<times> int) \<times> 'r"
  ri_CorrectHostname :: "header \<Rightarrow> 'r \<Rightarrow> hostname_check \<times> 'r"
  ri_request :: "'r \<Rightarrow> request"
  ri_update :: "request \<Rightarrow> 'r \<Rightarrow> 'r"

definition rule_router ::
    "(string \<Rightarrow> string option) \<Rightarrow> (string, header_extractor) gomap \<Rightarrow> cp_config \<Rightarrow> extractor router_if" where
  "rule_router mime hx cfg =
     (let I = request_extractor mime hx in
      \<lparr>ri_Route = Route I cfg, ri_GetHobMode = GetHobMode I cfg, ri_SetHob = ei_SetHob I,
       ri_Region = Router_Region I cfg, ri_CorrectHostname = CorrectHostname I cfg,
       ri_request = ex_req, ri_update = (\<lambda>r e. e\<lparr>ex_req := r\<rparr>)\<rparr>)"

section \<open>Pinning\<close>

definition endpoint_header :: "string \<Rightarrow> string" where
  "endpoint_header k = ''X-H-ENDPOINT-'' @ to_upper (replace_c CHR ''_'' CHR ''-'' k)"

definition pinRequestToHostname :: "int \<Rightarrow> urls option \<Rightarrow> rwriter \<Rightarrow> rwriter" where
  "pinRequestToHostname version urls w =
     fold (\<lambda>(k, v). set_hdr (endpoint_header k) v) (case urls of None \<Rightarrow> [] | Some u \<Rightarrow> u)
       (set_hdr ''X-H-ENDPOINT-TIMESTAMP'' (show_int version) w)"

definition maybePinRequestToHostname :: "'r router_if \<Rightarrow> 'r \<Rightarrow> rwriter \<Rightarrow> rwriter \<times> 'r" where
  "maybePinRequestToHostname R r w =
     (case ri_CorrectHostname R (rw_Header w) r of (c, r') \<Rightarrow>
        (if hc_err c = None \<and> \<not> hc_correct c then pinRequestToHostname (hc_version c) (hc_urls c) w else w, r'))"

definition regionPinning :: "'r router_if \<Rightarrow> 'r \<Rightarrow> rwriter \<Rightarrow> rwriter \<times> 'r" where
  "regionPinning R r w =
     (let hob = get_hdr w ''X-H-Hob'' in
      if hob = '''' \<and> get_hdr w ''X-H-Endpoint-Timestamp'' \<noteq> '''' then (w, r)
      else if hob \<noteq> '''' \<and> get_hdr w ''X-H-Pinning'' = ''1'' then
        (case ri_CorrectHostname R (rw_Header w) (ri_SetHob R hob r) of (c, r') \<Rightarrow>
           (if hc_err c = None then pinRequestToHostname (hc_version c) (hc_urls c) w else w, r'))
      else (w, r))"

lemma grows_pin [grow_intros]: "rw_grows w w' \<Longrightarrow> rw_grows w (pinRequestToHostname v u w')"
  unfolding pinRequestToHostname_def
  by (rule grows_trans [OF grows_set_hdr]) (auto intro!: grows_fold grow_intros)

lemma grows_maybePin: "rw_grows w (fst (maybePinRequestToHostname R r w))"
  by (auto simp: maybePinRequestToHostname_def split: prod.split intro!: grow_intros)

lemma grows_regionPinning: "rw_grows w (fst (regionPinning R r w))"
  by (auto simp: regionPinning_def Let_def split: prod.split intro!: grow_intros)

section \<open>The contract\<close>

text \<open>\<open>ready\<close> is what a router has become after its first use, \<open>pin\<close> the URLs and the version announced
  for a hob.\<close>

locale router_contract =
  fixes R :: "'r router_if" and ready :: "'r \<Rightarrow> bool"
    and pin :: "string \<Rightarrow> 'r \<Rightarrow> (urls option \<times> int) option"
  assumes first_use: "ri_CorrectHostname R h r = (c, r') \<Longrightarrow> ready r'"
    and set_hob_law: "ready r \<Longrightarrow> hob \<noteq> '''' \<Longrightarrow> ri_CorrectHostname R h (ri_SetHob R hob r) = (c, r') \<Longrightarrow>
      (case pin hob r of None \<Rightarrow> hc_err c \<noteq> None
       | Some (u, v) \<Rightarrow> hc_err c = None \<and> hc_urls c = u \<and> hc_version c = v)"
begin

text \<open>A backend that names a hob and asks for pinning gets the client pinned to the region of that hob,
  whatever the request said.\<close>

lemma regionPinning_law:
  assumes "ready r" and "get_hdr w ''X-H-Hob'' \<noteq> ''''" and "get_hdr w ''X-H-Pinning'' = ''1''"
  shows "fst (regionPinning R r w) =
    (case pin (get_hdr w ''X-H-Hob'') r of None \<Rightarrow> w | Some (u, v) \<Rightarrow> pinRequestToHostname v u w)"
proof -
  obtain c r' where c: "ri_CorrectHostname R (rw_Header w) (ri_SetHob R (get_hdr w ''X-H-Hob'') r) = (c, r')"
    by (cases "ri_CorrectHostname R (rw_Header w) (ri_SetHob R (get_hdr w ''X-H-Hob'') r)")
  from set_hob_law [OF assms(1,2) c] assms(2,3) c show ?thesis
    by (auto simp: regionPinning_def Let_def split: option.splits)
qed

lemma regionPinning_off:
  assumes "get_hdr w ''X-H-Hob'' = '''' \<or> get_hdr w ''X-H-Pinning'' \<noteq> ''1''"
  shows "regionPinning R r w = (w, r)"
  using assms by (auto simp: regionPinning_def Let_def)

end

definition region_pin :: "cp_config \<Rightarrow> string \<Rightarrow> extractor \<Rightarrow> (urls option \<times> int) option" where
  "region_pin cfg hob e =
     map_option (\<lambda>g. (Region_Urls g (request_source (ex_req e)), cf_version cfg)) (select_region cfg hob)"

interpretation rr: router_contract "rule_router mime hx cfg" "\<lambda>e. ex_values e \<noteq> None" "region_pin cfg"
  for mime hx cfg
proof
  let ?I = "request_extractor mime hx"
  have hob_settles: "ex_values (snd (ex_Hob mime hx e)) \<noteq> None" for e
  proof -
    obtain m where m: "ex_values (settle mime hx e) = Some m" using settle_frame(6) by blast
    then show ?thesis by (auto simp: ex_Hob_eq Let_def ex_SetHob_settled [OF m] split: option.splits)
  qed
  have src_settles: "ex_values (snd (ex_Source mime hx e)) \<noteq> None" for e
    by (simp add: ex_Source_def Let_def)
  fix h e c e'
  assume "ri_CorrectHostname (rule_router mime hx cfg) h e = (c, e')"
  then have "snd (CorrectHostname ?I cfg h e) = e'" by (simp add: rule_router_def Let_def)
  then show "ex_values e' \<noteq> None"
    using hob_settles src_settles
    by (auto simp: CorrectHostname_def Router_Region_def request_extractor_def Let_def
        split: prod.splits if_splits option.splits) (metis snd_conv)+
next
  let ?I = "request_extractor mime hx"
  fix e hob h c e'
  assume "ex_values e \<noteq> None" and hob: "hob \<noteq> ''''"
    and c: "ri_CorrectHostname (rule_router mime hx cfg) h (ri_SetHob (rule_router mime hx cfg) hob e) = (c, e')"
  then obtain m where m: "ex_values e = Some m" by blast
  let ?e = "ex_SetHob mime hx hob e"
  have s: "settle mime hx ?e = ?e" by (rule settle_done) (simp add: ex_SetHob_settled [OF m])
  have v: "rv_hob (request_view mime hx ?e) = hob" "rv_source (request_view mime hx ?e) = request_source (ex_req e)"
    using hob by (simp_all add: request_view_def s Let_def request_hob_def ex_SetHob_get m)
      (simp add: ex_SetHob_settled [OF m] request_source_def)
  have "c = fst (CorrectHostname ?I cfg h ?e)"
    using c by (simp add: rule_router_def request_extractor_def Let_def)
  then show "case region_pin cfg hob e of None \<Rightarrow> hc_err c \<noteq> None
      | Some (u, v) \<Rightarrow> hc_err c = None \<and> hc_urls c = u \<and> hc_version c = v"
    using hob by (simp add: CorrectHostname_eq v Let_def region_pin_def split: option.split)
qed

section \<open>Properties\<close>

text \<open>A backend that knows the city only after the call (a login, say) names it in \<open>X-H-Hob\<close> and asks
  for pinning: once the router has been used for the request, the client is then pinned to the region of
  that hob, with the configuration's version; without a region the answer stays as it is.\<close>

theorem backend_hob_pins:
  assumes "ex_values e \<noteq> None" and "get_hdr w ''X-H-Hob'' \<noteq> ''''" and "get_hdr w ''X-H-Pinning'' = ''1''"
  shows "fst (regionPinning (rule_router mime hx cfg) e w) =
    (case select_region cfg (get_hdr w ''X-H-Hob'') of
       None \<Rightarrow> w
     | Some g \<Rightarrow> pinRequestToHostname (cf_version cfg) (Region_Urls g (request_source (ex_req e))) w)"
  using rr.regionPinning_law [OF assms, of mime hx cfg]
  by (simp add: region_pin_def split: option.splits)

definition pinned_writer :: "string \<Rightarrow> rwriter" where
  "pinned_writer hob = set_hdr ''X-H-Pinning'' ''1'' (set_hdr ''X-H-Hob'' hob new_rwriter)"

theorem backend_hob_pins_witness:
  "get_hdr (fst (regionPinning (rule_router test_mime headerExtractors test_config)
      (settle test_mime headerExtractors (newExtractor plain_request)) (pinned_writer ''NYC''))) ''X-H-ENDPOINT-API''
     = ''api.eu.elasticride.com''"
proof -
  have w: "get_hdr (pinned_writer ''NYC'') ''X-H-Hob'' = ''NYC''" "get_hdr (pinned_writer ''NYC'') ''X-H-Pinning'' = ''1''"
    by code_simp+
  have g: "map_option (\<lambda>g. pinRequestToHostname (cf_version test_config) (Region_Urls g
        (request_source (ex_req (settle test_mime headerExtractors (newExtractor plain_request))))) (pinned_writer ''NYC''))
      (select_region test_config ''NYC'') =
    Some (pinRequestToHostname 7 (Some [(''api'', ''api.eu.elasticride.com'')]) (pinned_writer ''NYC''))"
    by code_simp
  have p: "get_hdr (pinRequestToHostname 7 (Some [(''api'', ''api.eu.elasticride.com'')]) (pinned_writer ''NYC''))
      ''X-H-ENDPOINT-API'' = ''api.eu.elasticride.com''" by code_simp
  show ?thesis
    using backend_hob_pins [of "settle test_mime headerExtractors (newExtractor plain_request)" "pinned_writer ''NYC''"
        test_mime headerExtractors test_config] w g p
    by (auto split: option.splits)
qed

end
