(* ===== verification/Middleware.thy ===== *)
theory Middleware
  imports Http_Handler Rules
begin

text \<open>
  The small handlers of \<open>src/handler\<close>: \<open>realip.go\<close> (the client's address behind proxies),
  \<open>pcifilter.go\<close> (requests with card data are turned away), \<open>throttle.go\<close> and \<open>deprecate.go\<close> (the canned
  answers of a rule) and \<open>common.go\<close> (the hob of a request and metric names, for instrumentation).

  \<open>url.Parse\<close> on the proxy URL of the configuration is the argument \<open>parse_url\<close>, and the reverse proxy
  to it a handler.
\<close>

section \<open>net.SplitHostPort and net.JoinHostPort\<close>

definition SplitHostPort :: "string \<Rightarrow> (string \<times> string) option" where
  "SplitHostPort hp =
     (case last_index CHR '':'' hp of
        None \<Rightarrow> None
      | Some i \<Rightarrow>
          (let port = drop (Suc i) hp in
           if hp ! 0 = CHR ''['' then
             (case str_index hp '']'' of
                None \<Rightarrow> None
              | Some e \<Rightarrow>
                  if e + 1 \<noteq> i then None
                  else if CHR ''['' \<in> set (drop 1 hp) \<or> CHR '']'' \<in> set (drop (e + 1) hp) then None
                  else Some (drop 1 (take e hp), port))
           else if CHR '':'' \<in> set (take i hp) then None
           else if CHR ''['' \<in> set hp \<or> CHR '']'' \<in> set hp then None
           else Some (take i hp, port)))"

definition JoinHostPort :: "string \<Rightarrow> string \<Rightarrow> string" where
  "JoinHostPort host port =
     (if CHR '':'' \<in> set host then ''['' @ host @ '']:'' @ port else host @ '':'' @ port)"

section \<open>realip.go\<close>

definition RealIPHandler :: "handler \<Rightarrow> handler" where
  "RealIPHandler h r w =
     (let addr = header_get (rq_Header r) ''X-Forwarded-For'' in
      if addr \<noteq> '''' then
        (let host = split_n2 addr '', '' ! 0;
             fport = header_get (rq_Header r) ''X-Forwarded-Port''
         in if fport = '''' then
              (case SplitHostPort (rq_RemoteAddr r) of
                 None \<Rightarrow> h r w
               | Some (_, port) \<Rightarrow> h (r\<lparr>rq_RemoteAddr := JoinHostPort host port\<rparr>) w)
            else h (r\<lparr>rq_RemoteAddr := JoinHostPort host fport\<rparr>) w)
      else h r w)"

interpretation realip: http_middleware RealIPHandler
  by unfold_locales (auto simp: RealIPHandler_def Let_def split: option.split)

section \<open>pcifilter.go\<close>

record 'u pci_filter =
  pf_sensitivePaths :: "string list"
  pf_currentProxyURL :: "'u option"
  pf_proxy :: "'u option"

definition PCI_IsSensitiveRequest :: "'u pci_filter \<Rightarrow> request \<Rightarrow> bool" where
  "PCI_IsSensitiveRequest f r \<longleftrightarrow>
     rq_Method r @ '' '' @ rq_Path r \<in> set (pf_sensitivePaths f) \<and>
     header_get (rq_Header r) ''X-Encrypted'' \<noteq> ''true''"

definition PCIFilter :: "'u pci_filter \<Rightarrow> handler \<Rightarrow> handler" where
  "PCIFilter f h r w =
     (if PCI_IsSensitiveRequest f r then
        (http_error ''Sensitive requests should be sent to the secure API'' 400 w, [])
      else h r w)"

interpretation pci: http_middleware "PCIFilter f" for f
  by unfold_locales (auto simp: PCIFilter_def intro: grow_intros)

text \<open>\<open>loadConfig\<close> compares pointers: two parsed URLs are never the same pointer, only nil equals nil.
  The debug message prints the new URL, and a nil one cannot be printed.\<close>

definition PCI_loadConfig ::
    "(string \<Rightarrow> 'u option) \<Rightarrow> string \<Rightarrow> string list \<Rightarrow> 'u pci_filter \<Rightarrow> panic + 'u pci_filter" where
  "PCI_loadConfig parse_url url paths f =
     (let parsed = parse_url url;
          switched = (if parsed = None \<and> pf_currentProxyURL f = None then Inr f
                      else (case parsed of
                              None \<Rightarrow> Inl NilDeref
                            | Some u \<Rightarrow> Inr (f\<lparr>pf_proxy := Some u, pf_currentProxyURL := Some u\<rparr>)))
      in (case switched of Inl e \<Rightarrow> Inl e | Inr f' \<Rightarrow> Inr (f'\<lparr>pf_sensitivePaths := paths\<rparr>)))"

definition NewPCIFilter :: "(string \<Rightarrow> 'u option) \<Rightarrow> string \<Rightarrow> string list \<Rightarrow> panic + 'u pci_filter" where
  "NewPCIFilter parse_url url paths =
     PCI_loadConfig parse_url url paths
       \<lparr>pf_sensitivePaths = [], pf_currentProxyURL = None, pf_proxy = None\<rparr>"

definition PCI_Forward :: "('u \<Rightarrow> handler) \<Rightarrow> 'u pci_filter \<Rightarrow> request \<Rightarrow> rwriter \<Rightarrow> panic + rwriter \<times> event list" where
  "PCI_Forward proxy_to f r w =
     (case (pf_currentProxyURL f, pf_proxy f) of
        (Some _, Some u) \<Rightarrow> Inr (proxy_to u r w)
      | _ \<Rightarrow> Inl NilDeref)"

fun PCI_listenConfig ::
    "(string \<Rightarrow> 'u option) \<Rightarrow> (string \<times> string list) list \<Rightarrow> 'u pci_filter \<Rightarrow> panic + 'u pci_filter" where
  "PCI_listenConfig parse_url [] f = Inr f"
| "PCI_listenConfig parse_url ((url, paths) # cs) f =
     (case PCI_loadConfig parse_url url paths f of Inl e \<Rightarrow> Inl e | Inr f' \<Rightarrow> PCI_listenConfig parse_url cs f')"

section \<open>throttle.go and deprecate.go\<close>

definition throttlePayload :: string where
  "throttlePayload = ''{\"status\":false,\"payload\":\"Throttled request\",\"code\":11}''"

definition deprecatePayload :: string where
  "deprecatePayload = ''{\"status\":false,\"payload\":\"Deprecated\",\"code\":11}''"

text \<open>The two handlers differ in the counter, the status and the body they use when the rule has no
  payload; \<open>for k, v := range Headers\<close> adds the headers in the order of the list.\<close>

definition add_headers :: "(string, string) gomap \<Rightarrow> rwriter \<Rightarrow> rwriter" where
  "add_headers hs w = fold (\<lambda>(k, v). add_hdr k v) hs w"

definition throttleHandler :: "rule \<Rightarrow> handler" where
  "throttleHandler rule r w =
     ((case r_Payload rule of
         None \<Rightarrow> write_body (Bytes throttlePayload) (write_header 503 w)
       | Some p \<Rightarrow> write_body (Bytes (pl_Body p))
           (write_header (pl_HttpStatus p) (add_headers (pl_Headers p) w))),
      [InstCounter ''handler.throttle''])"

definition deprecateHandler :: "rule \<Rightarrow> handler" where
  "deprecateHandler rule r w =
     ((case r_Payload rule of
         None \<Rightarrow> write_body (Bytes deprecatePayload) (write_header 410 w)
       | Some p \<Rightarrow> write_body (Bytes (pl_Body p))
           (write_header (pl_HttpStatus p) (add_headers (pl_Headers p) w))),
      [InstCounter ''handler.deprecate''])"

lemma grows_add_headers [grow_intros]: "rw_grows w w' \<Longrightarrow> rw_grows w (add_headers hs w')"
  unfolding add_headers_def
  by (rule grows_trans, assumption, rule grows_fold) (auto intro: grow_intros)

interpretation throttle: http_handler "throttleHandler rule" for rule
  by unfold_locales (auto simp: throttleHandler_def split: option.split intro!: grow_intros)

interpretation deprecate: http_handler "deprecateHandler rule" for rule
  by unfold_locales (auto simp: deprecateHandler_def split: option.split intro!: grow_intros)

section \<open>common.go\<close>

text \<open>The loop over the query, whose values are visited in the order of the list; every key has a value.\<close>

definition hob_step :: "string \<times> string list \<Rightarrow> string \<Rightarrow> string" where
  "hob_step kv hobCode =
     (case kv of (k, vs) \<Rightarrow>
        if k = ''hob'' then vs ! 0
        else if k = ''city'' then
          (if length (vs ! 0) \<ge> 3 \<and> length hobCode < 3 then vs ! 0 else hobCode)
        else hobCode)"

definition extractHobFromRequest :: "url_values \<Rightarrow> string" where
  "extractHobFromRequest q = fold hob_step q ''''"

definition instrumentHob :: "url_values \<Rightarrow> string \<Rightarrow> event list" where
  "instrumentHob q hobCode =
     [InstCounter (''hob.'' @ (if hobCode \<noteq> '''' then hobCode else extractHobFromRequest q))]"

text \<open>The length of the first code point in UTF-8, 1 for a byte that does not begin one.\<close>

definition byte_in :: "nat \<Rightarrow> nat \<Rightarrow> char \<Rightarrow> bool" where
  "byte_in a b c \<longleftrightarrow> a \<le> of_char c \<and> of_char c \<le> b"

definition rune_len :: "string \<Rightarrow> nat" where
  "rune_len s =
     (case s of
        a # b # c # d # _ \<Rightarrow>
          if (byte_in 240 240 a \<and> byte_in 144 191 b \<or> byte_in 241 243 a \<and> byte_in 128 191 b \<or>
              byte_in 244 244 a \<and> byte_in 128 143 b) \<and> byte_in 128 191 c \<and> byte_in 128 191 d then 4
          else if (byte_in 224 224 a \<and> byte_in 160 191 b \<or> byte_in 225 236 a \<and> byte_in 128 191 b \<or>
              byte_in 237 237 a \<and> byte_in 128 159 b \<or> byte_in 238 239 a \<and> byte_in 128 191 b) \<and> byte_in 128 191 c then 3
          else if byte_in 194 223 a \<and> byte_in 128 191 b then 2 else 1
      | a # b # c # _ \<Rightarrow>
          if (byte_in 224 224 a \<and> byte_in 160 191 b \<or> byte_in 225 236 a \<and> byte_in 128 191 b \<or>
              byte_in 237 237 a \<and> byte_in 128 159 b \<or> byte_in 238 239 a \<and> byte_in 128 191 b) \<and> byte_in 128 191 c then 3
          else if byte_in 194 223 a \<and> byte_in 128 191 b then 2 else 1
      | a # b # _ \<Rightarrow> if byte_in 194 223 a \<and> byte_in 128 191 b then 2 else 1
      | _ \<Rightarrow> 1)"

lemma rune_len_pos [simp]: "0 < rune_len s"
  by (simp add: rune_len_def split: list.split)

text \<open>\<open>sanitizeKey\<close>: one underscore for every code point that is not an ASCII letter or digit.\<close>

function sanitizeKey :: "string \<Rightarrow> string" where
  "sanitizeKey [] = []"
| "sanitizeKey (c # s) =
     (if is_alnum c then to_lower_c c # sanitizeKey s
      else CHR ''_'' # sanitizeKey (drop (rune_len (c # s)) (c # s)))"
  by pat_completeness auto
termination
  by (relation "measure length") auto

section \<open>Lemmas\<close>

lemma last_index_take: "last_index sep s = Some i \<Longrightarrow> s = take i s @ sep # drop (Suc i) s \<and> sep \<notin> set (drop (Suc i) s)"
proof (induction s arbitrary: i)
  case (Cons c s)
  then show ?case
    by (auto split: option.splits if_splits simp: last_index_None)
qed simp

lemma str_index_single: "c \<notin> set a \<Longrightarrow> str_index (a @ c # b) [c] = Some (length a)"
  by (induction a) (auto simp: has_prefix_def)

lemma split_n2_first:
  assumes "\<not> str_contains a sep" and "sep = CHR '','' # CHR '' '' # []"
  shows "split_n2 (a @ sep @ b) sep = [a, b]"
proof -
  have "str_index (a @ sep @ b) sep = Some (length a)"
    using assms
  proof (induction a)
    case Nil
    then show ?case by (simp add: has_prefix_def)
  next
    case (Cons c a)
    then have "\<not> str_contains a sep" and "\<not> has_prefix (c # a) sep"
      unfolding str_contains_def by (auto split: if_splits)
    moreover have "has_prefix (c # a @ sep @ b) sep \<Longrightarrow> has_prefix (c # a) sep \<or> a = []"
      using Cons.prems(2) by (cases a) (auto simp: has_prefix_def)
    ultimately show ?case using Cons by (auto simp: has_prefix_def)
  qed
  then show ?thesis by (simp add: split_n2_def)
qed

lemma lower_alnum: "is_alnum c \<Longrightarrow> is_alnum (to_lower_c c) \<and> to_lower_c (to_lower_c c) = to_lower_c c"
  by (auto simp: is_alnum_def to_lower_c_def less_eq_char_def)

text \<open>The hob found, by what the query holds under the two names and the order of the two.\<close>

lemma fold_hob_step_other:
  "''hob'' \<notin> fst ` set q \<Longrightarrow> ''city'' \<notin> fst ` set q \<Longrightarrow> fold hob_step q h = h"
  by (induction q) (auto simp: hob_step_def)

lemma split_at_key:
  assumes "wf_map q" and "map_of q k = Some v"
  shows "\<exists>a b. q = a @ (k, v) # b \<and> k \<notin> fst ` set a \<and> k \<notin> fst ` set b"
proof -
  from assms(2) obtain a b where "q = a @ (k, v) # b" by (meson map_of_SomeD split_list)
  with assms(1) show ?thesis by auto
qed

section \<open>Properties\<close>

text \<open>Behind a proxy the handlers see the address of the first entry of \<open>X-Forwarded-For\<close> with the
  forwarded port, in a form that \<open>net.SplitHostPort\<close> takes apart again.\<close>

theorem realip_client:
  assumes "header_get (rq_Header r) ''X-Forwarded-For'' = a @ '', '' @ rest" and "\<not> str_contains a '', ''"
    and "header_get (rq_Header r) ''X-Forwarded-Port'' = port" and "port \<noteq> ''''"
    and "CHR ''['' \<notin> set a \<union> set port" and "CHR '']'' \<notin> set a \<union> set port" and "CHR '':'' \<notin> set port"
  shows "\<exists>r'. RealIPHandler h r w = h r' w \<and> r' = r\<lparr>rq_RemoteAddr := rq_RemoteAddr r'\<rparr> \<and>
    SplitHostPort (rq_RemoteAddr r') = Some (a, port)"
proof -
  have s: "split_n2 (a @ '', '' @ rest) '', '' = [a, rest]" using split_n2_first [OF assms(2)] by simp
  let ?hp = "JoinHostPort a port"
  have "RealIPHandler h r w = h (r\<lparr>rq_RemoteAddr := ?hp\<rparr>) w"
    using s assms by (simp add: RealIPHandler_def Let_def)
  moreover have "SplitHostPort ?hp = Some (a, port)"
  proof (cases "CHR '':'' \<in> set a")
    case True
    have l: "last_index CHR '':'' (''['' @ a @ '']:'' @ port) = Some (length a + 2)"
      using last_index_append [OF assms(7), of "''['' @ a @ '']''"] by simp
    have i: "str_index (''['' @ a @ '']:'' @ port) '']'' = Some (length a + 1)"
      using str_index_single [of "CHR '']''" "''['' @ a" "'':'' @ port"] assms(6) by simp
    show ?thesis using True assms(5,6) l i by (simp add: JoinHostPort_def SplitHostPort_def)
  next
    case False
    have l: "last_index CHR '':'' (a @ '':'' @ port) = Some (length a)"
      using last_index_append [OF assms(7), of a] by simp
    have "(a @ '':'' @ port) ! 0 \<noteq> CHR ''[''" using assms(5) by (cases a) auto
    then show ?thesis using False assms(5,6) l by (simp add: JoinHostPort_def SplitHostPort_def)
  qed
  ultimately show ?thesis by (intro exI [of _ "r\<lparr>rq_RemoteAddr := ?hp\<rparr>"]) simp
qed

theorem realip_client_witness:
  "\<exists>r' :: request. RealIPHandler (\<lambda>r w. (w, [InstCounter (rq_RemoteAddr r)]))
      (traced_request\<lparr>rq_Header := [(''X-Forwarded-For'', [''2001:db8::7, 10.0.0.1'']),
         (''X-Forwarded-Port'', [''443''])]\<rparr>) new_rwriter = (new_rwriter, [InstCounter (rq_RemoteAddr r')]) \<and>
     SplitHostPort (rq_RemoteAddr r') = Some (''2001:db8::7'', ''443'')"
proof -
  let ?r = "traced_request\<lparr>rq_Header := [(''X-Forwarded-For'', [''2001:db8::7, 10.0.0.1'']),
      (''X-Forwarded-Port'', [''443''])]\<rparr>"
  have r: "header_get (rq_Header ?r) ''X-Forwarded-For'' = ''2001:db8::7'' @ '', '' @ ''10.0.0.1''"
    "\<not> str_contains ''2001:db8::7'' '', ''" "header_get (rq_Header ?r) ''X-Forwarded-Port'' = ''443''"
    by code_simp+
  have "\<exists>r'. RealIPHandler (\<lambda>r w. (w, [InstCounter (rq_RemoteAddr r)])) ?r new_rwriter =
      (new_rwriter, [InstCounter (rq_RemoteAddr r')]) \<and> r' = ?r\<lparr>rq_RemoteAddr := rq_RemoteAddr r'\<rparr> \<and>
      SplitHostPort (rq_RemoteAddr r') = Some (''2001:db8::7'', ''443'')"
    by (rule realip_client [OF r]) simp_all
  then show ?thesis by blast
qed

text \<open>Requests with card data that are not encrypted never get past the filter: for a listed method
  and path without the header \<open>X-Encrypted: true\<close> the answer is 400 whatever handler is behind, which
  is not called.\<close>

theorem pci_blocks:
  assumes "rq_Method r @ '' '' @ rq_Path r \<in> set (pf_sensitivePaths f)"
    and "header_get (rq_Header r) ''X-Encrypted'' \<noteq> ''true''" and "rw_Status w = None"
  shows "PCIFilter f h r w = PCIFilter f h' r w \<and> rw_Status (fst (PCIFilter f h r w)) = Some 400 \<and>
    snd (PCIFilter f h r w) = []"
  using assms by (simp add: PCIFilter_def PCI_IsSensitiveRequest_def http_error_def)

definition test_pci :: "string pci_filter" where
  "test_pci = \<lparr>pf_sensitivePaths = [''POST /v1/customer/card''], pf_currentProxyURL = Some ''https://p'',
     pf_proxy = Some ''https://p''\<rparr>"

definition card_request :: request where
  "card_request = traced_request\<lparr>rq_Method := ''POST'', rq_Path := ''/v1/customer/card''\<rparr>"

theorem pci_blocks_witness:
  "rw_Status (fst (PCIFilter test_pci (\<lambda>r w. (w, [])) card_request new_rwriter)) = Some 400"
proof -
  have "header_get (rq_Header card_request) ''X-Encrypted'' \<noteq> ''true''" by code_simp
  then show ?thesis
    using pci_blocks [of card_request test_pci new_rwriter]
    by (simp add: test_pci_def card_request_def new_rwriter_def)
qed

text \<open>A proxy URL that does not parse brings the process down once a good one has been loaded:
  \<open>loadConfig\<close> prints the new URL, which is nil then. The paths are not reloaded. At the start, and as
  long as no URL has ever parsed, it goes unnoticed.\<close>

theorem pci_bad_url:
  assumes "parse_url url = None"
  shows "PCI_loadConfig parse_url url paths f =
    (if pf_currentProxyURL f = None then Inr (f\<lparr>pf_sensitivePaths := paths\<rparr>) else Inl NilDeref)"
  using assms by (simp add: PCI_loadConfig_def Let_def)

theorem pci_bad_url_witness:
  "PCI_listenConfig (\<lambda>u. if u = ''%zz'' then None else Some u) [(''%zz'', [])] test_pci = Inl NilDeref"
  using pci_bad_url [of "\<lambda>u. if u = ''%zz'' then None else Some u" "''%zz''" "[]" test_pci]
  by (simp add: test_pci_def)

text \<open>The hob used for the metrics depends on Go's iteration order when the query has a \<open>hob\<close> shorter
  than three characters and a \<open>city\<close> of three or more: the one visited last wins. In every other case
  it does not.\<close>

theorem metric_hob_order:
  assumes "wf_map q" and "map_of q ''hob'' = Some (h # hs)" and "map_of q ''city'' = Some (c # cs)"
  shows "(3 \<le> length h \<or> length c < 3 \<longrightarrow> extractHobFromRequest q = h) \<and>
    (length h < 3 \<and> 3 \<le> length c \<longrightarrow>
      (\<forall>a b d. q = a @ (''hob'', h # hs) # b @ (''city'', c # cs) # d \<longrightarrow> extractHobFromRequest q = c) \<and>
      (\<forall>a b d. q = a @ (''city'', c # cs) # b @ (''hob'', h # hs) # d \<longrightarrow> extractHobFromRequest q = h))"
proof -
  have first: "extractHobFromRequest q = (if 3 \<le> length c \<and> length h < 3 then c else h)"
    if q: "q = a @ (''hob'', h # hs) # b @ (''city'', c # cs) # d" for a b d
  proof -
    have o: "fold hob_step a x = x" "fold hob_step b x = x" "fold hob_step d x = x" for x
      using assms(1) by (auto simp: q intro!: fold_hob_step_other)
    show ?thesis by (simp add: extractHobFromRequest_def q o) (simp add: hob_step_def)
  qed
  have second: "extractHobFromRequest q = h" if q: "q = a @ (''city'', c # cs) # b @ (''hob'', h # hs) # d" for a b d
  proof -
    have o: "fold hob_step a x = x" "fold hob_step b x = x" "fold hob_step d x = x" for x
      using assms(1) by (auto simp: q intro!: fold_hob_step_other)
    show ?thesis by (simp add: extractHobFromRequest_def q o) (simp add: hob_step_def)
  qed
  obtain a b where q: "q = a @ (''hob'', h # hs) # b" using split_at_key [OF assms(1,2)] by blast
  have "(''city'', c # cs) \<in> set q" using assms(3) by (rule map_of_SomeD)
  then have "(''city'', c # cs) \<in> set (a @ b)" unfolding q by simp
  then have "(''city'', c # cs) \<in> set a \<or> (''city'', c # cs) \<in> set b" by simp
  then have "3 \<le> length h \<or> length c < 3 \<longrightarrow> extractHobFromRequest q = h"
  proof
    assume "(''city'', c # cs) \<in> set a"
    then obtain a1 a2 where "a = a1 @ (''city'', c # cs) # a2" by (meson split_list)
    with q second [of a1 a2 b] show ?thesis by simp
  next
    assume "(''city'', c # cs) \<in> set b"
    then obtain b1 b2 where "b = b1 @ (''city'', c # cs) # b2" by (meson split_list)
    with q have "q = a @ (''hob'', h # hs) # b1 @ (''city'', c # cs) # b2" by simp
    from first [OF this] show ?thesis by auto
  qed
  moreover have "extractHobFromRequest q = c"
    if "length h < 3 \<and> 3 \<le> length c" "q = a @ (''hob'', h # hs) # b @ (''city'', c # cs) # d" for a b d
    using first [OF that(2)] that(1) by simp
  ultimately show ?thesis using second by blast
qed

theorem metric_hob_order_witness:
  "extractHobFromRequest [(''hob'', [''LO'']), (''city'', [''DUB''])] = ''DUB'' \<and>
   extractHobFromRequest [(''city'', [''DUB'']), (''hob'', [''LO''])] = ''LO''"
proof -
  have "extractHobFromRequest ([] @ (''hob'', [''LO'']) # [] @ (''city'', [''DUB'']) # []) = ''DUB''"
    using metric_hob_order [of "[] @ (''hob'', [''LO'']) # [] @ (''city'', [''DUB'']) # []" "''LO''" "[]" "''DUB''" "[]"]
    by fastforce
  moreover have "extractHobFromRequest ([] @ (''city'', [''DUB'']) # [] @ (''hob'', [''LO'']) # []) = ''LO''"
    using metric_hob_order [of "[] @ (''city'', [''DUB'']) # [] @ (''hob'', [''LO'']) # []" "''LO''" "[]" "''DUB''" "[]"]
    by fastforce
  ultimately show ?thesis by simp
qed

text \<open>A metric name made by \<open>sanitizeKey\<close> has lower-case letters, digits and underscores only, no
  point that would split it, and is not longer than the key.\<close>

theorem sanitized_chars:
  "list_all (\<lambda>c. c = CHR ''_'' \<or> (is_alnum c \<and> to_lower_c c = c)) (sanitizeKey s) \<and>
   length (sanitizeKey s) \<le> length s"
proof (induction s rule: sanitizeKey.induct)
  case (2 c s)
  show ?case
  proof (cases "is_alnum c")
    case True
    with 2 show ?thesis by (auto simp: lower_alnum)
  next
    case False
    let ?rest = "drop (rune_len (c # s)) (c # s)"
    have "length ?rest \<le> length s" using rune_len_pos [of "c # s"] by (simp del: rune_len_pos)
    with 2 False show ?thesis by auto
  qed
qed simp

end
