(* ===== verification/H2_Handler.thy ===== *)
theory H2_Handler
  imports Pinning Middleware
begin

text \<open>
  \<open>src/handler/marshaling.go\<close> turns an HTTP request into the message for an API service, and
  \<open>src/handler/h2.go\<close> names the service after the path, makes the call and answers.

  What the handlers take from outside is collected in a record \<open>env\<close>: the libraries of the platform
  (building and making a call, the types and HTTP codes of its errors, authorisation), the settings and
  the random choices of tracing, \<open>mime.ParseMediaType\<close>, and the order of the session headers.
\<close>

section \<open>What the handlers rely on\<close>

datatype error_kind = BadRequest | Forbidden

record env =
  en_mime :: "string \<Rightarrow> string option"
  en_hx :: "(string, header_extractor) gomap"
  en_az :: string
  en_sanitise :: bool
  en_errpb :: "api_error \<Rightarrow> string"
  en_pcChance :: rat
  en_roll :: rat
  en_uuid :: string
  en_kind :: "error_kind \<Rightarrow> string \<times> int"
  en_new_api :: "string \<Rightarrow> string \<Rightarrow> api_request \<Rightarrow> bool"
  en_call_api :: "bus_call \<Rightarrow> perror + api_response"
  en_new_rpc :: "string \<Rightarrow> string \<Rightarrow> bus_payload \<Rightarrow> string option"
  en_call_rpc :: "bus_call \<Rightarrow> perror + string"
  en_admin :: "string \<Rightarrow> bool"
  en_form_error :: "request \<Rightarrow> string"

definition platform_err :: "env \<Rightarrow> error_kind \<Rightarrow> string \<Rightarrow> string \<Rightarrow> string list \<Rightarrow> perror" where
  "platform_err E k code desc ctx = IsPlatform
     \<lparr>pe_Type = fst (en_kind E k), pe_Code = code, pe_Description = desc,
      pe_Context = (if ctx = [] then None else Some ctx), pe_HttpCode = snd (en_kind E k)\<rparr>"

definition write_error :: "env \<Rightarrow> perror \<Rightarrow> string \<Rightarrow> trace_info \<Rightarrow> rwriter \<Rightarrow> rwriter" where
  "write_error E err mimeType t w = errors_Write (en_sanitise E) (en_errpb E) err mimeType (Some t) w"

definition start_trace :: "env \<Rightarrow> request \<Rightarrow> trace_info \<times> event list" where
  "start_trace E r =
     (case trace_Start (en_pcChance E) (en_roll E) (en_uuid E) r of
        (t, ev) \<Rightarrow> (t, case ev of None \<Rightarrow> [] | Some (i, p) \<Rightarrow> [TraceSent i p]))"

section \<open>marshaling.go\<close>

text \<open>\<open>ioutil.ReadAll\<close>. A body that fails is one that fails at once, so no bytes come before the error;
  behind the router no body fails, since \<open>doExtraction\<close> has read it and left nil if that failed.\<close>

definition read_all :: "body \<Rightarrow> string \<times> body" where
  "read_all b = (case b of Body s \<Rightarrow> (s, Body '''') | _ \<Rightarrow> ('''', b))"

text \<open>One turn of the loops over the query and the form: the hob found so far and the pairs.\<close>

definition marshal_step :: "string \<times> string list \<Rightarrow> string \<times> pair list \<Rightarrow> string \<times> pair list" where
  "marshal_step kv st =
     (case (kv, st) of ((k, vs), (hobCode, ps)) \<Rightarrow>
        if k = ''session_id'' \<or> k = ''api_token'' then (hobCode, ps)
        else if k = ''hob'' then (vs ! 0, ps)
        else (if k = ''city'' \<and> length (vs ! 0) = 3 \<and> length hobCode \<noteq> 3 then vs ! 0 else hobCode,
              ps @ [new_pair k (vs ! 0)]))"

definition marshal_values :: "url_values \<Rightarrow> string \<Rightarrow> string \<times> pair list" where
  "marshal_values m hobCode = fold marshal_step m (hobCode, [])"

definition pass_header :: "string \<Rightarrow> bool" where
  "pass_header k \<longleftrightarrow> k = ''Authorization'' \<or> has_prefix k ''X-''"

definition marshal_headers :: "header \<Rightarrow> string list" where
  "marshal_headers h = map (\<lambda>(k, v). k @ '': '' @ str_join '','' v) (filter (\<lambda>(k, v). pass_header k) h)"

text \<open>\<open>httpRequestToProto\<close>: the message and the hob for the instrumentation, or an error, and the request as
  it is left.\<close>

definition fix_content_type :: "(string \<Rightarrow> string option) \<Rightarrow> request \<Rightarrow> string \<times> request" where
  "fix_content_type mime r =
     (if rq_Method r \<in> {''POST'', ''PUT''} then
        (case mime (header_get (rq_Header r) ''Content-Type'') of
           Some ct \<Rightarrow> if ct = '''' then (form_mime, r\<lparr>rq_Header := header_set ''Content-Type'' form_mime (rq_Header r)\<rparr>)
                      else (ct, r)
         | None \<Rightarrow> (form_mime, r\<lparr>rq_Header := header_set ''Content-Type'' form_mime (rq_Header r)\<rparr>))
      else ('''', r))"

definition proto_message :: "request \<Rightarrow> string option \<Rightarrow> api_request \<times> string" where
  "proto_message r b =
     (let (h1, gets) = marshal_values (url_query r) '''';
          (h2, posts) = marshal_values (case rq_PostForm r of None \<Rightarrow> [] | Some p \<Rightarrow> p) h1;
          extra = (if length h2 = 3 then [new_pair ''hob'' h2] else [])
      in (Request_zero\<lparr>ar_Path := Some (rq_Path r), ar_Verb := Some (rq_Method r), ar_Get := gets @ extra,
           ar_Post := posts @ extra, ar_Header := marshal_headers (rq_Header r), ar_Body := b\<rparr>, h2))"

definition httpRequestToProto :: "env \<Rightarrow> request \<Rightarrow> (perror + api_request \<times> string) \<times> request" where
  "httpRequestToProto E r =
     (let (ct, r1) = fix_content_type (en_mime E) r;
          (b, r2) = (if rq_Body r1 \<noteq> NoBody \<and> ct \<noteq> form_mime then
                       (case read_all (rq_Body r1) of (s, rest) \<Rightarrow> (Some s, r1\<lparr>rq_Body := rest\<rparr>))
                     else (None, r1));
          (r3, bad) = (if rq_Body r2 \<noteq> NoBody then parse_form (en_mime E) r2 else (r2, False))
      in if bad then (Inl (platform_err E BadRequest ''11'' (''Problem parsing HTTP request parameters: '' @ en_form_error E r2) []), r3)
         else (Inr (proto_message r3 b), r3))"

section \<open>h2.go\<close>

text \<open>\<open>path.Clean\<close>: no empty and no \<open>.\<close> elements, and \<open>..\<close> takes the element before it away.\<close>

definition clean_step :: "bool \<Rightarrow> string \<Rightarrow> string list \<Rightarrow> string list" where
  "clean_step rooted w stack =
     (if w = '''' \<or> w = ''.'' then stack
      else if w = ''..'' then
        (if stack \<noteq> [] \<and> last stack \<noteq> ''..'' then butlast stack
         else if rooted then stack else stack @ [w])
      else stack @ [w])"

definition path_Clean :: "string \<Rightarrow> string" where
  "path_Clean p =
     (let rooted = has_prefix p ''/'';
          ws = fold (clean_step rooted) (split_on CHR ''/'' p) [];
          out = (if rooted then ''/'' else '''') @ str_join ''/'' ws
      in if out = '''' then ''.'' else out)"

definition pathToEndpoint :: "string \<Rightarrow> string \<times> string" where
  "pathToEndpoint p =
     (let parts = split_on CHR ''/'' (trim_prefix (path_Clean p) ''/'')
      in (''com.HailoOSS.api.'' @ str_join ''.'' (butlast parts), last parts))"

text \<open>The headers of the answer, each of the form \<open>key : value\<close>; others are only logged.\<close>

definition add_response_header :: "string \<Rightarrow> rwriter \<Rightarrow> rwriter" where
  "add_response_header hdr w =
     (case split_n2 hdr '':'' of
        [k, v] \<Rightarrow> add_hdr (trim_space k) (trim_space v) w
      | _ \<Rightarrow> w)"

definition h2_call :: "env \<Rightarrow> string \<Rightarrow> string \<Rightarrow> bus_payload \<Rightarrow> trace_info \<Rightarrow> request \<Rightarrow> bus_call" where
  "h2_call E service ep pl t r =
     \<lparr>bc_Service = service, bc_Endpoint = ep, bc_Payload = pl,
      bc_Trace = (if ti_TraceId t \<noteq> '''' then Some (ti_TraceId t, ti_PersistentTrace t) else None),
      bc_SessionID = SessionId (en_hx E) (Some r), bc_From = ''com.HailoOSS.hailo-2-api'',
      bc_RemoteAddr = rq_RemoteAddr r\<rparr>"

definition h2_respond :: "'r router_if \<Rightarrow> 'r \<Rightarrow> trace_info \<Rightarrow> api_response \<Rightarrow> rwriter \<Rightarrow> rwriter" where
  "h2_respond R rs t rsp w =
     (let w1 = fold add_response_header (Response_GetHeader (Some rsp)) (trace_Write t w);
          w2 = (if get_hdr w1 ''Content-Type'' = '''' then
                  set_hdr ''Content-Type'' ''application/json; charset=utf-8'' w1 else w1);
          w3 = fst (regionPinning R rs w2)
      in write_body (Bytes (Response_GetBody (Some rsp))) (write_header (sint (GetStatusCode (Some rsp))) w3))"

text \<open>The body of \<open>h2Handler\<close>: the writer, the events, and whether the call counts as a success; then the
  deferred accounting.\<close>

definition h2_run :: "env \<Rightarrow> 'r router_if \<Rightarrow> 'r \<Rightarrow> rwriter \<Rightarrow> rwriter \<times> event list \<times> bool" where
  "h2_run E R rs w =
     (let r = ri_request R rs;
          (t, ev0) = start_trace E r
      in (case httpRequestToProto E r of
            (Inl perr, r') \<Rightarrow> (write_error E perr ''application/json'' t w, ev0, False)
          | (Inr (protoReq, hobCode), r') \<Rightarrow>
              (let ev1 = ev0 @ instrumentHob (url_query r') hobCode;
                   (service, ep) = pathToEndpoint (rq_Path r')
               in if \<not> en_new_api E service ep protoReq then
                    (write_error E (platform_err E BadRequest ''15'' ''No handler available.'' [])
                       ''application/json'' t w, ev1, False)
                  else (let c = h2_call E service ep (ApiPayload protoReq) t r';
                            ev2 = ev1 @ [BusCall c]
                        in (case en_call_api E c of
                              Inl perr \<Rightarrow> (write_error E perr ''application/json'' t w, ev2, False)
                            | Inr rsp \<Rightarrow> (h2_respond R (ri_update R r' rs) t rsp w, ev2, sint (GetStatusCode (Some rsp)) < 500))))))"

definition h2Handler :: "env \<Rightarrow> 'r router_if \<Rightarrow> 'r \<Rightarrow> rwriter \<Rightarrow> rwriter \<times> event list" where
  "h2Handler E R rs w =
     (case h2_run E R rs w of (w', evs, success) \<Rightarrow>
        (w', evs @ outcome_events (en_az E) ''h2'' success (rq_Path (ri_request R rs))))"

section \<open>Lemmas\<close>

lemma grows_response_header: "rw_grows w (add_response_header hdr w)"
  by (auto simp: add_response_header_def split: list.split intro!: grow_intros)

lemma grows_h2_respond: "rw_grows w (h2_respond R rs t rsp w)"
proof -
  have "rw_grows w (fold add_response_header hs (trace_Write t w))" for hs
    by (rule grows_trans [OF grows_trace_Write [OF grows_refl]]) (rule grows_fold, rule grows_response_header)
  then show ?thesis
    unfolding h2_respond_def Let_def
    by (auto intro!: grow_intros grows_trans [OF _ grows_regionPinning])
qed

lemma grows_h2Handler: "rw_grows w (fst (h2Handler E R rs w))"
  by (auto simp: h2Handler_def h2_run_def write_error_def Let_def grows_h2_respond
      split: prod.split sum.split intro!: grow_intros)

lemma fold_clean_plain:
  "\<forall>w\<in>set ws. w \<notin> {'''', ''.'', ''..''} \<Longrightarrow> fold (clean_step b) ws st = st @ ws"
  by (induction ws arbitrary: st) (auto simp: clean_step_def)

lemma split_on_join: "ws \<noteq> [] \<Longrightarrow> \<forall>w\<in>set ws. c \<notin> set w \<Longrightarrow> split_on c (str_join [c] ws) = ws"
  unfolding split_on_def by (rule split_by_join) auto

lemma split_slash: "split_on CHR ''/'' (CHR ''/'' # s) = '''' # split_on CHR ''/'' s"
  by (simp add: split_on_def)

lemma split_snoc: "split_on c (s @ [c]) = split_on c s @ ['''']"
  by (induction s) (auto simp: split_on_def split: list.splits)

lemma clean_trailing:
  assumes "p \<noteq> ''''"
  shows "path_Clean (p @ ''/'') = path_Clean p"
proof -
  have "fold (clean_step b) (split_on CHR ''/'' (p @ ''/'')) [] = fold (clean_step b) (split_on CHR ''/'' p) []" for b
    unfolding split_snoc fold_append by (simp add: clean_step_def)
  moreover have "has_prefix (p @ ''/'') ''/'' = has_prefix p ''/''"
    using assms by (cases p) (simp_all add: has_prefix_def)
  ultimately show ?thesis by (simp only: path_Clean_def Let_def)
qed

text \<open>A path in normal form: a leading slash and elements that are neither empty nor dots.\<close>

definition plain_path :: "string list \<Rightarrow> bool" where
  "plain_path ws \<longleftrightarrow> ws \<noteq> [] \<and> (\<forall>w\<in>set ws. w \<notin> {'''', ''.'', ''..''} \<and> CHR ''/'' \<notin> set w)"

lemma clean_plain:
  assumes "plain_path ws"
  shows "path_Clean (''/'' @ str_join ''/'' ws) = ''/'' @ str_join ''/'' ws"
  using fold_clean_plain [of ws True "[]"] assms split_on_join [of ws "CHR ''/''"]
  by (auto simp: path_Clean_def split_slash clean_step_def has_prefix_def Let_def plain_path_def)

lemma endpoint_plain:
  assumes "plain_path ws"
  shows "pathToEndpoint (''/'' @ str_join ''/'' ws) = (''com.HailoOSS.api.'' @ str_join ''.'' (butlast ws), last ws)"
  using clean_plain [OF assms] split_on_join [of ws "CHR ''/''"] assms
  by (auto simp: pathToEndpoint_def trim_prefix_def has_prefix_def Let_def plain_path_def)

lemma str_join_eq_Nil: "\<forall>w\<in>set ws. w \<noteq> '''' \<Longrightarrow> str_join sep ws = '''' \<longleftrightarrow> ws = []"
  by (cases ws rule: remdups_adj.cases) auto

lemma str_join_inj:
  assumes "\<forall>w\<in>set vs \<union> set ws. w \<noteq> '''' \<and> c \<notin> set w" and "str_join [c] vs = str_join [c] ws"
  shows "vs = ws"
proof (cases "vs = [] \<or> ws = []")
  case True
  with assms str_join_eq_Nil [of vs "[c]"] str_join_eq_Nil [of ws "[c]"] show ?thesis by auto
next
  case False
  have "split_on c (str_join [c] vs) = vs"
    by (rule split_on_join) (use False assms(1) in blast)+
  moreover have "split_on c (str_join [c] ws) = ws"
    by (rule split_on_join) (use False assms(1) in blast)+
  ultimately show ?thesis using assms(2) by metis
qed

text \<open>Nothing changes the parts of the request that the call is made from.\<close>

lemma fix_content_type_frame:
  "fix_content_type mime r = (ct, r') \<Longrightarrow> \<exists>h. r' = r\<lparr>rq_Header := h\<rparr>"
  by (cases r) (auto simp: fix_content_type_def split: if_splits option.splits)

lemma httpRequestToProto_frame:
  assumes "httpRequestToProto E r = (res, r')"
  shows "rq_Path r' = rq_Path r" and "rq_RawQuery r' = rq_RawQuery r" and "rq_Method r' = rq_Method r"
    and "rq_RemoteAddr r' = rq_RemoteAddr r"
    and "res = Inr (m, hobCode) \<Longrightarrow> \<exists>b. (m, hobCode) = proto_message r' b"
proof -
  obtain ct r1 where f: "fix_content_type (en_mime E) r = (ct, r1)" by (cases "fix_content_type (en_mime E) r")
  from fix_content_type_frame [OF f] obtain h where r1: "r1 = r\<lparr>rq_Header := h\<rparr>" by blast
  define b r2 where "b = (if rq_Body r1 \<noteq> NoBody \<and> ct \<noteq> form_mime then Some (fst (read_all (rq_Body r1))) else None)"
    and "r2 = (if rq_Body r1 \<noteq> NoBody \<and> ct \<noteq> form_mime then r1\<lparr>rq_Body := snd (read_all (rq_Body r1))\<rparr> else r1)"
  obtain r3 bad where p: "(if rq_Body r2 \<noteq> NoBody then parse_form (en_mime E) r2 else (r2, False)) = (r3, bad)"
    by (cases "if rq_Body r2 \<noteq> NoBody then parse_form (en_mime E) r2 else (r2, False)")
  have r3: "rq_Path r3 = rq_Path r2" "rq_RawQuery r3 = rq_RawQuery r2" "rq_Method r3 = rq_Method r2"
    "rq_RemoteAddr r3 = rq_RemoteAddr r2"
    using p parse_form_frame [of "en_mime E" r2 r3 bad] by (auto split: if_splits)
  have "httpRequestToProto E r = (if bad then (Inl (platform_err E BadRequest ''11''
      (''Problem parsing HTTP request parameters: '' @ en_form_error E r2) []), r3) else (Inr (proto_message r3 b), r3))"
    using p by (auto simp: httpRequestToProto_def f Let_def b_def r2_def split: prod.splits if_splits)
  with assms have e: "r' = r3" "res = Inr (m, hobCode) \<Longrightarrow> proto_message r3 b = (m, hobCode)"
    by (auto split: if_splits)
  show "rq_Path r' = rq_Path r" "rq_RawQuery r' = rq_RawQuery r" "rq_Method r' = rq_Method r"
    "rq_RemoteAddr r' = rq_RemoteAddr r"
    using r3 by (auto simp: e(1) r2_def r1)
  show "res = Inr (m, hobCode) \<Longrightarrow> \<exists>b. (m, hobCode) = proto_message r' b" using e by metis
qed

text \<open>The pairs of one map: the first value of every key but the credentials and the hob.\<close>

definition sent_key :: "string \<Rightarrow> bool" where
  "sent_key k \<longleftrightarrow> k \<notin> {''session_id'', ''api_token'', ''hob''}"

lemma fold_marshal_pairs:
  "snd (fold marshal_step m (h, ps)) = ps @ map (\<lambda>(k, vs). new_pair k (vs ! 0)) (filter (\<lambda>(k, vs). sent_key k) m)"
  by (induction m arbitrary: h ps) (auto simp: marshal_step_def sent_key_def)

lemma marshal_pairs:
  "marshal_values m h = (h', ps) \<Longrightarrow>
     ps = map (\<lambda>(k, vs). new_pair k (vs ! 0)) (filter (\<lambda>(k, vs). sent_key k) m)"
  using fold_marshal_pairs [of m h "[]"] by (simp add: marshal_values_def)

lemma fold_marshal_hob_other:
  "''hob'' \<notin> fst ` set m \<Longrightarrow> ''city'' \<notin> fst ` set m \<Longrightarrow> fst (fold marshal_step m (h, ps)) = h"
  by (induction m arbitrary: h ps) (auto simp: marshal_step_def)

text \<open>The calls of the handler and what it counts.\<close>

lemma h2_call_cases:
  "let r = ri_request R rs; evs = snd (h2Handler E R rs w) in
    (bus_calls evs = [] \<and> StatsRecord (rq_Path r) False \<in> set evs \<and> StatsRecord (rq_Path r) True \<notin> set evs) \<or>
    (\<exists>c m. bus_calls evs = [c] \<and> bc_Payload c = ApiPayload m \<and>
       (bc_Service c, bc_Endpoint c) = pathToEndpoint (rq_Path r) \<and> bc_From c = ''com.HailoOSS.hailo-2-api'' \<and>
       bc_RemoteAddr c = rq_RemoteAddr r \<and> ar_Path m = Some (rq_Path r) \<and> ar_Verb m = Some (rq_Method r) \<and>
       (StatsRecord (rq_Path r) True \<in> set evs \<longleftrightarrow>
          (case en_call_api E c of Inl e \<Rightarrow> False | Inr rsp \<Rightarrow> sint (GetStatusCode (Some rsp)) < 500)))"
proof -
  let ?r = "ri_request R rs"
  obtain t ev0 where t: "start_trace E ?r = (t, ev0)" by (cases "start_trace E ?r")
  then have ev0: "bus_calls ev0 = []" "StatsRecord p b \<notin> set ev0" for p b
    by (auto simp: start_trace_def split: prod.splits option.splits)
  have out: "StatsRecord (rq_Path ?r) b \<in> set (outcome_events az ''h2'' s (rq_Path ?r)) \<longleftrightarrow> b = s" for az b s
    by (auto simp: outcome_events_def Let_def)
  obtain res r' where m: "httpRequestToProto E ?r = (res, r')" by (cases "httpRequestToProto E ?r")
  note frame = httpRequestToProto_frame [OF m]
  show ?thesis
  proof (cases res)
    case (Inl e)
    then show ?thesis using ev0 out by (simp add: h2Handler_def h2_run_def t m Let_def)
  next
    case (Inr mh)
    obtain msg hobCode where mh: "mh = (msg, hobCode)" by (cases mh)
    obtain b where b: "(msg, hobCode) = proto_message r' b" using frame(5) Inr mh by blast
    then have msg: "ar_Path msg = Some (rq_Path ?r)" "ar_Verb msg = Some (rq_Method ?r)"
      using frame(1,3) by (auto simp: proto_message_def Let_def split: prod.splits)
    obtain service ep where ep: "pathToEndpoint (rq_Path ?r) = (service, ep)" by (cases "pathToEndpoint (rq_Path ?r)")
    have inst: "bus_calls (instrumentHob q h) = []" "StatsRecord p b \<notin> set (instrumentHob q h)" for q h p b
      by (simp_all add: instrumentHob_def)
    let ?c = "h2_call E service ep (ApiPayload msg) t r'"
    show ?thesis
    proof (cases "en_new_api E service ep msg")
      case False
      then show ?thesis
        using ev0 out inst ep frame(1) by (simp add: h2Handler_def h2_run_def t m Inr mh Let_def)
    next
      case True
      have c: "bc_Payload ?c = ApiPayload msg" "(bc_Service ?c, bc_Endpoint ?c) = (service, ep)"
        "bc_From ?c = ''com.HailoOSS.hailo-2-api''" "bc_RemoteAddr ?c = rq_RemoteAddr ?r"
        using frame(4) by (simp_all add: h2_call_def)
      have "snd (h2Handler E R rs w) = ev0 @ instrumentHob (url_query r') hobCode @ [BusCall ?c] @
          outcome_events (en_az E) ''h2'' (case en_call_api E ?c of Inl e \<Rightarrow> False | Inr rsp \<Rightarrow> sint (GetStatusCode (Some rsp)) < 500)
            (rq_Path ?r)"
        using True ep frame(1) by (simp add: h2Handler_def h2_run_def t m Inr mh Let_def split: sum.split)
      then show ?thesis unfolding Let_def using ev0 out inst ep c msg
        by (intro disjI2 exI [of _ ?c] exI [of _ msg]) auto
    qed
  qed
qed

section \<open>Properties\<close>

text \<open>C26: the service of a request is its path: a path in normal form goes to the endpoint named by its last
  element, of the service named by the others, and paths without points in their elements that go to
  the same endpoint are equal.\<close>

theorem endpoint_of_path:
  assumes "plain_path ws" and "plain_path vs"
    and "\<forall>w\<in>set ws \<union> set vs. CHR ''.'' \<notin> set w"
  shows "pathToEndpoint (''/'' @ str_join ''/'' ws) = (''com.HailoOSS.api.'' @ str_join ''.'' (butlast ws), last ws) \<and>
    (pathToEndpoint (''/'' @ str_join ''/'' ws) = pathToEndpoint (''/'' @ str_join ''/'' vs) \<longrightarrow> ws = vs)"
proof -
  have "butlast ws = butlast vs" if "str_join ''.'' (butlast ws) = str_join ''.'' (butlast vs)"
    using assms that by (intro str_join_inj [of _ _ "CHR ''.''"]) (auto simp: plain_path_def dest: in_set_butlastD)
  then have "ws = vs" if "str_join ''.'' (butlast ws) = str_join ''.'' (butlast vs)" "last ws = last vs"
    using assms that by (metis append_butlast_last_id plain_path_def)
  then show ?thesis using endpoint_plain [OF assms(1)] endpoint_plain [OF assms(2)] by auto
qed

theorem endpoint_of_path_witness:
  "pathToEndpoint ''/v1/customer/card'' = (''com.HailoOSS.api.v1.customer'', ''card'')"
  using endpoint_of_path [of "[''v1'', ''customer'', ''card'']" "[''v1'', ''customer'', ''card'']"]
  by (simp add: plain_path_def)

text \<open>C37: the filter for card data can be passed by. It compares the path as it stands, while the service is
  found from the cleaned path: with a slash at the end, or with a point for a slash, a request to a
  listed path is not sensitive and still goes to the same endpoint.\<close>

theorem pci_bypass:
  assumes "rq_Method r @ '' '' @ p \<in> set (pf_sensitivePaths f)" and "p \<noteq> ''''"
    and "rq_Path r = p @ ''/''" and "rq_Method r @ '' '' @ p @ ''/'' \<notin> set (pf_sensitivePaths f)"
  shows "PCIFilter f h r w = h r w \<and> pathToEndpoint (rq_Path r) = pathToEndpoint p \<and>
    pathToEndpoint ''/v1.customer/card'' = pathToEndpoint ''/v1/customer/card''"
proof -
  have "pathToEndpoint ''/v1.customer/card'' = pathToEndpoint ''/v1/customer/card''"
    using endpoint_plain [of "[''v1.customer'', ''card'']"] endpoint_plain [of "[''v1'', ''customer'', ''card'']"]
    by (simp add: plain_path_def)
  moreover have "pathToEndpoint (p @ ''/'') = pathToEndpoint p"
    by (simp only: pathToEndpoint_def clean_trailing [OF assms(2)])
  ultimately show ?thesis using assms by (simp add: PCIFilter_def PCI_IsSensitiveRequest_def)
qed

theorem pci_bypass_witness:
  "PCIFilter test_pci (\<lambda>r w. (w, [InstCounter ''leak''])) (card_request\<lparr>rq_Path := ''/v1/customer/card/''\<rparr>) new_rwriter
     = (new_rwriter, [InstCounter ''leak'']) \<and>
   pathToEndpoint ''/v1/customer/card/'' = pathToEndpoint ''/v1/customer/card''"
  using pci_bypass [of "card_request\<lparr>rq_Path := ''/v1/customer/card/''\<rparr>" "''/v1/customer/card''" test_pci]
  by (simp add: test_pci_def card_request_def)

text \<open>What an API service gets of the parameters of a request: for every name but the credentials and
  the hob exactly the first value in the query, and the first in the form; the session and the API
  token are never passed on as parameters; a hob is there only with three characters.\<close>

theorem forwarded_params:
  assumes "proto_message r b = (m, hobCode)" and "sent_key k"
  shows "(new_pair k v \<in> set (ar_Get m) \<longleftrightarrow> (\<exists>vs. map_of (url_query r) k = Some vs \<and> v = vs ! 0)) \<and>
    (wf_request r \<longrightarrow> (new_pair k v \<in> set (ar_Post m) \<longleftrightarrow>
       (\<exists>p vs. rq_PostForm r = Some p \<and> map_of p k = Some vs \<and> v = vs ! 0))) \<and>
    (\<forall>p\<in>set (ar_Get m) \<union> set (ar_Post m). GetKey (Some p) \<notin> {''session_id'', ''api_token''} \<and>
       (GetKey (Some p) = ''hob'' \<longrightarrow> length (GetValue (Some p)) = 3 \<and> GetValue (Some p) = hobCode))"
proof -
  obtain h1 gs where g: "marshal_values (url_query r) '''' = (h1, gs)" by (cases "marshal_values (url_query r) ''''")
  let ?pf = "case rq_PostForm r of None \<Rightarrow> [] | Some p \<Rightarrow> p"
  obtain h2 qs where q: "marshal_values ?pf h1 = (h2, qs)" by (cases "marshal_values ?pf h1")
  let ?extra = "if length h2 = 3 then [new_pair ''hob'' h2] else []"
  have m: "ar_Get m = gs @ ?extra" "ar_Post m = qs @ ?extra" "hobCode = h2"
    using assms(1) by (auto simp: proto_message_def g q Let_def)
  have mem: "new_pair k v \<in> set (map (\<lambda>(k, vs). new_pair k (vs ! 0))
      (filter (\<lambda>(k, vs). sent_key k) x)) \<longleftrightarrow> (\<exists>vs. map_of x k = Some vs \<and> v = vs ! 0)" if "wf_map x" for x
    using assms(2) map_of_Some_in_set [OF that] by force
  have ex: "new_pair k v \<notin> set ?extra" using assms(2) by (auto simp: sent_key_def)
  have wf: "wf_map (url_query r)" using query_of_wf [of "rq_RawQuery r"] by (simp add: wf_values_def)
  have wfp: "wf_request r \<Longrightarrow> wf_map ?pf" by (auto simp: wf_request_def wf_values_def split: option.split)
  have keys: "\<forall>p\<in>set gs \<union> set qs. GetKey (Some p) \<notin> {''session_id'', ''api_token'', ''hob''}"
    using marshal_pairs [OF g] marshal_pairs [OF q] by (auto simp: sent_key_def)
  show ?thesis
  proof (intro conjI impI ballI)
    show "new_pair k v \<in> set (ar_Get m) \<longleftrightarrow> (\<exists>vs. map_of (url_query r) k = Some vs \<and> v = vs ! 0)"
      using mem [OF wf] ex unfolding m marshal_pairs [OF g] set_append Un_iff by blast
    show "new_pair k v \<in> set (ar_Post m) \<longleftrightarrow>
        (\<exists>p vs. rq_PostForm r = Some p \<and> map_of p k = Some vs \<and> v = vs ! 0)" if "wf_request r"
      using mem [OF wfp [OF that]] ex unfolding m marshal_pairs [OF q] set_append Un_iff
      by (cases "rq_PostForm r") auto
    fix p assume p: "p \<in> set (ar_Get m) \<union> set (ar_Post m)"
    then have "p \<in> set gs \<union> set qs \<or> p = new_pair ''hob'' h2 \<and> length h2 = 3"
      by (auto simp: m split: if_splits)
    with keys show "GetKey (Some p) \<notin> {''session_id'', ''api_token''}"
      "GetKey (Some p) = ''hob'' \<Longrightarrow> length (GetValue (Some p)) = 3" "GetKey (Some p) = ''hob'' \<Longrightarrow> GetValue (Some p) = hobCode"
      by (auto simp: m(3))
  qed
qed

definition param_request :: request where
  "param_request = plain_request\<lparr>rq_RawQuery := ''a=1&a=2&session_id=s&city=LON''\<rparr>"

theorem forwarded_params_witness:
  "new_pair ''a'' ''1'' \<in> set (ar_Get (fst (proto_message param_request None)))"
proof -
  have "map_of (url_query param_request) ''a'' = Some [''1'', ''2'']" by code_simp
  then show ?thesis
    using forwarded_params [of param_request None "fst (proto_message param_request None)"
        "snd (proto_message param_request None)" "''a''" "''1''"]
    by (simp add: sent_key_def)
qed

text \<open>Which hob the services see can depend on Go's iteration order: with a \<open>city\<close> of three characters
  and a \<open>hob\<close> of another length in the query, the message carries the city as the hob when the city is
  visited last and no hob at all when it is visited first. A hob of three characters always wins.\<close>

theorem message_hob_order:
  assumes "wf_map q" and "map_of q ''hob'' = Some (h # hs)" and "map_of q ''city'' = Some (c # cs)" and "length c = 3"
  shows "(length h = 3 \<longrightarrow> fst (marshal_values q '''') = h) \<and>
    (length h \<noteq> 3 \<longrightarrow>
      (\<forall>a b d. q = a @ (''hob'', h # hs) # b @ (''city'', c # cs) # d \<longrightarrow> fst (marshal_values q '''') = c) \<and>
      (\<forall>a b d. q = a @ (''city'', c # cs) # b @ (''hob'', h # hs) # d \<longrightarrow> fst (marshal_values q '''') = h))"
proof -
  have step: "fst (fold marshal_step (x @ ys) st) = fst (fold marshal_step ys (fold marshal_step x st))" for x ys st
    by simp
  have skip: "fst (fold marshal_step x (g, ps)) = g" if "x \<in> {a, b, d}" "''hob'' \<notin> fst ` set x" "''city'' \<notin> fst ` set x"
    for x a b d g ps using fold_marshal_hob_other that by blast
  have first: "fst (marshal_values q '''') = (if length h = 3 then h else c)"
    if q: "q = a @ (''hob'', h # hs) # b @ (''city'', c # cs) # d" for a b d
  proof -
    have o: "fst (fold marshal_step a (g, ps)) = g" "fst (fold marshal_step b (g, ps)) = g"
      "fst (fold marshal_step d (g, ps)) = g" for g ps
      using assms(1) by (auto simp: q intro!: fold_marshal_hob_other)
    obtain ps1 where 1: "fold marshal_step a ('''', []) = ('''', ps1)" using o(1) by (metis prod.collapse)
    obtain ps2 where 2: "fold marshal_step b (h, ps1) = (h, ps2)" using o(2) by (metis prod.collapse)
    show ?thesis using assms(4) by (simp add: marshal_values_def q 1) (simp add: marshal_step_def 2 o)
  qed
  have second: "fst (marshal_values q '''') = h" if q: "q = a @ (''city'', c # cs) # b @ (''hob'', h # hs) # d" for a b d
  proof -
    have o: "fst (fold marshal_step d (g, ps)) = g" for g ps
      using assms(1) by (auto simp: q intro!: fold_marshal_hob_other)
    obtain g1 ps1 where 1: "fold marshal_step a ('''', []) = (g1, ps1)" by (metis prod.collapse)
    obtain g2 ps2 where 2: "fold marshal_step b (marshal_step (''city'', c # cs) (g1, ps1)) = (g2, ps2)"
      by (metis prod.collapse)
    show ?thesis by (simp add: marshal_values_def q 1 2) (simp add: marshal_step_def o)
  qed
  obtain a b where q: "q = a @ (''hob'', h # hs) # b" using split_at_key [OF assms(1,2)] by blast
  have "(''city'', c # cs) \<in> set q" using assms(3) by (rule map_of_SomeD)
  then have "(''city'', c # cs) \<in> set a \<or> (''city'', c # cs) \<in> set b" unfolding q by simp
  then have "length h = 3 \<longrightarrow> fst (marshal_values q '''') = h"
  proof
    assume "(''city'', c # cs) \<in> set a"
    then obtain a1 a2 where "a = a1 @ (''city'', c # cs) # a2" by (meson split_list)
    with q second [of a1 a2 b] show ?thesis by simp
  next
    assume "(''city'', c # cs) \<in> set b"
    then obtain b1 b2 where "b = b1 @ (''city'', c # cs) # b2" by (meson split_list)
    with q have "q = a @ (''hob'', h # hs) # b1 @ (''city'', c # cs) # b2" by simp
    from first [OF this] show ?thesis by auto
  qed
  moreover have "fst (marshal_values q '''') = c"
    if "length h \<noteq> 3" "q = a @ (''hob'', h # hs) # b @ (''city'', c # cs) # d" for a b d
    using first [OF that(2)] that(1) by simp
  ultimately show ?thesis using second by blast
qed

theorem message_hob_order_witness:
  "fst (marshal_values ([] @ (''hob'', [''LO'']) # [] @ (''city'', [''DUB'']) # []) '''') = ''DUB'' \<and>
   fst (marshal_values ([] @ (''city'', [''DUB'']) # [] @ (''hob'', [''LO'']) # []) '''') = ''LO''"
proof
  have len: "length ''LO'' \<noteq> 3" by simp
  let ?q1 = "[] @ (''hob'', [''LO'']) # [] @ (''city'', [''DUB'']) # []"
  have 1: "wf_map ?q1" "map_of ?q1 ''hob'' = Some [''LO'']" "map_of ?q1 ''city'' = Some [''DUB'']"
    "length ''DUB'' = 3" by simp_all
  show "fst (marshal_values ?q1 '''') = ''DUB''"
    by (rule message_hob_order [OF 1, THEN conjunct2, THEN mp, OF len, THEN conjunct1, rule_format, OF refl])
  let ?q2 = "[] @ (''city'', [''DUB'']) # [] @ (''hob'', [''LO'']) # []"
  have 2: "wf_map ?q2" "map_of ?q2 ''hob'' = Some [''LO'']" "map_of ?q2 ''city'' = Some [''DUB'']"
    "length ''DUB'' = 3" by simp_all
  show "fst (marshal_values ?q2 '''') = ''LO''"
    by (rule message_hob_order [OF 2, THEN conjunct2, THEN mp, OF len, THEN conjunct2, rule_format, OF refl])
qed

text \<open>\<open>h2Handler\<close> makes at most one call, to the endpoint of the path, in the name of the API with the
  client's address and the method and path as they came; the request counts as a success exactly when
  that call is made and answered with a status below 500.\<close>

theorem h2_one_call:
  "let r = ri_request R rs; evs = snd (h2Handler E R rs w) in
    (bus_calls evs = [] \<and> StatsRecord (rq_Path r) False \<in> set evs \<and> StatsRecord (rq_Path r) True \<notin> set evs) \<or>
    (\<exists>c m. bus_calls evs = [c] \<and> bc_Payload c = ApiPayload m \<and>
       (bc_Service c, bc_Endpoint c) = pathToEndpoint (rq_Path r) \<and> bc_From c = ''com.HailoOSS.hailo-2-api'' \<and>
       bc_RemoteAddr c = rq_RemoteAddr r \<and> ar_Path m = Some (rq_Path r) \<and> ar_Verb m = Some (rq_Method r) \<and>
       (StatsRecord (rq_Path r) True \<in> set evs \<longleftrightarrow>
          (case en_call_api E c of Inl e \<Rightarrow> False | Inr rsp \<Rightarrow> sint (GetStatusCode (Some rsp)) < 500)))"
  by (rule h2_call_cases)

lemma canonical_X: "hd (canonical_key (CHR ''X'' # s)) = CHR ''X''"
  by (simp add: canonical_key_def to_upper_c_def)

lemma pin_keeps_header:
  assumes "hd (canonical_key k) \<noteq> CHR ''X''"
  shows "get_hdr (pinRequestToHostname v u w) k = get_hdr w k"
proof -
  have ne: "canonical_key k \<noteq> canonical_key (endpoint_header x)" for x
    using assms canonical_X by (metis append_Cons endpoint_header_def)
  have "get_hdr (fold (\<lambda>(k, v). set_hdr (endpoint_header k) v) us x) k = get_hdr x k" for us x
    by (induction us arbitrary: x) (auto simp: header_get_set ne)
  moreover have "canonical_key k \<noteq> canonical_key ''X-H-ENDPOINT-TIMESTAMP''"
    using assms canonical_X by metis
  ultimately show ?thesis by (simp add: pinRequestToHostname_def header_get_set)
qed

lemma regionPinning_keeps_header:
  "hd (canonical_key k) \<noteq> CHR ''X'' \<Longrightarrow> get_hdr (fst (regionPinning R r w)) k = get_hdr w k"
  by (auto simp: regionPinning_def Let_def pin_keeps_header split: prod.split)

text \<open>C28: the answer of a service reaches the client with its status and its body and always with a content
  type, the one of the service, or one that was set before, or JSON.\<close>

theorem h2_answer:
  assumes "httpRequestToProto E (ri_request R rs) = (Inr (m, hobCode), r')"
    and "pathToEndpoint (rq_Path (ri_request R rs)) = (service, ep)" and "en_new_api E service ep m"
    and "en_call_api E (h2_call E service ep (ApiPayload m) (fst (start_trace E (ri_request R rs))) r') = Inr rsp"
    and "rw_Status w = None"
  shows "rw_Status (fst (h2Handler E R rs w)) = Some (sint (GetStatusCode (Some rsp))) \<and>
    rw_Body (fst (h2Handler E R rs w)) = rw_Body w @ [Bytes (Response_GetBody (Some rsp))] \<and>
    header_get (rw_Sent (fst (h2Handler E R rs w))) ''Content-Type'' \<noteq> ''''"
proof -
  let ?t = "fst (start_trace E (ri_request R rs))"
  let ?w = "h2_respond R (ri_update R r' rs) ?t rsp w"
  have path: "rq_Path r' = rq_Path (ri_request R rs)" using httpRequestToProto_frame(1) [OF assms(1)] .
  obtain t ev0 where t: "start_trace E (ri_request R rs) = (t, ev0)" by (cases "start_trace E (ri_request R rs)")
  have w: "fst (h2Handler E R rs w) = ?w"
    using assms path by (simp add: h2Handler_def h2_run_def t)
  define w1 where "w1 = fold add_response_header (Response_GetHeader (Some rsp)) (trace_Write ?t w)"
  define w2 where "w2 = (if get_hdr w1 ''Content-Type'' = '''' then
      set_hdr ''Content-Type'' ''application/json; charset=utf-8'' w1 else w1)"
  have keep: "rw_Status (fold add_response_header hs x) = rw_Status x \<and> rw_Body (fold add_response_header hs x) = rw_Body x"
    for hs x
    by (induction hs arbitrary: x) (auto simp: add_response_header_def split: list.split)
  have w2: "rw_Status w2 = None" "rw_Body w2 = rw_Body w" "get_hdr w2 ''Content-Type'' \<noteq> ''''"
    using assms(5) keep by (auto simp: w2_def w1_def trace_Write_def header_get_set)
  have pin: "rw_Status (pinRequestToHostname v u x) = rw_Status x \<and> rw_Body (pinRequestToHostname v u x) = rw_Body x"
    for v u x
  proof -
    have "rw_Status (fold (\<lambda>(k, v). set_hdr (endpoint_header k) v) us y) = rw_Status y \<and>
        rw_Body (fold (\<lambda>(k, v). set_hdr (endpoint_header k) v) us y) = rw_Body y" for us y
      by (induction us arbitrary: y) auto
    then show ?thesis by (simp add: pinRequestToHostname_def)
  qed
  have w3: "rw_Status (fst (regionPinning R x w2)) = None" "rw_Body (fst (regionPinning R x w2)) = rw_Body w" for x
    using w2 pin by (auto simp: regionPinning_def Let_def split: prod.split)
  have "hd (canonical_key ''Content-Type'') \<noteq> CHR ''X''" by code_simp
  from regionPinning_keeps_header [OF this, of R _ w2] w2 w3 show ?thesis
    unfolding w h2_respond_def Let_def w1_def [symmetric] w2_def [symmetric] by simp
qed

definition test_response :: api_response where
  "test_response = Response_zero\<lparr>as_StatusCode := Some 201, as_Header := [''X-A : 1''], as_Body := Some ''{}''\<rparr>"

definition test_env :: env where
  "test_env = \<lparr>en_mime = test_mime, en_hx = headerExtractors, en_az = ''a'', en_sanitise = False,
     en_errpb = (\<lambda>_. ''''), en_pcChance = 0, en_roll = 0, en_uuid = ''u'',
     en_kind = (\<lambda>k. case k of BadRequest \<Rightarrow> (''BAD_REQUEST'', 400) | Forbidden \<Rightarrow> (''FORBIDDEN'', 403)),
     en_new_api = (\<lambda>_ _ _. True),
     en_call_api = (\<lambda>c. Inr test_response),
     en_new_rpc = (\<lambda>_ _ _. None), en_call_rpc = (\<lambda>c. Inr ''{}''), en_admin = (\<lambda>s. s = ''root''),
     en_form_error = (\<lambda>r. '''')\<rparr>"

abbreviation test_router :: "extractor router_if" where
  "test_router \<equiv> rule_router test_mime headerExtractors test_config"

theorem h2_answer_witness:
  "rw_Status (fst (h2Handler test_env test_router (newExtractor plain_request) new_rwriter)) = Some 201"
proof -
  have r: "ri_request test_router (newExtractor plain_request) = plain_request"
    by (simp add: rule_router_def Let_def newExtractor_def)
  have "httpRequestToProto test_env plain_request =
      (Inr (proto_message plain_request None), plain_request)"
    by (simp add: httpRequestToProto_def plain_request_def fix_content_type_def)
  moreover obtain m hobCode where "proto_message plain_request None = (m, hobCode)"
    by (cases "proto_message plain_request None")
  moreover obtain service ep where "pathToEndpoint (rq_Path plain_request) = (service, ep)"
    by (cases "pathToEndpoint (rq_Path plain_request)")
  ultimately have "rw_Status (fst (h2Handler test_env test_router (newExtractor plain_request) new_rwriter)) =
      Some (sint (GetStatusCode (Some test_response)))"
    using h2_answer [of test_env test_router "newExtractor plain_request" m hobCode plain_request service ep
        test_response new_rwriter]
    by (simp add: r test_env_def new_rwriter_def)
  then show ?thesis by (simp add: GetStatusCode_def test_response_def)
qed

text \<open>The answer 400 for parameters that do not parse is never given. The router has parsed the form
  before, to find the hob, and parsing it again reports no error; a body that could not be read is gone
  by then. So \<open>httpRequestToProto\<close> never fails on a request that the router has seen.\<close>

theorem form_error_unreachable:
  "\<exists>m. fst (httpRequestToProto E (ex_req (settle mime hx (newExtractor r)))) = Inr m"
proof -
  let ?p = "parse_form mime (complete_content_type mime r)"
  have e: "ex_req (settle mime hx (newExtractor r)) =
      (if rq_Body r = BadBody then r\<lparr>rq_Body := NoBody\<rparr> else (fst ?p)\<lparr>rq_Body := rq_Body r\<rparr>)"
    by (simp add: settle_def newExtractor_def doExtraction_eq Let_def)
  obtain f p where fp: "rq_Form (fst ?p) = Some f" "rq_PostForm (fst ?p) = Some p"
    using parse_form_parsed [of mime "complete_content_type mime r" "fst ?p" "snd ?p"] by auto
  have parsed: "\<exists>m. fst (httpRequestToProto E x) = Inr m"
    if x: "rq_Body x = NoBody \<or> (rq_Form x = Some f \<and> rq_PostForm x = Some p)" for x
  proof -
    obtain ct r1 where c: "fix_content_type (en_mime E) x = (ct, r1)" by (cases "fix_content_type (en_mime E) x")
    from fix_content_type_frame [OF c] obtain h where r1: "r1 = x\<lparr>rq_Header := h\<rparr>" by blast
    have again: "parse_form (en_mime E) (x\<lparr>rq_Header := h, rq_Body := b\<rparr>) = (x\<lparr>rq_Header := h, rq_Body := b\<rparr>, False)"
      "parse_form (en_mime E) (x\<lparr>rq_Header := h\<rparr>) = (x\<lparr>rq_Header := h\<rparr>, False)"
      if "rq_Body x \<noteq> NoBody" for b
      using x that by (auto intro: parse_form_done)
    show ?thesis
      using x again by (auto simp: httpRequestToProto_def c r1 Let_def split: prod.split if_splits)
  qed
  show ?thesis by (rule parsed) (simp add: e fp)
qed

end
