(* ===== verification/H1_Proxy.thy ===== *)
theory H1_Proxy
  imports Middleware
begin

text \<open>
  Proxying to H1. \<open>src/hostmapping/hostmapping.go\<close> gives the upstream host of a host name;
  \<open>src/handler/h1.go\<close> wraps the response writer for the reverse proxy, so that CORS headers of H1 are
  dropped and an empty error answer gets a body, and accounts for the outcome.

  \<open>httputil.ReverseProxy\<close> and the upstream server are the argument \<open>upstream\<close>: the operations the proxy
  makes on the writer it is given, for the URL and the request. A write is taken to write all bytes.
\<close>

section \<open>hostmapping.go\<close>

type_synonym mappings = "(string, string) gomap"

definition loadMappings :: "mappings \<Rightarrow> mappings \<Rightarrow> mappings" where
  "loadMappings config old = config"

definition strip_port :: "string \<Rightarrow> string" where
  "strip_port hostname =
     (case last_index CHR '':'' hostname of
        Some li \<Rightarrow> if li > 0 then take li hostname else hostname
      | None \<Rightarrow> hostname)"

definition hostmapping_Map :: "mappings \<Rightarrow> string \<Rightarrow> string" where
  "hostmapping_Map mappings hostname =
     (let host = strip_port hostname; s = mget mappings host
      in if s = '''' then ''v1-'' @ host else s)"

section \<open>h1.go: the response writer\<close>

definition proxyErrorPayload :: string where
  "proxyErrorPayload = ''{\"status\":false,\"payload\":\"Internal low-level service failure, cannot complete request\",\"debug\":{\"errorCode\":\"proxy error\"},\"code\":11}''"

definition corsResponseHeader :: "string \<Rightarrow> bool" where
  "corsResponseHeader key \<longleftrightarrow> has_prefix key ''Access-Control-''"

record h1_writer =
  h1_inner :: rwriter
  h1_header :: header
  h1_status :: int
  h1_written :: nat

definition h1_Write :: "string \<Rightarrow> h1_writer \<Rightarrow> h1_writer" where
  "h1_Write data rw =
     rw\<lparr>h1_inner := write_body (Bytes data) (h1_inner rw), h1_written := h1_written rw + length data\<rparr>"

definition copy_header :: "string \<times> string list \<Rightarrow> rwriter \<Rightarrow> rwriter" where
  "copy_header kv w =
     (case kv of (key, values) \<Rightarrow>
        if \<not> corsResponseHeader key then fold (add_hdr key) values w else w)"

definition h1_WriteHeader :: "int \<Rightarrow> h1_writer \<Rightarrow> h1_writer" where
  "h1_WriteHeader status rw =
     rw\<lparr>h1_inner := write_header status (fold copy_header (h1_header rw) (h1_inner rw)), h1_status := status\<rparr>"

definition h1_isError :: "h1_writer \<Rightarrow> bool" where
  "h1_isError rw \<longleftrightarrow> 500 \<le> h1_status rw \<and> h1_status rw < 600"

datatype h1_op = OpAdd string string | OpSet string string | OpWriteHeader int | OpWrite string

definition h1_op :: "h1_op \<Rightarrow> h1_writer \<Rightarrow> h1_writer" where
  "h1_op op rw =
     (case op of
        OpAdd k v \<Rightarrow> rw\<lparr>h1_header := header_add k v (h1_header rw)\<rparr>
      | OpSet k v \<Rightarrow> rw\<lparr>h1_header := header_set k v (h1_header rw)\<rparr>
      | OpWriteHeader st \<Rightarrow> h1_WriteHeader st rw
      | OpWrite s \<Rightarrow> h1_Write s rw)"

section \<open>h1.go: the handler\<close>

record upstream_url =
  up_Scheme :: string
  up_Host :: string

definition director :: "mappings \<Rightarrow> request \<Rightarrow> upstream_url" where
  "director m r = \<lparr>up_Scheme = ''https'', up_Host = hostmapping_Map m (rq_Host r)\<rparr>"

type_synonym upstream = "upstream_url \<Rightarrow> request \<Rightarrow> h1_op list"

definition v1Proxy :: "mappings \<Rightarrow> upstream \<Rightarrow> request \<Rightarrow> h1_writer \<Rightarrow> h1_writer" where
  "v1Proxy m up r rw = fold h1_op (up (director m r) r) rw"

text \<open>\<open>setupProxy\<close> sets up the shared proxy; times are in nanoseconds.\<close>

record proxy_transport =
  pt_DialTimeout :: int
  pt_ResponseHeaderTimeout :: int
  pt_MaxIdleConnsPerHost :: int

definition dialTimeout :: int where "dialTimeout = 5000000000"
definition responseTimeout :: int where "responseTimeout = 30000000000"
definition idleConnections :: int where "idleConnections = 5"

definition setupProxy :: proxy_transport where
  "setupProxy = \<lparr>pt_DialTimeout = dialTimeout, pt_ResponseHeaderTimeout = responseTimeout,
     pt_MaxIdleConnsPerHost = idleConnections\<rparr>"

text \<open>The deferred accounting: the outcome, the access counter and the hob.\<close>

definition h1_events :: "string \<Rightarrow> bool \<Rightarrow> request \<Rightarrow> event list" where
  "h1_events az success r =
     outcome_events az ''h1'' success (rq_Path r)
     @ [InstCounter (''access.h1.'' @ sanitizeKey (extractHobFromRequest (url_query r)) @ ''.'' @ sanitizeKey (rq_Path r))]
     @ instrumentHob (url_query r) ''''"

definition h1Handler :: "string \<Rightarrow> mappings \<Rightarrow> upstream \<Rightarrow> handler" where
  "h1Handler az m up r w =
     (let rw = v1Proxy m up r \<lparr>h1_inner = w, h1_header = [], h1_status = 0, h1_written = 0\<rparr>;
          rw' = (if h1_status rw = 500 \<and> h1_written rw = 0 then h1_Write proxyErrorPayload rw else rw)
      in (h1_inner rw', h1_events az (\<not> h1_isError rw') r))"

section \<open>Lemmas\<close>

lemma grows_copy_header: "rw_grows w (copy_header kv w)"
proof -
  have "rw_grows w (fold (add_hdr k) vs w)" for k vs by (rule grows_fold) (auto intro: grow_intros)
  then show ?thesis by (simp add: copy_header_def split: prod.split)
qed

lemma grows_h1_op: "rw_grows (h1_inner rw) (h1_inner (h1_op op rw))"
  by (cases op) (auto simp: h1_op_def h1_Write_def h1_WriteHeader_def
      intro!: grow_intros grows_fold grows_copy_header)

lemma grows_h1_ops: "rw_grows (h1_inner rw) (h1_inner (fold h1_op ops rw))"
  by (induction ops arbitrary: rw) (auto intro: grows_trans [OF grows_h1_op])

interpretation h1: http_handler "h1Handler az m up" for az m up
proof
  fix r w
  let ?rw0 = "\<lparr>h1_inner = w, h1_header = [], h1_status = 0, h1_written = 0\<rparr>"
  have "rw_grows w (h1_inner (v1Proxy m up r ?rw0))"
    using grows_h1_ops [of ?rw0 "up (director m r) r"] by (simp add: v1Proxy_def)
  then show "rw_grows w (fst (h1Handler az m up r w))"
    by (auto simp: h1Handler_def h1_Write_def Let_def intro: grow_intros)
qed

text \<open>The header map of the proxy's writer has canonical keys, once each.\<close>

definition canonical_map :: "header \<Rightarrow> bool" where
  "canonical_map h \<longleftrightarrow> wf_map h \<and> (\<forall>k\<in>fst ` set h. canonical_key k = k)"

lemma canonical_map_add: "canonical_map h \<Longrightarrow> canonical_map (header_add k v h)"
  by (auto simp: canonical_map_def header_add_def values_add_def distinct_update canonical_idem dest!: in_set_updateD)

lemma canonical_map_set: "canonical_map h \<Longrightarrow> canonical_map (header_set k v h)"
  by (auto simp: canonical_map_def header_set_def distinct_update canonical_idem dest!: in_set_updateD)

definition is_header_op :: "h1_op \<Rightarrow> bool" where
  "is_header_op op = (case op of OpAdd k v \<Rightarrow> True | OpSet k v \<Rightarrow> True | _ \<Rightarrow> False)"

definition header_after :: "h1_op list \<Rightarrow> header \<Rightarrow> header" where
  "header_after ops h = fold (\<lambda>op h. case op of OpAdd k v \<Rightarrow> header_add k v h | OpSet k v \<Rightarrow> header_set k v h
     | _ \<Rightarrow> h) ops h"

lemma canonical_header_after: "canonical_map h \<Longrightarrow> canonical_map (header_after ops h)"
  unfolding header_after_def
  by (induction ops arbitrary: h) (auto simp: canonical_map_add canonical_map_set split: h1_op.split)

lemma header_ops: "list_all is_header_op ops \<Longrightarrow> fold h1_op ops rw = rw\<lparr>h1_header := header_after ops (h1_header rw)\<rparr>"
  unfolding header_after_def
  by (induction ops arbitrary: rw) (auto simp: is_header_op_def h1_op_def split: h1_op.splits)

lemma vals_header_add: "vals (header_add k v h) k' = vals h k' @ (if k' = canonical_key k then [v] else [])"
  by (simp add: header_add_def)

lemma vals_add_hdrs:
  "vals (rw_Header (fold (add_hdr k) vs w)) k' = vals (rw_Header w) k' @ (if k' = canonical_key k then vs else [])"
  by (induction vs arbitrary: w) (auto simp: vals_header_add)

lemma vals_copy_headers:
  assumes "canonical_map h"
  shows "vals (rw_Header (fold copy_header h w)) k =
    vals (rw_Header w) k @ (if corsResponseHeader k then [] else vals h k)"
  using assms
proof (induction h arbitrary: w)
  case (Cons kv h)
  obtain k0 vs where kv: "kv = (k0, vs)" by (cases kv)
  have h: "canonical_map h" "canonical_key k0 = k0" "k0 \<notin> fst ` set h"
    using Cons.prems by (auto simp: canonical_map_def kv)
  have none: "vals h k0 = []" using h(3) by (simp add: vals_def map_of_eq_None_iff [symmetric] split: option.split)
  have hd: "vals ((k0, vs) # h) k = (if k = k0 then vs else vals h k)" by (simp add: vals_def)
  show ?case
    unfolding fold_simps comp_apply Cons.IH [OF h(1)]
    using h none by (auto simp: hd copy_header_def kv vals_add_hdrs)
qed (simp add: vals_def)

lemma rw_copy_headers [simp]:
  "rw_Status (fold copy_header h w) = rw_Status w" "rw_Body (fold copy_header h w) = rw_Body w"
proof -
  have a: "rw_Status (fold (add_hdr k) vs w) = rw_Status w" "rw_Body (fold (add_hdr k) vs w) = rw_Body w" for k vs w
    by (induction vs arbitrary: w) simp_all
  show "rw_Status (fold copy_header h w) = rw_Status w" "rw_Body (fold copy_header h w) = rw_Body w"
    by (induction h arbitrary: w) (auto simp: copy_header_def a split: prod.split)
qed

lemma write_ops:
  "fold h1_op (map OpWrite ws) rw = rw\<lparr>h1_inner := fold (\<lambda>s. write_body (Bytes s)) ws (h1_inner rw),
     h1_written := h1_written rw + length (concat ws)\<rparr>"
  by (induction ws arbitrary: rw) (auto simp: h1_op_def h1_Write_def)

lemma write_bodies:
  assumes "rw_Status w \<noteq> None"
  shows "rw_Status (fold (\<lambda>s. write_body (Bytes s)) ws w) = rw_Status w"
    and "rw_Sent (fold (\<lambda>s. write_body (Bytes s)) ws w) = rw_Sent w"
    and "rw_Body (fold (\<lambda>s. write_body (Bytes s)) ws w) = rw_Body w @ map Bytes ws"
  using assms by (induction ws arbitrary: w) (auto simp: rwriter.equality)

text \<open>A proxy answers with headers, a status line and the bytes of the body.\<close>

definition proxy_answer :: "h1_op list \<Rightarrow> int \<Rightarrow> string list \<Rightarrow> h1_op list" where
  "proxy_answer hdrs st ws = hdrs @ OpWriteHeader st # map OpWrite ws"

lemma h1Handler_answer:
  assumes "up (director m r) r = proxy_answer hdrs st ws" and "list_all is_header_op hdrs"
    and "rw_Status w = None"
  shows "rw_Status (fst (h1Handler az m up r w)) = Some st"
    and "vals (rw_Sent (fst (h1Handler az m up r w))) k =
      vals (rw_Header w) k @ (if corsResponseHeader k then [] else vals (header_after hdrs []) k)"
    and "rw_Body (fst (h1Handler az m up r w)) =
      rw_Body w @ map Bytes (if st = 500 \<and> concat ws = '''' then ws @ [proxyErrorPayload] else ws)"
    and "snd (h1Handler az m up r w) = h1_events az (\<not> (500 \<le> st \<and> st < 600)) r"
proof -
  let ?h = "header_after hdrs []"
  let ?w1 = "write_header st (fold copy_header ?h w)"
  define w2 where "w2 = fold (\<lambda>s. write_body (Bytes s)) ws ?w1"
  have can: "canonical_map ?h" by (rule canonical_header_after) (simp add: canonical_map_def)
  have rw: "v1Proxy m up r \<lparr>h1_inner = w, h1_header = [], h1_status = 0, h1_written = 0\<rparr> =
      \<lparr>h1_inner = w2, h1_header = ?h, h1_status = st, h1_written = length (concat ws)\<rparr>"
    by (simp add: v1Proxy_def assms(1) proxy_answer_def header_ops [OF assms(2)] write_ops w2_def)
      (simp add: h1_op_def h1_WriteHeader_def)
  have st: "rw_Status ?w1 = Some st" using assms(3) by simp
  have sent: "vals (rw_Sent ?w1) k = vals (rw_Header w) k @ (if corsResponseHeader k then [] else vals ?h k)"
    using assms(3) vals_copy_headers [OF can, of w k] by simp
  have w2: "rw_Status w2 = Some st" "rw_Body w2 = rw_Body w @ map Bytes ws"
    "vals (rw_Sent w2) k = vals (rw_Header w) k @ (if corsResponseHeader k then [] else vals ?h k)"
    using write_bodies [of ?w1 ws] st sent by (simp_all add: w2_def)
  show "rw_Status (fst (h1Handler az m up r w)) = Some st"
    and "vals (rw_Sent (fst (h1Handler az m up r w))) k =
      vals (rw_Header w) k @ (if corsResponseHeader k then [] else vals ?h k)"
    and "rw_Body (fst (h1Handler az m up r w)) =
      rw_Body w @ map Bytes (if st = 500 \<and> concat ws = '''' then ws @ [proxyErrorPayload] else ws)"
    and "snd (h1Handler az m up r w) = h1_events az (\<not> (500 \<le> st \<and> st < 600)) r"
    unfolding h1Handler_def rw Let_def
    by (auto simp: h1_Write_def h1_isError_def w2)
qed

section \<open>Properties\<close>

text \<open>The host H1 is reached under does not depend on the port of the request, and is the mapped one
  or, when there is none, the host with \<open>v1-\<close> before it.\<close>

theorem hostmapping_port:
  assumes "CHR '':'' \<notin> set host" and "CHR '':'' \<notin> set port" and "host \<noteq> ''''"
  shows "hostmapping_Map m (host @ '':'' @ port) = hostmapping_Map m host \<and>
    hostmapping_Map m host = (case map_of m host of Some s \<Rightarrow> if s = '''' then ''v1-'' @ host else s
                              | None \<Rightarrow> ''v1-'' @ host)"
proof -
  have "last_index CHR '':'' (host @ '':'' @ port) = Some (length host)"
    using last_index_append [OF assms(2), of host] by simp
  moreover have "last_index CHR '':'' host = None" using assms(1) by (simp add: last_index_None)
  ultimately show ?thesis
    using assms(3) by (auto simp: hostmapping_Map_def strip_port_def mget_def Let_def split: option.split)
qed

theorem hostmapping_port_witness:
  "hostmapping_Map [(''api.x.com'', ''h1.x.com'')] ''api.x.com:8080'' = ''h1.x.com''"
  using hostmapping_port [of "''api.x.com''" "''8080''" "[(''api.x.com'', ''h1.x.com'')]"] by simp

text \<open>Of the headers in an answer of H1 exactly the CORS headers are held back: for every header the
  client gets the values set before, followed by those of H1 unless the name begins with
  \<open>Access-Control-\<close>. The status is passed on.\<close>

theorem h1_headers:
  assumes "up (director m r) r = proxy_answer hdrs st ws" and "list_all is_header_op hdrs"
    and "rw_Status w = None"
  shows "rw_Status (fst (h1Handler az m up r w)) = Some st \<and>
    vals (rw_Sent (fst (h1Handler az m up r w))) k = vals (rw_Header w) k @
      (if has_prefix k ''Access-Control-'' then [] else vals (header_after hdrs []) k)"
  using h1Handler_answer(1,2) [where up = up and m = m and r = r, OF assms] by (simp add: corsResponseHeader_def)

definition test_upstream :: "h1_op list \<Rightarrow> upstream" where
  "test_upstream ops = (\<lambda>u r. ops)"

theorem h1_headers_witness:
  "vals (rw_Sent (fst (h1Handler ''a'' [] (test_upstream (proxy_answer [OpAdd ''access-control-allow-origin'' ''*'',
      OpAdd ''X-A'' ''1''] 200 [''ok''])) traced_request new_rwriter))) ''Access-Control-Allow-Origin'' = []"
  using h1_headers [of "test_upstream (proxy_answer [OpAdd ''access-control-allow-origin'' ''*'', OpAdd ''X-A'' ''1'']
      200 [''ok''])" "[]" traced_request "[OpAdd ''access-control-allow-origin'' ''*'', OpAdd ''X-A'' ''1'']" 200
      "[''ok'']" new_rwriter "''a''" "''Access-Control-Allow-Origin''"]
  by (simp add: test_upstream_def is_header_op_def new_rwriter_def has_prefix_def vals_def)



end
