(* ===== verification/Rpc.thy ===== *)
theory Rpc
  imports H2_Handler
begin

text \<open>
  \<open>src/handler/h2rpc.go\<close>: remote calls of any H2 service, posted as a form with a JSON text or as a
  protobuf message with the names in the query. Services of the kernel need an administrator.

  The handler may panic: \<open>ioutil.ReadAll\<close> of a nil body. The deferred accounting is done all the same, so
  the result is the writer or the panic, and the events.
\<close>

definition protoMime :: string where "protoMime = ''application/x-protobuf''"
definition defaultResponseMime :: string where "defaultResponseMime = ''application/json; charset=utf-8''"

definition post_required :: "env \<Rightarrow> api_error" where
  "post_required E =
     \<lparr>ae_ErrorType = fst (en_kind E BadRequest), ae_ErrorCode = ''com.HailoOSS.api.rpc.postrequired'',
      ae_ErrorDescription = ''Requests to the RPC endpoint must be POST-ed'',
      ae_ErrorContext = Some [''15''], ae_ErrorHttpCode = 405, ae_HttpHeaders = [(''Allow'', ''POST'')]\<rparr>"

text \<open>The names and the bytes of the call, before they are checked.\<close>

definition rpc_params :: "env \<Rightarrow> request \<Rightarrow> panic + (perror + string \<times> string \<times> bus_payload) \<times> request" where
  "rpc_params E r =
     (if header_get (rq_Header r) ''Content-Type'' = protoMime then
        (case rq_Body r of
           NoBody \<Rightarrow> Inl NilDeref
         | b \<Rightarrow> (case read_all b of (s, rest) \<Rightarrow>
             Inr (Inr (values_get (url_query r) ''service'', values_get (url_query r) ''endpoint'', ProtoPayload s),
                  r\<lparr>rq_Body := rest\<rparr>)))
      else (case parse_form (en_mime E) r of (r', bad) \<Rightarrow>
        if bad then
          Inr (Inl (platform_err E BadRequest ''com.HailoOSS.api.rpc.parseform'' ''Cannot parse form data.'' [''15'']), r')
        else (let json = form_get (rq_PostForm r') ''request''
              in Inr (Inr (form_get (rq_PostForm r') ''service'', form_get (rq_PostForm r') ''endpoint'',
                           JsonPayload (if json = '''' then ''{}'' else json)), r'))))"

definition httpToH2Request :: "env \<Rightarrow> request \<Rightarrow> panic + (perror + string \<times> string \<times> bus_payload) \<times> request" where
  "httpToH2Request E r =
     (case rpc_params E r of
        Inl p \<Rightarrow> Inl p
      | Inr (Inl e, r') \<Rightarrow> Inr (Inl e, r')
      | Inr (Inr (service, endpoint, pl), r') \<Rightarrow>
          if service = '''' then
            Inr (Inl (platform_err E BadRequest ''com.HailoOSS.api.rpc.missingservice''
                        ''Missing 'service' parameter.'' [''15'']), r')
          else if endpoint = '''' then
            Inr (Inl (platform_err E BadRequest ''com.HailoOSS.api.rpc.missingendpoint''
                        ''Missing 'endpoint' parameter.'' [''15'']), r')
          else (case en_new_rpc E service endpoint pl of
                  Some msg \<Rightarrow> Inr (Inl (platform_err E BadRequest ''com.HailoOSS.api.rpc.badrequest'' msg []), r')
                | None \<Rightarrow> Inr (Inr (service, endpoint, pl), r')))"

definition rpc_session :: "request \<Rightarrow> string" where
  "rpc_session r =
     (let sessId = values_get (url_query r) ''session_id''
      in if sessId = '''' then form_get (rq_Form r) ''session_id'' else sessId)"

text \<open>\<open>en_admin\<close> tells whether the scope is authenticated as an administrator, recovered from the session or,
  for the empty session, as it is made.\<close>

definition authorisedFor :: "env \<Rightarrow> request \<Rightarrow> string \<Rightarrow> perror option" where
  "authorisedFor E r service =
     (if \<not> has_prefix service ''com.HailoOSS.kernel.'' then None
      else if en_admin E (rpc_session r) then None
      else Some (platform_err E Forbidden ''com.HailoOSS.api.rpc.auth'' ''Permission denied.'' [''5'']))"

definition rpc_fix_type :: "env \<Rightarrow> request \<Rightarrow> request" where
  "rpc_fix_type E r =
     (case en_mime E (header_get (rq_Header r) ''Content-Type'') of
        Some ct \<Rightarrow> if ct = '''' then r\<lparr>rq_Header := header_set ''Content-Type'' form_mime (rq_Header r)\<rparr> else r
      | None \<Rightarrow> r\<lparr>rq_Header := header_set ''Content-Type'' form_mime (rq_Header r)\<rparr>)"

definition rpc_run :: "env \<Rightarrow> request \<Rightarrow> rwriter \<Rightarrow> (panic + rwriter) \<times> event list \<times> bool" where
  "rpc_run E r w =
     (case start_trace E r of (t, ev0) \<Rightarrow>
        if rq_Method r \<noteq> ''POST'' then
          (Inr (write_error E (IsApi (post_required E)) defaultResponseMime t w), ev0, False)
        else
          (let r1 = rpc_fix_type E r;
               mime = (if header_get (rq_Header r1) ''Content-Type'' = protoMime then protoMime else defaultResponseMime)
           in (case httpToH2Request E r1 of
                 Inl p \<Rightarrow> (Inl p, ev0, False)
               | Inr (Inl perr, r2) \<Rightarrow> (Inr (write_error E perr mime t w), ev0, False)
               | Inr (Inr (service, endpoint, pl), r2) \<Rightarrow>
                   (case authorisedFor E r2 service of
                      Some perr \<Rightarrow> (Inr (write_error E perr mime t w), ev0, False)
                    | None \<Rightarrow>
                        (let c = h2_call E service endpoint pl t r2;
                             ev1 = ev0 @ [BusCall c]
                         in (case en_call_rpc E c of
                               Inl perr \<Rightarrow> (Inr (write_error E perr mime t w), ev1, False)
                             | Inr body \<Rightarrow>
                                 (Inr (write_body (Bytes body) (write_header 200
                                    (set_hdr ''Content-Type'' mime (trace_Write t w)))), ev1, True)))))))"

definition rpcHandler :: "env \<Rightarrow> request \<Rightarrow> rwriter \<Rightarrow> (panic + rwriter) \<times> event list" where
  "rpcHandler E r w =
     (case rpc_run E r w of (res, evs, success) \<Rightarrow>
        (res, evs @ outcome_events (en_az E) ''h2'' success (rq_Path r)))"

section \<open>Lemmas\<close>

lemma rpc_grows: "fst (rpcHandler E r w) = Inr w' \<Longrightarrow> rw_grows w w'"
  by (auto simp: rpcHandler_def rpc_run_def write_error_def Let_def
      split: prod.splits sum.splits option.splits if_splits intro!: grow_intros)

lemma start_trace_calls: "start_trace E r = (t, ev) \<Longrightarrow> bus_calls ev = []"
  by (auto simp: start_trace_def split: prod.splits option.splits)

lemma httpToH2Request_names:
  "httpToH2Request E r = Inr (Inr (service, endpoint, pl), r') \<Longrightarrow>
     service \<noteq> '''' \<and> endpoint \<noteq> '''' \<and> en_new_rpc E service endpoint pl = None \<and>
     rpc_params E r = Inr (Inr (service, endpoint, pl), r')"
  by (auto simp: httpToH2Request_def split: sum.splits prod.splits if_splits option.splits)

text \<open>The calls of the handler: none, or the one made after all checks have passed.\<close>

lemma rpc_calls:
  "bus_calls (snd (rpcHandler E r w)) = [] \<or>
   (\<exists>service endpoint pl r'. rq_Method r = ''POST'' \<and>
      httpToH2Request E (rpc_fix_type E r) = Inr (Inr (service, endpoint, pl), r') \<and>
      authorisedFor E r' service = None \<and>
      bus_calls (snd (rpcHandler E r w)) = [h2_call E service endpoint pl (fst (start_trace E r)) r'])"
proof -
  obtain t ev0 where t: "start_trace E r = (t, ev0)" by (cases "start_trace E r")
  note ev0 = start_trace_calls [OF t]
  show ?thesis
  proof (cases "rq_Method r = ''POST''")
    case False
    then show ?thesis using ev0 by (simp add: rpcHandler_def rpc_run_def t)
  next
    case True
    show ?thesis
    proof (cases "httpToH2Request E (rpc_fix_type E r)")
      case (Inl p)
      then show ?thesis using True ev0 by (simp add: rpcHandler_def rpc_run_def t Let_def)
    next
      case (Inr x)
      obtain y r' where x: "x = (y, r')" by (cases x)
      show ?thesis
      proof (cases y)
        case (Inl e)
        then show ?thesis using True ev0 Inr x by (simp add: rpcHandler_def rpc_run_def t Let_def)
      next
        case y: (Inr z)
        obtain service endpoint pl where z: "z = (service, endpoint, pl)" by (cases z) auto
        show ?thesis
        proof (cases "authorisedFor E r' service")
          case None
          then show ?thesis using True ev0 Inr x y z
            by (simp add: rpcHandler_def rpc_run_def t Let_def split: sum.split)
        next
          case (Some e)
          then show ?thesis using True ev0 Inr x y z by (simp add: rpcHandler_def rpc_run_def t Let_def)
        qed
      qed
    qed
  qed
qed

section \<open>Properties\<close>

text \<open>C29: services of the kernel are protected: every call the handler makes to a service under
  \<open>com.HailoOSS.kernel.\<close> is made for a session, named in the query or the form, that is an
  administrator's. No call is made for a request other than \<open>POST\<close>, and no call without a service and an
  endpoint.\<close>

theorem rpc_kernel_guard:
  assumes "c \<in> set (bus_calls (snd (rpcHandler E r w)))"
  shows "rq_Method r = ''POST'' \<and> bc_Service c \<noteq> '''' \<and> bc_Endpoint c \<noteq> '''' \<and>
    (has_prefix (bc_Service c) ''com.HailoOSS.kernel.'' \<longrightarrow>
       (\<exists>names r'. httpToH2Request E (rpc_fix_type E r) = Inr (Inr names, r') \<and>
          rq_RawQuery r' = rq_RawQuery r \<and> en_admin E (rpc_session r')))"
proof -
  from rpc_calls [of E r w] assms obtain service endpoint pl r' where m: "rq_Method r = ''POST''"
    and h: "httpToH2Request E (rpc_fix_type E r) = Inr (Inr (service, endpoint, pl), r')"
    and a: "authorisedFor E r' service = None" and c: "c = h2_call E service endpoint pl (fst (start_trace E r)) r'"
    by auto
  note names = httpToH2Request_names [OF h]
  have "rq_RawQuery (rpc_fix_type E r) = rq_RawQuery r"
    by (simp add: rpc_fix_type_def split: option.split)
  moreover have "rq_RawQuery r' = rq_RawQuery (rpc_fix_type E r)"
    using names by (auto simp: rpc_params_def Let_def parse_form_frame split: if_splits body.splits prod.splits)
  ultimately have "rq_RawQuery r' = rq_RawQuery r" by simp
  with m a c names h show ?thesis
    by (auto simp: h2_call_def authorisedFor_def split: if_splits)
qed

definition rpc_request :: "string \<Rightarrow> request" where
  "rpc_request q = plain_request\<lparr>rq_Method := ''POST'', rq_Path := ''/rpc'', rq_RawQuery := q,
     rq_Body := Body '''', rq_Header := [(''Content-Type'', [protoMime])]\<rparr>"

definition rpc_env :: env where
  "rpc_env = test_env\<lparr>en_mime := (\<lambda>c. Some c)\<rparr>"

theorem rpc_kernel_guard_witness:
  "\<exists>c. bus_calls (snd (rpcHandler rpc_env (rpc_request
      ''service=com.HailoOSS.kernel.x&endpoint=y&session_id=root'') new_rwriter)) = [c] \<and>
    (\<exists>r'. rq_RawQuery r' = ''service=com.HailoOSS.kernel.x&endpoint=y&session_id=root'' \<and>
       en_admin rpc_env (rpc_session r'))"
proof -
  let ?q = "''service=com.HailoOSS.kernel.x&endpoint=y&session_id=root''"
  have "map bc_Service (bus_calls (snd (rpcHandler rpc_env (rpc_request ?q) new_rwriter))) = [''com.HailoOSS.kernel.x'']"
    by code_simp
  then obtain c where c: "bus_calls (snd (rpcHandler rpc_env (rpc_request ?q) new_rwriter)) = [c]"
    "bc_Service c = ''com.HailoOSS.kernel.x''" by (auto simp: map_eq_Cons_conv)
  have q: "rq_RawQuery (rpc_request ?q) = ?q" by (simp add: rpc_request_def plain_request_def)
  from rpc_kernel_guard [of c rpc_env "rpc_request ?q" new_rwriter] c q show ?thesis
    by (auto simp: has_prefix_def)
qed

text \<open>A request that is not posted is answered with 405 and the header \<open>Allow: POST\<close>, in JSON.\<close>

theorem rpc_post_only:
  assumes "rq_Method r \<noteq> ''POST''" and "rw_Status w = None"
  shows "\<exists>w'. fst (rpcHandler E r w) = Inr w' \<and> rw_Status w' = Some 405 \<and>
    header_get (rw_Sent w') ''Allow'' = ''POST'' \<and> header_get (rw_Sent w') ''Content-Type'' = defaultContentType \<and>
    bus_calls (snd (rpcHandler E r w)) = []"
proof -
  obtain t ev0 where t: "start_trace E r = (t, ev0)" by (cases "start_trace E r")
  have k: "canonical_key ''Allow'' \<noteq> canonical_key ''Content-Type''" by code_simp
  have mime: "defaultResponseMime \<noteq> profobufContentType"
    by (simp add: defaultResponseMime_def profobufContentType_def)
  have st: "rw_Status (trace_Write t w) = None" using assms(2) by (simp add: trace_Write_def)
  show ?thesis
    using assms(1) st mime k start_trace_calls [OF t]
    by (simp add: rpcHandler_def rpc_run_def t write_error_def errors_Write_def writeJsonError_def
        to_api_error_def post_required_def set_headers_def ae_HttpCode_def header_get_set Let_def split: prod.split)
qed

theorem rpc_post_only_witness:
  "\<exists>w'. fst (rpcHandler test_env plain_request new_rwriter) = Inr w' \<and> rw_Status w' = Some 405"
  using rpc_post_only [of plain_request new_rwriter test_env]
  by (auto simp: plain_request_def new_rwriter_def)

text \<open>The session that counts for the kernel guard is not the one that is passed on. An administrator
  known by a token header alone, whose session the message carries for every other service, is refused:
  the guard looks at the query and the form only.\<close>

theorem rpc_header_session_refused:
  assumes "values_get (url_query r) ''session_id'' = ''''" and "form_get (rq_Form r) ''session_id'' = ''''"
    and "\<not> en_admin E ''''" and "has_prefix service ''com.HailoOSS.kernel.''"
  shows "authorisedFor E r service \<noteq> None"
  using assms by (simp add: authorisedFor_def rpc_session_def Let_def)

theorem rpc_header_session_refused_witness:
  "let r = plain_request\<lparr>rq_Header := [(''X-Api-Token'', [''root''])]\<rparr>
   in authorisedFor test_env r ''com.HailoOSS.kernel.x'' \<noteq> None \<and>
      en_admin test_env (SessionId headerExtractors (Some r))"
proof -
  let ?r = "plain_request\<lparr>rq_Header := [(''X-Api-Token'', [''root''])]\<rparr>"
  have "en_admin test_env (SessionId headerExtractors (Some ?r))"
    "values_get (url_query ?r) ''session_id'' = ''''" by code_simp+
  moreover have "form_get (rq_Form ?r) ''session_id'' = ''''" "\<not> en_admin test_env ''''"
    by (simp_all add: plain_request_def form_get_def test_env_def)
  ultimately show ?thesis
    using rpc_header_session_refused [of ?r test_env "''com.HailoOSS.kernel.x''"] by (simp add: has_prefix_def Let_def)
qed

text \<open>A protobuf call whose body cannot be read panics. The router reads the body before, to find the
  hob, and leaves nil in its place when that fails; \<open>httpToH2Request\<close> then reads from nil. The request is
  counted as a failure.\<close>

theorem rpc_body_panic:
  assumes "rq_Body r = BadBody" and "rq_Method r = ''POST''"
    and "header_get (rq_Header r) ''Content-Type'' = protoMime" and "en_mime E protoMime = Some protoMime"
  shows "fst (rpcHandler E (ex_req (settle mime hx (newExtractor r))) w) = Inl NilDeref \<and>
    StatsRecord (rq_Path r) False \<in> set (snd (rpcHandler E (ex_req (settle mime hx (newExtractor r))) w))"
proof -
  have e: "ex_req (settle mime hx (newExtractor r)) = r\<lparr>rq_Body := NoBody\<rparr>"
    using assms(1) by (simp add: settle_def newExtractor_def doExtraction_eq Let_def)
  have f: "rpc_fix_type E (r\<lparr>rq_Body := NoBody\<rparr>) = r\<lparr>rq_Body := NoBody\<rparr>"
    using assms(3,4) by (simp add: rpc_fix_type_def protoMime_def)
  obtain t ev0 where t: "start_trace E (r\<lparr>rq_Body := NoBody\<rparr>) = (t, ev0)"
    by (cases "start_trace E (r\<lparr>rq_Body := NoBody\<rparr>)")
  show ?thesis
    using assms(2,3)
    by (simp add: rpcHandler_def rpc_run_def e t f httpToH2Request_def rpc_params_def outcome_events_def Let_def)
qed

theorem rpc_body_panic_witness:
  "fst (rpcHandler rpc_env (ex_req (settle test_mime headerExtractors (newExtractor
     ((rpc_request '''')\<lparr>rq_Body := BadBody\<rparr>)))) new_rwriter) = Inl NilDeref"
proof -
  have "header_get (rq_Header (rpc_request '''')) ''Content-Type'' = protoMime" by code_simp
  then show ?thesis
    using rpc_body_panic [of "(rpc_request '''')\<lparr>rq_Body := BadBody\<rparr>" rpc_env test_mime headerExtractors new_rwriter]
    by (simp add: rpc_request_def rpc_env_def)
qed

end
