(* ===== verification/Control_Plane.thy ===== *)
theory Control_Plane
  imports Router
begin

text \<open>
  \<open>src/controlplane/controlplane.go\<close>: loading the configuration. \<open>tryLoad\<close> parses the raw
  configuration, sorts and validates it, and installs it as a whole when its hash differs from the
  loaded one; a copy goes to disk by way of a temporary file. \<open>loadCycle\<close> repeats it until it
  succeeds or the control plane is dying; \<open>New\<close> runs it once and then on every change.

  The configuration service (\<open>config.Raw\<close>), the JSON decoder (\<open>unmarshal\<close>) and the hash library
  (\<open>deephash\<close>) are arguments. A load attempt \<open>attempt\<close> is what the environment shows to one turn of
  the loop: whether the tomb is dying, the raw configuration, the order in which the \<open>range\<close> over the
  rules visits them this time, and which file operations fail.
\<close>

section \<open>Parsed and loaded configuration\<close>

record parsed_config =
  pc_Rules :: rules
  pc_Regions :: regions
  pc_HobRegions :: hob_regions
  pc_ConfigVersion :: rat
  pc_HobModes :: hob_modes

text \<open>\<open>int64(f)\<close> on amd64: truncation, and the least integer for a value out of range.\<close>

definition int64_of_f64 :: "rat \<Rightarrow> int" where
  "int64_of_f64 q =
     (let t = (if q < 0 then - \<lfloor>- q\<rfloor> else \<lfloor>q\<rfloor>)
      in if - (2 ^ 63) \<le> t \<and> t < 2 ^ 63 then t else - (2 ^ 63))"

datatype fs_op = MkdirAll | TempFile | WriteFile | Rename

record file_system =
  fs_target :: "string option"
  fs_temps :: "string list"

record control_plane =
  cp_loaded :: "cp_config option"
  cp_fs :: file_system

definition loadedConfig :: "control_plane \<Rightarrow> cp_config" where
  "loadedConfig cp = (case cp_loaded cp of Some c \<Rightarrow> c | None \<Rightarrow> empty_config)"

definition currentHash :: "control_plane \<Rightarrow> string" where
  "currentHash cp = cf_hash (loadedConfig cp)"

text \<open>The accessors; the first two are also called on a nil control plane.\<close>

definition cp_Regions :: "control_plane option \<Rightarrow> regions option" where
  "cp_Regions cp = (case cp of None \<Rightarrow> None
     | Some cp \<Rightarrow> Some (filter (\<lambda>(k, v). v \<noteq> None) (cf_regions (loadedConfig cp))))"

definition cp_HobRegions :: "control_plane option \<Rightarrow> hob_regions option" where
  "cp_HobRegions cp = map_option (\<lambda>cp. cf_hobRegions (loadedConfig cp)) cp"

definition cp_Rules :: "control_plane \<Rightarrow> sorted_rules" where
  "cp_Rules cp = cf_rules (loadedConfig cp)"

definition cp_HobModes :: "control_plane \<Rightarrow> hob_modes" where
  "cp_HobModes cp = cf_hobModes (loadedConfig cp)"

section \<open>saveConfigToFile\<close>

text \<open>The file operations that fail are given by \<open>fails\<close>; a failed write leaves \<open>part\<close> of the bytes
  in the temporary file. The result tells whether an error is returned.\<close>

definition saveConfigToFile ::
    "(fs_op \<Rightarrow> bool) \<Rightarrow> string \<Rightarrow> string \<Rightarrow> file_system \<Rightarrow> bool \<times> file_system" where
  "saveConfigToFile fails part c fs =
     (if fails MkdirAll then (True, fs)
      else if fails TempFile then (True, fs)
      else if fails WriteFile then (True, fs\<lparr>fs_temps := part # fs_temps fs\<rparr>)
      else if fails Rename then (True, fs\<lparr>fs_temps := c # fs_temps fs\<rparr>)
      else (False, fs\<lparr>fs_target := Some c\<rparr>))"

section \<open>tryLoad and loadCycle\<close>

datatype load_error = ZeroLength | BadJson | NoRules | NoRegions

record attempt =
  at_dying :: bool
  at_raw :: string
  at_range :: "nat list"
  at_fails :: "fs_op \<Rightarrow> bool"
  at_part :: string

type_synonym hasher = "sorted_rules \<times> regions \<times> hob_regions \<times> int \<times> hob_modes \<Rightarrow> string"

definition tryLoad ::
    "(string \<Rightarrow> parsed_config option) \<Rightarrow> hasher \<Rightarrow> attempt \<Rightarrow> control_plane
       \<Rightarrow> panic + load_error option \<times> control_plane" where
  "tryLoad unmarshal hash a cp =
     (if at_raw a = '''' then Inr (Some ZeroLength, cp)
      else (case unmarshal (at_raw a) of
        None \<Rightarrow> Inr (Some BadJson, cp)
      | Some p \<Rightarrow>
        (case Rules_Sort (range_order (at_range a) (pc_Rules p)) of
          Inl e \<Rightarrow> Inl e
        | Inr srt \<Rightarrow>
          (let version = int64_of_f64 (pc_ConfigVersion p)
           in if \<not> SortedRules_Validate srt then Inr (Some NoRules, cp)
              else if \<not> Regions_Validate (pc_Regions p) then Inr (Some NoRegions, cp)
              else (let newHash = hash (srt, pc_Regions p, pc_HobRegions p, version, pc_HobModes p)
                in if newHash = currentHash cp then Inr (None, cp)
                   else Inr (None,
                     cp\<lparr>cp_loaded := Some \<lparr>cf_rules = srt, cf_regions = pc_Regions p,
                            cf_hobRegions = pc_HobRegions p, cf_hobModes = pc_HobModes p,
                            cf_version = version, cf_hash = newHash\<rparr>,
                        cp_fs := snd (saveConfigToFile (at_fails a) (at_part a) (at_raw a) (cp_fs cp))\<rparr>))))))"

text \<open>\<open>loadCycle\<close> over the attempts it gets to make: \<open>None\<close> while it has not returned.\<close>

fun loadCycle ::
    "(string \<Rightarrow> parsed_config option) \<Rightarrow> hasher \<Rightarrow> attempt list \<Rightarrow> control_plane
       \<Rightarrow> (panic + control_plane) option" where
  "loadCycle unmarshal hash [] cp = None"
| "loadCycle unmarshal hash (a # as) cp =
     (if at_dying a then Some (Inr cp)
      else (case tryLoad unmarshal hash a cp of
              Inl e \<Rightarrow> Some (Inl e)
            | Inr (err, cp') \<Rightarrow> if err = None then Some (Inr cp') else loadCycle unmarshal hash as cp'))"

text \<open>\<open>New\<close>: the first load, whose error is only logged, and then one cycle for every notification.\<close>

definition new_cp :: "file_system \<Rightarrow> control_plane" where
  "new_cp fs = \<lparr>cp_loaded = None, cp_fs = fs\<rparr>"

inductive cp_reachable ::
    "(string \<Rightarrow> parsed_config option) \<Rightarrow> hasher \<Rightarrow> control_plane \<Rightarrow> bool"
  for unmarshal :: "string \<Rightarrow> parsed_config option" and hash :: hasher where
  start: "cp_reachable unmarshal hash (new_cp fs)"
| first_load: "cp_reachable unmarshal hash cp \<Longrightarrow> tryLoad unmarshal hash a cp = Inr (err, cp') \<Longrightarrow>
    cp_reachable unmarshal hash cp'"
| change: "cp_reachable unmarshal hash cp \<Longrightarrow> loadCycle unmarshal hash as cp = Some (Inr cp') \<Longrightarrow>
    cp_reachable unmarshal hash cp'"

section \<open>Lemmas\<close>

text \<open>What a loaded configuration is known to be: at least one rule and one region, and rules in
  order (a nil rule can only be there alone).\<close>

definition config_valid :: "cp_config \<Rightarrow> bool" where
  "config_valid c \<longleftrightarrow> cf_rules c \<noteq> [] \<and> cf_regions c \<noteq> [] \<and>
     (cf_rules c = [None] \<or> (\<exists>rs. cf_rules c = map Some rs \<and> rules_ordered rs))"

definition cp_valid :: "control_plane \<Rightarrow> bool" where
  "cp_valid cp \<longleftrightarrow> (\<forall>c. cp_loaded cp = Some c \<longrightarrow> config_valid c)"

lemma Rules_Sort_cases:
  assumes "Rules_Sort rs = Inr srt"
  shows "srt = [None] \<or>
    (\<exists>zs. srt = map Some zs \<and> rules_ordered zs \<and> mset srt = mset (map snd rs))"
proof (cases "None \<in> set (map snd rs)")
  case True
  then have "\<not> 2 \<le> length rs" using assms Rules_Sort_nil [of rs] by auto
  with True obtain r where "rs = [r]" "snd r = None" by (cases rs; cases "tl rs") auto
  with assms Rules_Sort_single [of rs None] show ?thesis by simp
next
  case False
  then obtain xs where xs: "map snd rs = map Some xs" by (metis ex_map_conv not_None_eq)
  from Rules_Sort_Some [OF xs] Rules_Sort_keeps [OF assms] assms show ?thesis by auto
qed

lemma tryLoad_error_keeps:
  "tryLoad unmarshal hash a cp = Inr (Some err, cp') \<Longrightarrow> cp' = cp"
  by (auto simp: tryLoad_def Let_def split: if_splits option.splits sum.splits)

lemma tryLoad_success:
  assumes "tryLoad unmarshal hash a cp = Inr (None, cp')"
  obtains p srt where "unmarshal (at_raw a) = Some p" and "Rules_Sort (range_order (at_range a) (pc_Rules p)) = Inr srt"
    and "srt \<noteq> []" and "pc_Regions p \<noteq> []"
    and "cf_hash (loadedConfig cp') =
      hash (srt, pc_Regions p, pc_HobRegions p, int64_of_f64 (pc_ConfigVersion p), pc_HobModes p)"
    and "if currentHash cp = cf_hash (loadedConfig cp') then cp' = cp else
      (cp_loaded cp' = Some \<lparr>cf_rules = srt, cf_regions = pc_Regions p,
         cf_hobRegions = pc_HobRegions p, cf_hobModes = pc_HobModes p,
         cf_version = int64_of_f64 (pc_ConfigVersion p), cf_hash = cf_hash (loadedConfig cp')\<rparr> \<and>
       cp_fs cp' = snd (saveConfigToFile (at_fails a) (at_part a) (at_raw a) (cp_fs cp)))"
proof -
  from assms obtain p where p: "at_raw a \<noteq> ''''" "unmarshal (at_raw a) = Some p"
    by (auto simp: tryLoad_def split: if_splits option.splits)
  with assms obtain srt where srt: "Rules_Sort (range_order (at_range a) (pc_Rules p)) = Inr srt"
    by (auto simp: tryLoad_def split: sum.splits)
  let ?h = "hash (srt, pc_Regions p, pc_HobRegions p, int64_of_f64 (pc_ConfigVersion p), pc_HobModes p)"
  from assms p srt have ok: "srt \<noteq> []" "pc_Regions p \<noteq> []"
    by (auto simp: tryLoad_def Let_def SortedRules_Validate_def Regions_Validate_def split: if_splits)
  show ?thesis
  proof (cases "?h = currentHash cp")
    case True
    with assms p srt ok have "cp' = cp"
      by (simp add: tryLoad_def Let_def SortedRules_Validate_def Regions_Validate_def)
    with True show ?thesis by (intro that [OF p(2) srt ok]) (simp_all add: currentHash_def)
  next
    case False
    with assms p srt ok have c: "cp' = cp\<lparr>cp_loaded := Some \<lparr>cf_rules = srt, cf_regions = pc_Regions p,
        cf_hobRegions = pc_HobRegions p, cf_hobModes = pc_HobModes p,
        cf_version = int64_of_f64 (pc_ConfigVersion p), cf_hash = ?h\<rparr>,
      cp_fs := snd (saveConfigToFile (at_fails a) (at_part a) (at_raw a) (cp_fs cp))\<rparr>"
      by (simp add: tryLoad_def Let_def SortedRules_Validate_def Regions_Validate_def)
    then have h: "cf_hash (loadedConfig cp') = ?h" by (simp add: loadedConfig_def)
    show ?thesis by (rule that [OF p(2) srt ok h]) (use c h False in simp)
  qed
qed

lemma tryLoad_valid:
  assumes "cp_valid cp" and "tryLoad unmarshal hash a cp = Inr (err, cp')"
  shows "cp_valid cp'"
proof (cases err)
  case None
  with assms(2) have "tryLoad unmarshal hash a cp = Inr (None, cp')" by simp
  then show ?thesis
  proof (rule tryLoad_success)
    fix p srt
    assume "Rules_Sort (range_order (at_range a) (pc_Rules p)) = Inr srt" and "srt \<noteq> []" and "pc_Regions p \<noteq> []"
      and "if currentHash cp = cf_hash (loadedConfig cp') then cp' = cp else (cp_loaded cp' = Some \<lparr>cf_rules = srt, cf_regions = pc_Regions p,
         cf_hobRegions = pc_HobRegions p, cf_hobModes = pc_HobModes p,
         cf_version = int64_of_f64 (pc_ConfigVersion p), cf_hash = cf_hash (loadedConfig cp')\<rparr> \<and>
       cp_fs cp' = snd (saveConfigToFile (at_fails a) (at_part a) (at_raw a) (cp_fs cp)))"
    then show ?thesis using assms(1) Rules_Sort_cases [of "range_order (at_range a) (pc_Rules p)" srt]
      by (auto simp: cp_valid_def config_valid_def split: if_splits)
  qed
next
  case (Some e)
  with assms tryLoad_error_keeps show ?thesis by blast
qed

lemma loadCycle_valid:
  "cp_valid cp \<Longrightarrow> loadCycle unmarshal hash as cp = Some (Inr cp') \<Longrightarrow> cp_valid cp'"
proof (induction as arbitrary: cp)
  case (Cons a as)
  show ?case
  proof (cases "at_dying a")
    case False
    with Cons.prems(2) obtain err cp1 where t: "tryLoad unmarshal hash a cp = Inr (err, cp1)"
      by (auto split: sum.splits)
    from tryLoad_valid [OF Cons.prems(1) t] have v: "cp_valid cp1" .
    with Cons.IH [OF v] Cons.prems(2) False t show ?thesis by (auto split: if_splits)
  qed (use Cons.prems in simp)
qed simp

lemma cp_reachable_valid: "cp_reachable unmarshal hash cp \<Longrightarrow> cp_valid cp"
proof (induction rule: cp_reachable.induct)
  case (start fs)
  show ?case by (simp add: cp_valid_def new_cp_def)
qed (blast intro: tryLoad_valid loadCycle_valid)+

lemma save_atomic:
  "saveConfigToFile fails part c fs = (err, fs') \<Longrightarrow>
     (err \<longrightarrow> fs_target fs' = fs_target fs) \<and> (\<not> err \<longrightarrow> fs_target fs' = Some c)"
  by (auto simp: saveConfigToFile_def split: if_splits)

text \<open>An attempt that ends the cycle: the tomb is dying, or the configuration can be installed.\<close>

definition loadable :: "(string \<Rightarrow> parsed_config option) \<Rightarrow> string \<Rightarrow> bool" where
  "loadable unmarshal raw \<longleftrightarrow> raw \<noteq> '''' \<and>
     (case unmarshal raw of None \<Rightarrow> False
      | Some p \<Rightarrow> pc_Rules p \<noteq> [] \<and> pc_Regions p \<noteq> [] \<and>
          (length (pc_Rules p) = 1 \<or> None \<notin> snd ` set (pc_Rules p)))"

lemma Rules_Sort_defined:
  assumes "length rs = 1 \<or> None \<notin> snd ` set rs"
  shows "\<exists>srt. Rules_Sort rs = Inr srt \<and> length srt = length rs"
proof (cases "Rules_Sort rs")
  case (Inl e)
  with assms show ?thesis by (simp add: Rules_Sort_panics)
next
  case (Inr srt)
  have "length srt = length rs" using mset_eq_length [OF Rules_Sort_keeps [OF Inr]] by simp
  with Inr show ?thesis by simp
qed

lemma tryLoad_loadable:
  assumes "loadable unmarshal (at_raw a)"
  shows "\<exists>cp'. tryLoad unmarshal hash a cp = Inr (None, cp')"
proof -
  from assms obtain p where p: "unmarshal (at_raw a) = Some p" "at_raw a \<noteq> ''''" "pc_Rules p \<noteq> []"
    "pc_Regions p \<noteq> []" "length (pc_Rules p) = 1 \<or> None \<notin> snd ` set (pc_Rules p)"
    by (auto simp: loadable_def split: option.splits)
  have "length (range_order (at_range a) (pc_Rules p)) = 1 \<or> None \<notin> snd ` set (range_order (at_range a) (pc_Rules p))"
    using p(5) by simp
  from Rules_Sort_defined [OF this] obtain srt where "Rules_Sort (range_order (at_range a) (pc_Rules p)) = Inr srt"
    "length srt = length (pc_Rules p)" by auto
  with p show ?thesis
    by (auto simp: tryLoad_def Let_def SortedRules_Validate_def Regions_Validate_def)
qed

text \<open>A configuration that brings the process down: it has a null rule beside another one.\<close>

definition null_rule :: "parsed_config \<Rightarrow> bool" where
  "null_rule p \<longleftrightarrow> 2 \<le> length (pc_Rules p) \<and> None \<in> snd ` set (pc_Rules p)"

definition fatal_raw :: "(string \<Rightarrow> parsed_config option) \<Rightarrow> string \<Rightarrow> bool" where
  "fatal_raw unmarshal raw \<longleftrightarrow>
     raw \<noteq> '''' \<and> (case unmarshal raw of None \<Rightarrow> False | Some p \<Rightarrow> null_rule p)"

lemma Rules_Sort_null: "Rules_Sort (range_order ns (pc_Rules p)) = Inl e \<longleftrightarrow> null_rule p \<and> e = NilDeref"
  by (auto simp: Rules_Sort_panics null_rule_def)

lemma tryLoad_fatal:
  "tryLoad unmarshal hash a cp = Inl e \<longleftrightarrow> fatal_raw unmarshal (at_raw a) \<and> e = NilDeref"
proof (cases "unmarshal (at_raw a)")
  case (Some p)
  show ?thesis
  proof (cases "Rules_Sort (range_order (at_range a) (pc_Rules p))")
    case (Inl e')
    with Rules_Sort_null [of "at_range a" p e'] Some show ?thesis by (auto simp: tryLoad_def fatal_raw_def)
  next
    case (Inr srt)
    with Rules_Sort_null [of "at_range a" p NilDeref] Some show ?thesis
      by (simp add: tryLoad_def fatal_raw_def Let_def)
  qed
qed (simp add: tryLoad_def fatal_raw_def)

lemma tryLoad_panics:
  "(\<exists>e. tryLoad unmarshal hash a cp = Inl e) \<longleftrightarrow> at_raw a \<noteq> '''' \<and> (\<exists>p. unmarshal (at_raw a) = Some p \<and> null_rule p)"
  by (auto simp: tryLoad_fatal fatal_raw_def split: option.splits)

text \<open>Every attempt installs, fails or panics, whatever is loaded.\<close>

lemma loadable_fatal: "loadable unmarshal raw \<Longrightarrow> \<not> fatal_raw unmarshal raw"
  by (auto simp: loadable_def fatal_raw_def null_rule_def split: option.splits)

lemma tryLoad_installs:
  "loadable unmarshal (at_raw a) \<longleftrightarrow> (\<exists>cp'. tryLoad unmarshal hash a cp = Inr (None, cp'))"
proof
  assume "\<exists>cp'. tryLoad unmarshal hash a cp = Inr (None, cp')"
  then obtain cp' where t: "tryLoad unmarshal hash a cp = Inr (None, cp')" ..
  then have nf: "\<not> fatal_raw unmarshal (at_raw a)" using tryLoad_fatal [of unmarshal hash a cp NilDeref] by simp
  have raw: "at_raw a \<noteq> ''''" using t by (auto simp: tryLoad_def)
  from t obtain p srt where p: "unmarshal (at_raw a) = Some p"
    "Rules_Sort (range_order (at_range a) (pc_Rules p)) = Inr srt" "srt \<noteq> []" "pc_Regions p \<noteq> []"
    by (rule tryLoad_success)
  then have "pc_Rules p \<noteq> []" using Rules_Sort_order(1) [OF p(2)] by auto
  with nf raw p show "loadable unmarshal (at_raw a)"
    by (auto simp: loadable_def fatal_raw_def null_rule_def) (metis One_nat_def Suc_1 Suc_leI length_greater_0_conv less_Suc_eq not_less)
qed (rule tryLoad_loadable)

lemma tryLoad_fails:
  assumes "\<not> loadable unmarshal (at_raw a)" and "\<not> fatal_raw unmarshal (at_raw a)"
  obtains err where "tryLoad unmarshal hash a cp = Inr (Some err, cp)"
proof (cases "tryLoad unmarshal hash a cp")
  case (Inl e)
  with assms(2) tryLoad_fatal [of unmarshal hash a cp e] show ?thesis by simp
next
  case (Inr r)
  with assms(1) tryLoad_installs [of unmarshal a hash cp] tryLoad_error_keeps [of unmarshal hash a cp]
  show ?thesis by (cases r; cases "fst r") (auto intro: that)
qed

text \<open>The turns that end the cycle.\<close>

definition ends_cycle :: "(string \<Rightarrow> parsed_config option) \<Rightarrow> attempt \<Rightarrow> bool" where
  "ends_cycle unmarshal a \<longleftrightarrow>
     at_dying a \<or> loadable unmarshal (at_raw a) \<or> fatal_raw unmarshal (at_raw a)"

lemma loadCycle_first:
  "loadCycle unmarshal hash as cp =
     (case find (ends_cycle unmarshal) as of
        None \<Rightarrow> None
      | Some a \<Rightarrow> if at_dying a then Some (Inr cp) else Some (map_sum id snd (tryLoad unmarshal hash a cp)))"
proof (induction as)
  case (Cons a as)
  show ?case
  proof (cases "ends_cycle unmarshal a")
    case False
    then obtain err where "tryLoad unmarshal hash a cp = Inr (Some err, cp)" "\<not> at_dying a"
      by (auto simp: ends_cycle_def elim: tryLoad_fails)
    with False Cons.IH show ?thesis by simp
  next
    case True
    then show ?thesis
      using tryLoad_loadable [of unmarshal a hash cp] tryLoad_fatal [of unmarshal hash a cp NilDeref]
      by (auto simp: ends_cycle_def)
  qed
qed simp

section \<open>Properties\<close>

text \<open>C12: whatever the configuration service delivers, in any sequence of loads and reloads, the
  configuration in use is nothing at all or a valid one: at least one rule and one region, and the
  rules in routing order (a null rule survives only as the single rule).\<close>

theorem loaded_config_valid:
  assumes "cp_reachable unmarshal hash cp" and "cp_loaded cp = Some c"
  shows "cf_rules c \<noteq> [] \<and> cf_regions c \<noteq> [] \<and>
    (cf_rules c = [None] \<or> (\<exists>rs. cf_rules c = map Some rs \<and> rules_ordered rs))"
  using cp_reachable_valid [OF assms(1)] assms(2) by (simp add: cp_valid_def config_valid_def)

definition test_unmarshal :: "string \<Rightarrow> parsed_config option" where
  "test_unmarshal raw =
     (if raw = ''null'' then
        Some \<lparr>pc_Rules = [(''a'', Some (test_rule '''' '''' 2)), (''b'', None)],
          pc_Regions = cf_regions test_config, pc_HobRegions = [], pc_ConfigVersion = 1, pc_HobModes = []\<rparr>
      else if raw = ''good'' then
        Some \<lparr>pc_Rules = [(''a'', Some (test_rule '''' '''' 2)), (''b'', Some (test_rule '''' ''/v1'' 1))],
          pc_Regions = cf_regions test_config, pc_HobRegions = [], pc_ConfigVersion = 3 / 2, pc_HobModes = []\<rparr>
      else None)"

definition test_hash :: hasher where
  "test_hash c = (case c of (srt, rs, hr, v, hm) \<Rightarrow> show_int v)"

definition test_attempt :: "string \<Rightarrow> attempt" where
  "test_attempt raw = \<lparr>at_dying = False, at_raw = raw, at_range = [], at_fails = (\<lambda>_. False), at_part = ''''\<rparr>"

definition test_cp :: control_plane where
  "test_cp = (case tryLoad test_unmarshal test_hash (test_attempt ''good'')
       (new_cp \<lparr>fs_target = None, fs_temps = []\<rparr>) of
     Inr (_, cp) \<Rightarrow> cp | Inl _ \<Rightarrow> new_cp \<lparr>fs_target = None, fs_temps = []\<rparr>)"

lemma test_cp_loaded:
  "tryLoad test_unmarshal test_hash (test_attempt ''good'') (new_cp \<lparr>fs_target = None, fs_temps = []\<rparr>) =
     Inr (None, test_cp)"
  "map_option (\<lambda>c. (map (map_option r_Action) (cf_rules c), cf_version c)) (cp_loaded test_cp) =
     Some ([Some ActionProxyToH1, Some ActionSendToH2], 1)"
  "fs_target (cp_fs test_cp) = Some ''good''"
  by code_simp+

theorem loaded_config_valid_witness:
  "\<exists>c. cp_loaded test_cp = Some c \<and> cf_regions c \<noteq> []"
proof -
  from test_cp_loaded(2) obtain c where c: "cp_loaded test_cp = Some c" by auto
  have "cp_reachable test_unmarshal test_hash test_cp"
    by (rule first_load [OF start test_cp_loaded(1)])
  from loaded_config_valid [OF this c] c show ?thesis by blast
qed

text \<open>C11: installing is all or nothing. A load that reports an error changes neither the configuration
  in use nor the file; one that succeeds leaves the configuration as it was, with the same hash, or
  replaces every part of it by the parsed one, with rules sorted and validated, also when the copy
  on disk cannot be written.\<close>

theorem tryLoad_atomic:
  assumes "tryLoad unmarshal hash a cp = Inr (err, cp')"
  shows "(err \<noteq> None \<longrightarrow> cp' = cp) \<and>
    (err = None \<longrightarrow> (\<exists>p srt. unmarshal (at_raw a) = Some p \<and> Rules_Sort (range_order (at_range a) (pc_Rules p)) = Inr srt \<and>
       srt \<noteq> [] \<and> pc_Regions p \<noteq> [] \<and>
       (let h = hash (srt, pc_Regions p, pc_HobRegions p, int64_of_f64 (pc_ConfigVersion p), pc_HobModes p)
        in currentHash cp' = h \<and>
           (if currentHash cp = h then cp' = cp
            else cp_loaded cp' = Some \<lparr>cf_rules = srt, cf_regions = pc_Regions p,
                   cf_hobRegions = pc_HobRegions p, cf_hobModes = pc_HobModes p,
                   cf_version = int64_of_f64 (pc_ConfigVersion p), cf_hash = h\<rparr> \<and>
                 (fs_target (cp_fs cp') = Some (at_raw a) \<or> fs_target (cp_fs cp') = fs_target (cp_fs cp))))))"
proof -
  let ?sv = "saveConfigToFile (at_fails a) (at_part a) (at_raw a) (cp_fs cp)"
  have sv: "fs_target (snd ?sv) = Some (at_raw a) \<or> fs_target (snd ?sv) = fs_target (cp_fs cp)"
    using save_atomic [of "at_fails a" "at_part a" "at_raw a" "cp_fs cp" "fst ?sv" "snd ?sv"] by auto
  show ?thesis
  proof (cases err)
    case (Some e)
    with assms tryLoad_error_keeps show ?thesis by auto
  next
    case None
    with assms have "tryLoad unmarshal hash a cp = Inr (None, cp')" by simp
    then obtain p srt where p: "unmarshal (at_raw a) = Some p" "Rules_Sort (range_order (at_range a) (pc_Rules p)) = Inr srt"
      "srt \<noteq> []" "pc_Regions p \<noteq> []"
      and h: "cf_hash (loadedConfig cp') =
        hash (srt, pc_Regions p, pc_HobRegions p, int64_of_f64 (pc_ConfigVersion p), pc_HobModes p)"
      and c: "if currentHash cp = cf_hash (loadedConfig cp') then cp' = cp else
        (cp_loaded cp' = Some \<lparr>cf_rules = srt, cf_regions = pc_Regions p,
           cf_hobRegions = pc_HobRegions p, cf_hobModes = pc_HobModes p,
           cf_version = int64_of_f64 (pc_ConfigVersion p), cf_hash = cf_hash (loadedConfig cp')\<rparr> \<and>
         cp_fs cp' = snd ?sv)"
      by (rule tryLoad_success)
    from c sv show ?thesis
      by (intro conjI impI exI [of _ p] exI [of _ srt])
        (auto simp: None p h currentHash_def Let_def split: if_splits)
  qed
qed

theorem tryLoad_atomic_witness:
  "\<exists>p srt. test_unmarshal ''good'' = Some p \<and> Rules_Sort (pc_Rules p) = Inr srt \<and> srt \<noteq> []"
  using tryLoad_atomic [OF test_cp_loaded(1)] by (auto simp: test_attempt_def)

text \<open>C30: when the reload loop returns, and how. It goes on as long as no turn finds the tomb dying, a
  configuration that can be installed, or one with a null rule beside another. The first turn that finds one
  of these decides: a dying tomb leaves everything as it was, a null rule is a panic, even if a good
  configuration comes later, and otherwise the configuration of that very turn is what is installed.
  There is no other way out.\<close>

theorem loadCycle_live:
  "(loadCycle unmarshal hash as cp = None \<longleftrightarrow> find (ends_cycle unmarshal) as = None) \<and>
   (loadCycle unmarshal hash as cp = Some (Inl e) \<longleftrightarrow>
      e = NilDeref \<and>
      (\<exists>a. find (ends_cycle unmarshal) as = Some a \<and> \<not> at_dying a \<and> fatal_raw unmarshal (at_raw a))) \<and>
   (loadCycle unmarshal hash as cp = Some (Inr cp') \<longleftrightarrow>
      (\<exists>a. find (ends_cycle unmarshal) as = Some a \<and>
         (if at_dying a then cp' = cp
          else loadable unmarshal (at_raw a) \<and> tryLoad unmarshal hash a cp = Inr (None, cp'))))"
proof (cases "find (ends_cycle unmarshal) as")
  case None
  then show ?thesis by (simp add: loadCycle_first)
next
  case (Some a)
  then have "ends_cycle unmarshal a" by (auto simp: find_Some_iff)
  then consider "at_dying a" | "\<not> at_dying a" "loadable unmarshal (at_raw a)" | "\<not> at_dying a" "fatal_raw unmarshal (at_raw a)"
    by (auto simp: ends_cycle_def)
  then show ?thesis
  proof cases
    case 1
    with Some show ?thesis by (auto simp: loadCycle_first)
  next
    case 2
    then obtain c where "tryLoad unmarshal hash a cp = Inr (None, c)" using tryLoad_loadable by blast
    with Some 2 loadable_fatal [OF 2(2)] show ?thesis by (auto simp: loadCycle_first)
  next
    case 3
    then have "tryLoad unmarshal hash a cp = Inl NilDeref" by (simp add: tryLoad_fatal)
    with Some 3 loadable_fatal [of unmarshal "at_raw a"] show ?thesis by (auto simp: loadCycle_first)
  qed
qed

theorem loadCycle_live_witness:
  "loadCycle test_unmarshal test_hash [test_attempt ''bad'', test_attempt '''', test_attempt ''null'', test_attempt ''good'']
     test_cp = Some (Inl NilDeref)"
proof -
  have "find (ends_cycle test_unmarshal)
      [test_attempt ''bad'', test_attempt '''', test_attempt ''null'', test_attempt ''good''] = Some (test_attempt ''null'')"
    by (simp add: ends_cycle_def loadable_def fatal_raw_def null_rule_def test_attempt_def test_unmarshal_def)
  moreover have "fatal_raw test_unmarshal (at_raw (test_attempt ''null''))" "\<not> at_dying (test_attempt ''null'')"
    by (simp_all add: fatal_raw_def null_rule_def test_attempt_def test_unmarshal_def)
  ultimately show ?thesis using loadCycle_live [of test_unmarshal test_hash _ test_cp NilDeref] by blast
qed

text \<open>One null rule in a configuration is enough to bring the process down: with two or more rules,
  one of them null, \<open>tryLoad\<close> panics in \<open>Rules.Sort\<close>, before the checks that would reject the
  configuration, and so does the reload loop that calls it.\<close>

theorem null_rule_crash:
  assumes "at_raw a \<noteq> ''''" and "unmarshal (at_raw a) = Some p"
    and "2 \<le> length (pc_Rules p)" and "None \<in> snd ` set (pc_Rules p)"
  shows "tryLoad unmarshal hash a cp = Inl NilDeref \<and>
    (\<not> at_dying a \<longrightarrow> loadCycle unmarshal hash (a # as) cp = Some (Inl NilDeref))"
proof -
  have "Rules_Sort (range_order (at_range a) (pc_Rules p)) = Inl NilDeref"
    by (rule Rules_Sort_nil) (use assms(3,4) in simp_all)
  with assms(1,2) show ?thesis by (simp add: tryLoad_def)
qed

theorem null_rule_crash_witness:
  "loadCycle test_unmarshal test_hash [test_attempt ''null''] test_cp = Some (Inl NilDeref)"
  using null_rule_crash [of "test_attempt ''null''" test_unmarshal _ test_hash test_cp "[]"]
  by (simp add: test_attempt_def test_unmarshal_def)

text \<open>The copy on disk is never torn. Whichever of the file operations fail, the target file holds the
  old content, and an error is reported, or the whole new content; a later save that succeeds
  replaces it.\<close>

theorem save_never_torn:
  assumes "saveConfigToFile fails part c fs = (err, fs')"
  shows "fs_target fs' = (if err then fs_target fs else Some c) \<and>
    (err \<longleftrightarrow> fails MkdirAll \<or> fails TempFile \<or> fails WriteFile \<or> fails Rename) \<and>
    length (fs_temps fs') = length (fs_temps fs) +
      (if \<not> fails MkdirAll \<and> \<not> fails TempFile \<and> (fails WriteFile \<or> fails Rename) then 1 else 0)"
  using assms by (auto simp: saveConfigToFile_def split: if_splits)

theorem save_never_torn_witness:
  "fs_target (snd (saveConfigToFile (\<lambda>op. op = WriteFile) ''{'' ''{}'' \<lparr>fs_target = Some ''old'', fs_temps = []\<rparr>)) = Some ''old''"
  using save_never_torn [of "\<lambda>op. op = WriteFile" "''{''" "''{}''" "\<lparr>fs_target = Some ''old'', fs_temps = []\<rparr>" True]
  by (auto simp: saveConfigToFile_def)

end
