(* ===== verification/Dispatch.thy ===== *)
theory Dispatch
  imports H2_Handler H1_Proxy Rpc Control_Plane
begin

text \<open>
  What a request meets behind the middleware: \<open>Handler\<close> and \<open>RpcHandler\<close> of \<open>src/handler/handler.go\<close>, which
  ask the router and pass the request on to one of the back ends, and the handler of
  \<open>src/handler/endpoints.go\<close>, which gives clients the URLs of their region.

  The operations are written over the router interface; the locale \<open>request_router\<close> extends its contract
  by what a router leaves alone in the request it works on, and the router of the control plane over the
  extractor keeps it. The configuration is the one loaded when the request is handled.
\<close>

section \<open>handler.go\<close>

definition set_mode :: "string \<Rightarrow> rwriter \<Rightarrow> rwriter" where
  "set_mode hobMode w = (if hobMode \<noteq> '''' then set_hdr ''X-H-Mode'' hobMode w else w)"

definition api_Handler ::
    "env \<Rightarrow> mappings \<Rightarrow> upstream \<Rightarrow> 'r router_if \<Rightarrow> (nat \<Rightarrow> f32) \<Rightarrow> 'r \<Rightarrow> rwriter \<Rightarrow> rwriter \<times> event list" where
  "api_Handler E m up R rolls rs w =
     (case ri_Route R rolls rs of (route, rs1) \<Rightarrow>
      (case maybePinRequestToHostname R rs1 w of (w1, rs2) \<Rightarrow>
      (case ri_GetHobMode R rs2 of (hobMode, rs3) \<Rightarrow>
        (let w2 = set_mode hobMode w1; r = ri_request R rs3
         in (case route of
               None \<Rightarrow> h2Handler E R rs3 (set_hdr ''X-Hailo-Route'' (Action_String ActionSendToH2) w2)
             | Some rule \<Rightarrow>
                 (let w3 = set_hdr ''X-Hailo-Route'' (Action_String (r_Action rule)) w2; a = r_Action rule
                  in if a = ActionProxyToH1 then h1Handler (en_az E) m up r w3
                     else if a = ActionThrottle then throttleHandler rule r w3
                     else if a = ActionDeprecate then deprecateHandler rule r w3
                     else h2Handler E R rs3 w3))))))"

definition api_RpcHandler :: "env \<Rightarrow> 'r router_if \<Rightarrow> 'r \<Rightarrow> rwriter \<Rightarrow> (panic + rwriter) \<times> event list" where
  "api_RpcHandler E R rs w =
     (case maybePinRequestToHostname R rs w of (w1, rs1) \<Rightarrow> rpcHandler E (ri_request R rs1) w1)"

section \<open>endpoints.go\<close>

text \<open>\<open>json.Marshal\<close> prints the entries of a map in the order of the keys, and the fields of a struct in
  the order of their declaration, without those that are empty and marked \<open>omitempty\<close>.\<close>

definition json_map :: "('a \<Rightarrow> json) \<Rightarrow> (string, 'a) gomap \<Rightarrow> json" where
  "json_map f m = JObj (sort_key fst (map (\<lambda>(k, v). (k, f v)) m))"

definition json_urls :: "urls option \<Rightarrow> json" where
  "json_urls u = (case u of None \<Rightarrow> JNull | Some u \<Rightarrow> json_map JStr u)"

definition json_region :: "region option \<Rightarrow> json" where
  "json_region r =
     (case r of None \<Rightarrow> JNull
      | Some g \<Rightarrow> JObj
          ((if g_Id g \<noteq> '''' then [(''id'', JStr (g_Id g))] else [])
           @ (if g_Status g \<noteq> '''' then [(''status'', JStr (g_Status g))] else [])
           @ (if g_Failover g \<noteq> [] then [(''failover'', JArr (map JStr (g_Failover g)))] else [])
           @ (if g_Apps g \<noteq> [] then [(''apps'', json_map json_urls (g_Apps g))] else [])))"

text \<open>A configuration without \<open>hobRegions\<close> has a nil map there, which prints as \<open>null\<close>; that it is missing is
  the argument \<open>no_hobs\<close>.\<close>

definition json_hob_regions :: "bool \<Rightarrow> hob_regions option \<Rightarrow> json" where
  "json_hob_regions no_hobs hr =
     (case hr of None \<Rightarrow> JNull | Some m \<Rightarrow> if m = [] \<and> no_hobs then JNull else json_map JStr m)"

definition ParseBool :: "string \<Rightarrow> bool" where
  "ParseBool s \<longleftrightarrow> s \<in> {''1'', ''t'', ''T'', ''TRUE'', ''true'', ''True''}"

definition dashed :: "string \<Rightarrow> string" where
  "dashed k = replace_c CHR ''_'' CHR ''-'' k"

text \<open>The map of the answer: the version, and every URL under its name with dashes.\<close>

definition endpoint_entries :: "int \<Rightarrow> urls \<Rightarrow> (string, json) gomap" where
  "endpoint_entries version us =
     fold (\<lambda>(k, v). AList.update (dashed k) (JStr v)) us [(''timestamp'', JNum version)]"

definition endpoints_error :: "string \<Rightarrow> string \<Rightarrow> json" where
  "endpoints_error code msg = json_map id
     [(''status'', JBool False), (''code'', JNum 11), (''dotted_code'', JStr code), (''payload'', JStr msg)]"

text \<open>The handler loads the configuration up to three times: in \<open>Region\<close> of the router, and for a verbose
  answer in \<open>Regions\<close> and \<open>HobRegions\<close>, which find the control planes \<open>cps 1\<close> and \<open>cps 2\<close>.\<close>

definition endpoints_answer :: "(nat \<Rightarrow> control_plane) \<Rightarrow> bool \<Rightarrow> bool \<Rightarrow> int \<Rightarrow> urls \<Rightarrow> json" where
  "endpoints_answer cps no_hobs verbose version us = json_map id
     ([(''status'', JBool True), (''payload'', JStr ''OK''), (''endpoints'', json_map id (endpoint_entries version us))]
      @ (if verbose then
           [(''regions'', case cp_Regions (Some (cps 1)) of None \<Rightarrow> JNull | Some rs \<Rightarrow> json_map json_region rs),
            (''hobRegions'', json_hob_regions no_hobs (cp_HobRegions (Some (cps 2))))]
         else []))"

definition EndpointsHandler ::
    "(nat \<Rightarrow> control_plane) \<Rightarrow> bool \<Rightarrow> 'r router_if \<Rightarrow> 'r \<Rightarrow> rwriter \<Rightarrow> rwriter" where
  "EndpointsHandler cps no_hobs R rs w =
     (let w1 = set_hdr ''Content-Type'' ''application/json; charset=utf-8'' w
      in (case ri_Region R rs of ((region, version), rs1) \<Rightarrow>
        (case region of
           None \<Rightarrow> write_body (Json (endpoints_error ''com.HailoOSS.hailo-2-api.noregions'' ''No online regions found''))
                    (write_header 500 w1)
         | Some g \<Rightarrow>
            (let q = url_query (ri_request R rs1);
                 verbose = ParseBool (values_get q ''verbose'')
             in (case Region_Urls g (values_get q ''app'') of
                   None \<Rightarrow> write_body (Json (endpoints_error ''com.HailoOSS.hailo-2-api.noapps'' ''No apps found for this region''))
                            (write_header 500 w1)
                 | Some us \<Rightarrow> write_body (Json (endpoints_answer cps no_hobs verbose version us)) w1)))))"

section \<open>What the router leaves alone\<close>

definition call_data :: "request \<Rightarrow> string \<times> string \<times> string \<times> string" where
  "call_data r = (rq_Path r, rq_Method r, rq_RemoteAddr r, rq_Host r)"

text \<open>An operation works within the request when it leaves these data and the forced route alone, and a
  request with well-formed forms and headers is one afterwards.\<close>

definition forced_header :: "request \<Rightarrow> string" where
  "forced_header r = header_get (rq_Header r) ''X-Hailo-Route''"

definition works_within :: "request \<Rightarrow> request \<Rightarrow> bool" where
  "works_within r r' \<longleftrightarrow>
     call_data r' = call_data r \<and> forced_header r' = forced_header r \<and> (wf_request r \<longrightarrow> wf_request r')"

lemma within_refl [simp]: "works_within r r"
  by (simp add: works_within_def)

lemma within_trans: "works_within r r' \<Longrightarrow> works_within r' r'' \<Longrightarrow> works_within r r''"
  by (simp add: works_within_def)

text \<open>The same of the operations of an extractor, where \<open>f\<close> gives the request.\<close>

definition reads_within :: "'e extractor_if \<Rightarrow> ('e \<Rightarrow> request) \<Rightarrow> bool" where
  "reads_within I f \<longleftrightarrow>
     (\<forall>e. works_within (f e) (f (snd (ei_Hob I e)))) \<and> (\<forall>e n. works_within (f e) (f (snd (ei_Value I n e)))) \<and>
     (\<forall>e. works_within (f e) (f (snd (ei_Path I e)))) \<and> (\<forall>e. works_within (f e) (f (snd (ei_Source I e))))"

lemma reads_withinD:
  assumes "reads_within I f"
  shows "ei_Hob I e = (x, e') \<Longrightarrow> works_within (f e) (f e')" and "ei_Value I n e = (x, e') \<Longrightarrow> works_within (f e) (f e')"
    and "ei_Path I e = (x, e') \<Longrightarrow> works_within (f e) (f e')" and "ei_Source I e = (x, e') \<Longrightarrow> works_within (f e) (f e')"
  using assms by (metis reads_within_def snd_conv)+

lemma run_checks_within:
  assumes "\<forall>c\<in>set cs. \<forall>e. works_within (f e) (f (snd (c e)))"
  shows "works_within (f e) (f (snd (run_checks cs e)))"
  using assms
proof (induction cs arbitrary: e)
  case (Cons c cs)
  obtain b e' where c: "c e = (b, e')" by (cases "c e")
  then have "works_within (f e) (f e')" using Cons.prems by (metis list.set_intros(1) snd_conv)
  with c Cons show ?case by (auto intro: within_trans)
qed simp

lemma match_sample_within:
  assumes "reads_within I f"
  shows "works_within (f e) (f (snd (match_sample I roll m e)))"
proof -
  have "works_within (f e) (f (snd (case ei_Value I n e of (v, e') \<Rightarrow> (hashSample v p, e'))))" for n p
    using assms by (simp add: reads_within_def split_beta)
  then show ?thesis by (simp add: match_sample_def Let_def)
qed

lemma Rule_Matches_within:
  assumes "reads_within I f"
  shows "works_within (f e) (f (snd (Rule_Matches I roll r e)))"
proof -
  have "works_within (f e) (f (snd (match_matches I roll m e)))" for m
    unfolding match_matches_def
    by (rule run_checks_within)
      (use assms match_sample_within [OF assms] in \<open>simp add: reads_within_def split_beta\<close>)
  then show ?thesis by (simp add: Rule_Matches_def split: option.split)
qed

lemma route_loop_within: "reads_within I f \<Longrightarrow> works_within (f e) (f (snd (route_loop I rolls i rs e)))"
proof (induction rs arbitrary: i e)
  case (Cons r rs)
  obtain b e' where m: "Rule_Matches I (rolls i) r e = (b, e')" by (cases "Rule_Matches I (rolls i) r e")
  with Rule_Matches_within [OF Cons.prems, of e "rolls i" r] Cons.IH [OF Cons.prems, of e' "Suc i"] show ?case
    by (auto intro: within_trans)
qed simp

lemma Router_Region_within: "reads_within I f \<Longrightarrow> works_within (f e) (f (snd (Router_Region I cfg e)))"
  by (auto simp: Router_Region_def split: prod.split dest: reads_withinD(1))

lemma CorrectHostname_within:
  assumes "reads_within I f"
  shows "works_within (f e) (f (snd (CorrectHostname I cfg h e)))"
proof -
  note k = reads_withinD [OF assms]
  obtain hob e1 where 1: "ei_Hob I e = (hob, e1)" by (cases "ei_Hob I e")
  obtain region version e2 where 2: "Router_Region I cfg e1 = ((region, version), e2)"
    by (cases "Router_Region I cfg e1") auto
  obtain source e3 where 3: "ei_Source I e2 = (source, e3)" by (cases "ei_Source I e2")
  have "works_within (f e) (f e1)" "works_within (f e1) (f e2)" "works_within (f e2) (f e3)"
    using k(1) [OF 1] Router_Region_within [OF assms, of e1 cfg] 2 k(4) [OF 3] by simp_all
  then show ?thesis by (auto simp: CorrectHostname_def 1 2 3 Let_def intro: within_trans split: option.split)
qed

locale request_router = router_contract R ready pin
  for R :: "'r router_if" and ready :: "'r \<Rightarrow> bool" and pin :: "string \<Rightarrow> 'r \<Rightarrow> (urls option \<times> int) option" +
  assumes route_within: "works_within (ri_request R rs) (ri_request R (snd (ri_Route R rolls rs)))"
    and mode_within: "works_within (ri_request R rs) (ri_request R (snd (ri_GetHobMode R rs)))"
    and hostname_within: "works_within (ri_request R rs) (ri_request R (snd (ri_CorrectHostname R h rs)))"
begin

lemma maybePin_within: "works_within (ri_request R rs) (ri_request R (snd (maybePinRequestToHostname R rs w)))"
  using hostname_within [of rs "rw_Header w"] by (auto simp: maybePinRequestToHostname_def split: prod.split)

lemma maybePin_keeps: "call_data (ri_request R (snd (maybePinRequestToHostname R rs w))) = call_data (ri_request R rs)"
  using maybePin_within [of rs w] by (simp add: works_within_def)

text \<open>The handlers behind the router get the path, the method, the address and the host of the request as
  they came.\<close>

lemma dispatch_within:
  assumes "ri_Route R rolls rs = (route, rs1)" and "maybePinRequestToHostname R rs1 w = (w1, rs2)"
    and "ri_GetHobMode R rs2 = (hobMode, rs3)"
  shows "works_within (ri_request R rs) (ri_request R rs3)"
  using route_within [of rs rolls] maybePin_within [of rs1 w] mode_within [of rs2] assms
  by (simp add: works_within_def)

lemma dispatch_keeps:
  assumes "ri_Route R rolls rs = (route, rs1)" and "maybePinRequestToHostname R rs1 w = (w1, rs2)"
    and "ri_GetHobMode R rs2 = (hobMode, rs3)"
  shows "call_data (ri_request R rs3) = call_data (ri_request R rs)"
  using dispatch_within [OF assms] by (simp add: works_within_def)

end

lemma settle_wf: "wf_request (ex_req e) \<Longrightarrow> wf_request (ex_req (settle mime hx e))"
  by (simp add: settle_def doExtraction_wf)

lemma request_extractor_within: "reads_within (request_extractor mime hx) ex_req"
proof -
  have "canonical_key ''X-Hailo-Route'' \<noteq> canonical_key ''Content-Type''" by code_simp
  then have s: "works_within (ex_req e) (ex_req (settle mime hx e))" for e
    by (simp add: works_within_def call_data_def forced_header_def settle_wf settle_header)
  have "works_within (ex_req (settle mime hx e)) (ex_req (ex_SetHob mime hx code (settle mime hx e)))" for code e
  proof -
    obtain m where "ex_values (settle mime hx e) = Some m" using settle_frame(6) by blast
    then show ?thesis by (simp add: ex_SetHob_settled works_within_def call_data_def forced_header_def wf_request_def)
  qed
  with s have "works_within (ex_req e) (ex_req (ex_SetHob mime hx code (settle mime hx e)))" for code e
    by (blast intro: within_trans)
  with s show ?thesis
    by (auto simp: reads_within_def request_extractor_def ex_Hob_eq ex_Value_def ex_Path_def ex_Source_def
        Let_def split: option.split)
qed

interpretation rqr: request_router "rule_router mime hx cfg" "\<lambda>e. ex_values e \<noteq> None" "region_pin cfg"
  for mime hx cfg
proof
  let ?R = "rule_router mime hx cfg" and ?I = "request_extractor mime hx"
  note k = request_extractor_within [of mime hx]
  fix rolls e h
  show "works_within (ri_request ?R e) (ri_request ?R (snd (ri_Route ?R rolls e)))"
    using route_loop_within [OF k] by (simp add: rule_router_def Route_def Let_def split: option.split)
  show "works_within (ri_request ?R e) (ri_request ?R (snd (ri_GetHobMode ?R e)))"
    using reads_withinD(1) [OF k] by (auto simp: rule_router_def GetHobMode_def Let_def split: prod.split)
  show "works_within (ri_request ?R e) (ri_request ?R (snd (ri_CorrectHostname ?R h e)))"
    using CorrectHostname_within [OF k] by (simp add: rule_router_def Let_def)
qed

section \<open>The handlers of the server\<close>

definition default_handler :: "env \<Rightarrow> mappings \<Rightarrow> upstream \<Rightarrow> cp_config \<Rightarrow> (nat \<Rightarrow> f32) \<Rightarrow> handler" where
  "default_handler E m up cfg rolls r w =
     api_Handler E m up (rule_router (en_mime E) (en_hx E) cfg) rolls (newExtractor r) w"

lemma grows_set_mode [grow_intros]: "rw_grows w w' \<Longrightarrow> rw_grows w (set_mode hobMode w')"
  by (auto simp: set_mode_def intro: grow_intros)

lemma grows_api_Handler: "rw_grows w (fst (api_Handler E m up R rolls rs w))"
proof -
  obtain route rs1 where 1: "ri_Route R rolls rs = (route, rs1)" by (cases "ri_Route R rolls rs")
  obtain w1 rs2 where 2: "maybePinRequestToHostname R rs1 w = (w1, rs2)" by (cases "maybePinRequestToHostname R rs1 w")
  obtain hobMode rs3 where 3: "ri_GetHobMode R rs2 = (hobMode, rs3)" by (cases "ri_GetHobMode R rs2")
  have "rw_grows w w1" using grows_maybePin [of w R rs1] 2 by simp
  then have g: "rw_grows w (set_hdr ''X-Hailo-Route'' a (set_mode hobMode w1))" for a by (intro grow_intros)
  show ?thesis
    by (auto simp: api_Handler_def 1 2 3 Let_def split: option.split
        intro: grows_trans [OF g] grows_h2Handler h1.grows throttle.grows deprecate.grows)
qed

interpretation dispatch: http_handler "default_handler E m up cfg rolls" for E m up cfg rolls
  by unfold_locales (simp add: default_handler_def grows_api_Handler)

section \<open>Lemmas\<close>

text \<open>The outcomes recorded for a path, in order.\<close>

definition records :: "string \<Rightarrow> event list \<Rightarrow> bool list" where
  "records p evs = concat (map (\<lambda>e. case e of StatsRecord q b \<Rightarrow> if q = p then [b] else [] | _ \<Rightarrow> []) evs)"

lemma records_simps [simp]:
  "records p [] = []" "records p (BusCall c # evs) = records p evs"
  "records p (StatsRecord q b # evs) = (if q = p then b # records p evs else records p evs)"
  "records p (InstTiming n # evs) = records p evs" "records p (InstCounter n # evs) = records p evs"
  "records p (TraceSent i pt # evs) = records p evs" "records p (Aborted pn # evs) = records p evs"
  "records p (evs @ evs') = records p evs @ records p evs'"
  by (simp_all add: records_def)

lemma records_outcome:
  "records p (outcome_events az b s path) = (if p = path \<or> p = ''/'' then [s] else [])"
  by (simp add: outcome_events_def Let_def)

lemma records_silent [simp]: "records p (instrumentHob q h) = []"
  by (simp add: instrumentHob_def)

lemma records_trace: "start_trace E r = (t, ev) \<Longrightarrow> records p ev = []"
  by (auto simp: start_trace_def split: prod.splits option.splits)

lemma h2_run_records: "h2_run E R rs w = (w', evs, s) \<Longrightarrow> records p evs = []"
  by (auto simp: h2_run_def Let_def records_trace split: prod.splits sum.splits if_splits)

lemma rpc_run_records: "rpc_run E r w = (w', evs, s) \<Longrightarrow> records p evs = []"
  by (auto simp: rpc_run_def Let_def records_trace split: prod.splits sum.splits if_splits option.splits)

lemma h2_records:
  "\<exists>s. \<forall>p\<in>{rq_Path (ri_request R rs), ''/''}. records p (snd (h2Handler E R rs w)) = [s]"
  by (cases "h2_run E R rs w") (auto simp: h2Handler_def h2_run_records records_outcome)

lemma rpc_records:
  "\<exists>s. \<forall>p\<in>{rq_Path r, ''/''}. records p (snd (rpcHandler E r w)) = [s]"
  by (cases "rpc_run E r w") (auto simp: rpcHandler_def rpc_run_records records_outcome)

lemma h1_records:
  "\<exists>s. \<forall>p\<in>{rq_Path r, ''/''}. records p (snd (h1Handler az m up r w)) = [s]"
  by (auto simp: h1Handler_def h1_events_def records_outcome Let_def)

lemma h1_calls: "bus_calls (snd (h1Handler az m up r w)) = []"
  by (simp add: h1Handler_def h1_events_def instrumentHob_def Let_def)

text \<open>The three answers of the router, and the writer the back ends get.\<close>

lemma api_Handler_cases:
  assumes "ri_Route R rolls rs = (route, rs1)" and "maybePinRequestToHostname R rs1 w = (w1, rs2)"
    and "ri_GetHobMode R rs2 = (hobMode, rs3)"
  shows "api_Handler E m up R rolls rs w =
    (let a = (case route of None \<Rightarrow> ActionSendToH2 | Some rule \<Rightarrow> r_Action rule); r = ri_request R rs3;
         w' = set_hdr ''X-Hailo-Route'' (Action_String a) (set_mode hobMode w1)
     in if a = ActionProxyToH1 then h1Handler (en_az E) m up r w'
        else if a = ActionThrottle then throttleHandler (the route) r w'
        else if a = ActionDeprecate then deprecateHandler (the route) r w'
        else h2Handler E R rs3 w')"
  using assms by (auto simp: api_Handler_def Let_def go_simps split: option.split)

definition final_action :: "rule option \<Rightarrow> action" where
  "final_action route = (case route of None \<Rightarrow> ActionSendToH2 | Some rule \<Rightarrow> r_Action rule)"

lemma header_get_add_old: "header_get h k \<noteq> '''' \<Longrightarrow> header_get (header_add k' v h) k = header_get h k"
  by (auto simp: header_get_add) (simp add: header_get_def values_get_def)

lemma add_headers_old:
  "get_hdr w k \<noteq> '''' \<Longrightarrow> get_hdr (add_headers hs w) k = get_hdr w k \<and> rw_Status (add_headers hs w) = rw_Status w"
  unfolding add_headers_def by (induction hs arbitrary: w) (auto simp: header_get_add_old)

lemma add_headers_status: "rw_Status (add_headers hs w) = rw_Status w"
  unfolding add_headers_def by (induction hs arbitrary: w) auto

lemma show_nat_nonempty: "show_nat n \<noteq> ''''"
  by (subst show_nat.simps) simp

lemma show_int_nonempty: "show_int i \<noteq> ''''"
  by (simp add: show_int_def show_nat_nonempty)

lemma pin_timestamp:
  assumes "\<forall>u. urls = Some u \<longrightarrow> (\<forall>k\<in>fst ` set u. canonical_key (endpoint_header k) \<noteq> canonical_key ''X-H-ENDPOINT-TIMESTAMP'')"
  shows "get_hdr (pinRequestToHostname version urls w) ''X-H-ENDPOINT-TIMESTAMP'' = show_int version"
proof -
  have "get_hdr (fold (\<lambda>(k, v). set_hdr (endpoint_header k) v) u x) ''X-H-ENDPOINT-TIMESTAMP'' = get_hdr x ''X-H-ENDPOINT-TIMESTAMP''"
    if "\<forall>k\<in>fst ` set u. canonical_key (endpoint_header k) \<noteq> canonical_key ''X-H-ENDPOINT-TIMESTAMP''" for u x
    using that by (induction u arbitrary: x) (auto simp: header_get_set)
  with assms show ?thesis by (simp add: pinRequestToHostname_def header_get_set split: option.split)
qed

lemma pin_status: "rw_Status (pinRequestToHostname version urls w) = rw_Status w"
proof -
  have "rw_Status (fold (\<lambda>(k, v). set_hdr (endpoint_header k) v) us y) = rw_Status y" for us y
    by (induction us arbitrary: y) auto
  then show ?thesis by (simp add: pinRequestToHostname_def)
qed

lemma Action_String_nonempty: "Action_String a \<noteq> ''''"
  by (simp add: Action_String_def)

lemma answered_header:
  assumes "rw_Status w = None" and "get_hdr w k \<noteq> ''''"
  shows "header_get (rw_Sent (fst (throttleHandler rule r w))) k = get_hdr w k"
    and "header_get (rw_Sent (fst (deprecateHandler rule r w))) k = get_hdr w k"
  using assms add_headers_old [OF assms(2)]
  by (auto simp: throttleHandler_def deprecateHandler_def split: option.split)

lemma answered_status:
  assumes "rw_Status w = None"
  shows "rw_Status (fst (throttleHandler rule r w)) = Some (case r_Payload rule of Some p \<Rightarrow> pl_HttpStatus p | None \<Rightarrow> 503)"
    and "rw_Status (fst (deprecateHandler rule r w)) = Some (case r_Payload rule of Some p \<Rightarrow> pl_HttpStatus p | None \<Rightarrow> 410)"
  using assms by (auto simp: throttleHandler_def deprecateHandler_def add_headers_status split: option.splits)

lemma answered_calls: "bus_calls (snd (throttleHandler rule r w)) = []" "bus_calls (snd (deprecateHandler rule r w)) = []"
  by (simp_all add: throttleHandler_def deprecateHandler_def)

lemma sort_key_map_of: "wf_map m \<Longrightarrow> map_of (sort_key fst m) = map_of m"
  by (rule perm_of_map_of [OF sort_key_perm])

lemma json_map_id: "json_map id m = JObj (sort_key fst m)"
  by (simp add: json_map_def)

lemma fold_entries:
  "distinct (map fst acc @ map (dashed \<circ> fst) us) \<Longrightarrow>
     fold (\<lambda>(k, v). AList.update (dashed k) (JStr v)) us acc = acc @ map (\<lambda>(k, v). (dashed k, JStr v)) us"
proof (induction us arbitrary: acc)
  case (Cons kv us)
  obtain k v where kv: "kv = (k, v)" by (cases kv)
  from Cons.prems have "dashed k \<notin> fst ` set acc" by (auto simp: kv)
  then have "AList.update (dashed k) (JStr v) acc = acc @ [(dashed k, JStr v)]" by (rule update_absent)
  with Cons show ?case by (simp add: kv)
qed simp

lemma endpoint_entries_fresh:
  "distinct (''timestamp'' # map (dashed \<circ> fst) us) \<Longrightarrow>
     endpoint_entries version us = (''timestamp'', JNum version) # map (\<lambda>(k, v). (dashed k, JStr v)) us"
  unfolding endpoint_entries_def by (subst fold_entries) simp_all

context request_router
begin

text \<open>What a request can cause, over any router that keeps the contract.\<close>

lemma call_facts:
  assumes "ri_Route R rolls rs = (route, rs1)" and "evs = snd (api_Handler E m up R rolls rs w)"
  shows "(final_action route \<in> {ActionProxyToH1, ActionThrottle, ActionDeprecate} \<longrightarrow> bus_calls evs = []) \<and>
    length (bus_calls evs) \<le> 1 \<and>
    (\<forall>c\<in>set (bus_calls evs). (bc_Service c, bc_Endpoint c) = pathToEndpoint (rq_Path (ri_request R rs)) \<and>
       bc_RemoteAddr c = rq_RemoteAddr (ri_request R rs) \<and>
       (\<exists>msg. bc_Payload c = ApiPayload msg \<and> ar_Path msg = Some (rq_Path (ri_request R rs)) \<and>
          ar_Verb msg = Some (rq_Method (ri_request R rs))))"
proof -
  obtain w1 rs2 where 2: "maybePinRequestToHostname R rs1 w = (w1, rs2)" by (cases "maybePinRequestToHostname R rs1 w")
  obtain hobMode rs3 where 3: "ri_GetHobMode R rs2 = (hobMode, rs3)" by (cases "ri_GetHobMode R rs2")
  note cs = api_Handler_cases [OF assms(1) 2 3, of E m up]
  have req: "call_data (ri_request R rs3) = call_data (ri_request R rs)" by (rule dispatch_keeps [OF assms(1) 2 3])
  show ?thesis
  proof (cases "final_action route \<in> {ActionProxyToH1, ActionThrottle, ActionDeprecate}")
    case True
    then have "bus_calls evs = []"
      unfolding assms(2) cs final_action_def
      by (auto simp: Let_def h1_calls throttleHandler_def deprecateHandler_def go_simps)
    then show ?thesis by simp
  next
    case False
    let ?w = "set_hdr ''X-Hailo-Route'' (Action_String (final_action route)) (set_mode hobMode w1)"
    have "evs = snd (h2Handler E R rs3 ?w)"
      using False unfolding assms(2) cs final_action_def by (auto simp: Let_def)
    with h2_call_cases [of R rs3 E ?w] req False show ?thesis
      unfolding Let_def call_data_def by (elim disjE exE conjE) auto
  qed
qed

lemma count_facts:
  "\<exists>n. \<forall>p\<in>{rq_Path (ri_request R rs), ''/''}. records p (snd (api_Handler E m up R rolls rs w)) =
     (if final_action (fst (ri_Route R rolls rs)) \<in> {ActionThrottle, ActionDeprecate} then [] else [n])"
proof -
  obtain route rs1 where 1: "ri_Route R rolls rs = (route, rs1)" by (cases "ri_Route R rolls rs")
  obtain w1 rs2 where 2: "maybePinRequestToHostname R rs1 w = (w1, rs2)" by (cases "maybePinRequestToHostname R rs1 w")
  obtain hobMode rs3 where 3: "ri_GetHobMode R rs2 = (hobMode, rs3)" by (cases "ri_GetHobMode R rs2")
  have path: "rq_Path (ri_request R rs3) = rq_Path (ri_request R rs)"
    using dispatch_keeps [OF 1 2 3] by (simp add: call_data_def)
  let ?w = "set_hdr ''X-Hailo-Route'' (Action_String (final_action route)) (set_mode hobMode w1)"
  have dep: "records p (snd (throttleHandler rule r x)) = []" "records p (snd (deprecateHandler rule r x)) = []" for p rule r x
    by (simp_all add: throttleHandler_def deprecateHandler_def)
  show ?thesis
    using h1_records [of "ri_request R rs3" "en_az E" m up ?w] h2_records [of R rs3 E ?w]
    unfolding api_Handler_cases [OF 1 2 3, of E m up] path final_action_def
    by (auto simp: Let_def 1 dep go_simps)
qed

lemma rpc_count_facts:
  "\<exists>n. \<forall>p\<in>{rq_Path (ri_request R rs), ''/''}. records p (snd (api_RpcHandler E R rs w)) = [n]"
proof -
  obtain w' rs' where p: "maybePinRequestToHostname R rs w = (w', rs')" by (cases "maybePinRequestToHostname R rs w")
  have "rq_Path (ri_request R rs') = rq_Path (ri_request R rs)"
    using maybePin_keeps [of rs w] p by (simp add: call_data_def)
  with rpc_records [of "ri_request R rs'" E w'] show ?thesis by (simp add: api_RpcHandler_def p)
qed

end

lemma rule_router_request: "ri_request (rule_router mime hx cfg) = ex_req"
  by (simp add: rule_router_def Let_def)

section \<open>Properties\<close>

text \<open>What a request can cause. When the router answers with H1, throttling or deprecation no service is
  called; otherwise, also without a route and for an action that is not known, at most one call is made,
  to the endpoint of the path, with the path, the method and the client's address of the request as it
  came, whatever the router has done to it.\<close>

theorem dispatch_calls:
  assumes "ri_Route (rule_router mime hx cfg) rolls e = (route, e1)"
    and "evs = snd (api_Handler E m up (rule_router mime hx cfg) rolls e w)"
  shows "(final_action route \<in> {ActionProxyToH1, ActionThrottle, ActionDeprecate} \<longrightarrow> bus_calls evs = []) \<and>
    length (bus_calls evs) \<le> 1 \<and>
    (\<forall>c\<in>set (bus_calls evs). (bc_Service c, bc_Endpoint c) = pathToEndpoint (rq_Path (ex_req e)) \<and>
       bc_RemoteAddr c = rq_RemoteAddr (ex_req e) \<and>
       (\<exists>msg. bc_Payload c = ApiPayload msg \<and> ar_Path msg = Some (rq_Path (ex_req e)) \<and> ar_Verb msg = Some (rq_Method (ex_req e))))"
  using rqr.call_facts [OF assms] by (simp add: rule_router_request)

definition throttle_config :: cp_config where
  "throttle_config = test_config\<lparr>cf_rules := [Some \<lparr>r_Match = Some \<lparr>m_Hob = '''', m_Path = ''/v1'', m_Source = '''',
     m_Proportion = 1, m_Sampler = RandomSampler\<rparr>, r_Action = ActionThrottle, r_Payload = None, r_Weight = 1\<rparr>]\<rparr>"

definition lon_request :: extractor where
  "lon_request = newExtractor (plain_request\<lparr>rq_RawQuery := ''city=LON''\<rparr>)"

lemma throttle_config_route:
  "map_option r_Action (fst (ri_Route (rule_router test_mime headerExtractors throttle_config) (\<lambda>_. 0) lon_request))
     = Some ActionThrottle"
  "map_option r_Payload (fst (ri_Route (rule_router test_mime headerExtractors throttle_config) (\<lambda>_. 0) lon_request))
     = Some None"
  by code_simp+

theorem dispatch_calls_witness:
  "bus_calls (snd (api_Handler test_env [] (test_upstream []) (rule_router test_mime headerExtractors throttle_config)
     (\<lambda>_. 0) lon_request new_rwriter)) = []"
proof -
  let ?R = "rule_router test_mime headerExtractors throttle_config"
  obtain route e1 where r: "ri_Route ?R (\<lambda>_. 0) lon_request = (route, e1)" by (cases "ri_Route ?R (\<lambda>_. 0) lon_request")
  with throttle_config_route(1) have "final_action route = ActionThrottle" by (auto simp: final_action_def)
  with dispatch_calls [OF r refl] show ?thesis by simp
qed

text \<open>A request that a rule turns away gets the answer of the rule, 503 or 410 without one, with the action
  in \<open>X-Hailo-Route\<close>, and reaches no service; and a client on the wrong host is pinned all the same: it
  gets the version of the configuration in \<open>X-H-ENDPOINT-TIMESTAMP\<close> (no URL of the region has that
  name).\<close>

theorem blocked_answer:
  assumes "ri_Route R rolls rs = (Some rule, rs1)" and "r_Action rule \<in> {ActionThrottle, ActionDeprecate}"
    and "ri_CorrectHostname R (rw_Header w) rs1 = (hc, rs2)" and "rw_Status w = None"
    and "\<forall>u. hc_urls hc = Some u \<longrightarrow>
      (\<forall>k\<in>fst ` set u. canonical_key (endpoint_header k) \<noteq> canonical_key ''X-H-ENDPOINT-TIMESTAMP'')"
  shows "let (w', evs) = api_Handler E m up R rolls rs w in
    rw_Status w' = Some (case r_Payload rule of Some p \<Rightarrow> pl_HttpStatus p
      | None \<Rightarrow> if r_Action rule = ActionThrottle then 503 else 410) \<and>
    header_get (rw_Sent w') ''X-Hailo-Route'' = Action_String (r_Action rule) \<and>
    (hc_err hc = None \<and> \<not> hc_correct hc \<longrightarrow>
       header_get (rw_Sent w') ''X-H-ENDPOINT-TIMESTAMP'' = show_int (hc_version hc)) \<and>
    bus_calls evs = []"
proof -
  define w1 where "w1 = fst (maybePinRequestToHostname R rs1 w)"
  have 2: "maybePinRequestToHostname R rs1 w = (w1, rs2)"
    by (simp add: w1_def maybePinRequestToHostname_def assms(3))
  obtain hobMode rs3 where 3: "ri_GetHobMode R rs2 = (hobMode, rs3)" by (cases "ri_GetHobMode R rs2")
  define x where "x = set_hdr ''X-Hailo-Route'' (Action_String (r_Action rule)) (set_mode hobMode w1)"
  have keys: "canonical_key ''X-H-ENDPOINT-TIMESTAMP'' \<noteq> canonical_key ''X-Hailo-Route''"
    "canonical_key ''X-H-ENDPOINT-TIMESTAMP'' \<noteq> canonical_key ''X-H-Mode''" by code_simp+
  have st: "rw_Status x = None"
    using assms(4) by (simp add: x_def set_mode_def w1_def maybePinRequestToHostname_def assms(3) pin_status)
  have route: "get_hdr x ''X-Hailo-Route'' = Action_String (r_Action rule)" by (simp add: x_def header_get_set)
  have ts: "hc_err hc = None \<and> \<not> hc_correct hc \<longrightarrow> get_hdr x ''X-H-ENDPOINT-TIMESTAMP'' = show_int (hc_version hc)"
    using keys pin_timestamp [OF assms(5)]
    by (simp add: x_def header_get_set set_mode_def w1_def maybePinRequestToHostname_def assms(3))
  have h: "api_Handler E m up R rolls rs w = (if r_Action rule = ActionThrottle
      then throttleHandler rule (ri_request R rs3) x else deprecateHandler rule (ri_request R rs3) x)"
    using assms(2) api_Handler_cases [OF assms(1) 2 3, of E m up] by (auto simp: x_def Let_def go_simps)
  have r: "get_hdr x ''X-Hailo-Route'' \<noteq> ''''" using route Action_String_nonempty by simp
  have t: "hc_err hc = None \<and> \<not> hc_correct hc \<longrightarrow> get_hdr x ''X-H-ENDPOINT-TIMESTAMP'' \<noteq> ''''"
    using ts show_int_nonempty by simp
  show ?thesis
    unfolding h Let_def split_beta
    using answered_header [OF st r] answered_header [OF st, of "''X-H-ENDPOINT-TIMESTAMP''"]
      answered_status [OF st] answered_calls route ts t
    by (auto split: option.split)
qed

theorem blocked_answer_witness:
  "let w' = fst (api_Handler test_env [] (test_upstream []) (rule_router test_mime headerExtractors throttle_config)
     (\<lambda>_. 0) lon_request new_rwriter)
   in rw_Status w' = Some 503 \<and> header_get (rw_Sent w') ''X-Hailo-Route'' = ''Throttle''"
proof -
  let ?R = "rule_router test_mime headerExtractors throttle_config"
  obtain route e1 where r: "ri_Route ?R (\<lambda>_. 0) lon_request = (route, e1)" by (cases "ri_Route ?R (\<lambda>_. 0) lon_request")
  then obtain rule where rule: "route = Some rule" "r_Action rule = ActionThrottle" "r_Payload rule = None"
    using throttle_config_route by auto
  obtain hc e2 where c: "ri_CorrectHostname ?R (rw_Header new_rwriter) e1 = (hc, e2)"
    by (cases "ri_CorrectHostname ?R (rw_Header new_rwriter) e1")
  have "map_option (map (canonical_key \<circ> endpoint_header \<circ> fst)) (hc_urls (fst (ri_CorrectHostname ?R (rw_Header new_rwriter)
      (snd (ri_Route ?R (\<lambda>_. 0) lon_request))))) = Some [''X-H-Endpoint-Api'']"
    and k: "canonical_key ''X-H-ENDPOINT-TIMESTAMP'' = ''X-H-Endpoint-Timestamp''" by code_simp+
  then have urls: "\<forall>u. hc_urls hc = Some u \<longrightarrow>
      (\<forall>k\<in>fst ` set u. canonical_key (endpoint_header k) \<noteq> canonical_key ''X-H-ENDPOINT-TIMESTAMP'')"
    by (auto simp: r c map_eq_Cons_conv)
  have "Action_String ActionThrottle = ''Throttle''" by code_simp
  with blocked_answer [OF r [unfolded rule(1)] _ c _ urls, of test_env "[]" "test_upstream []"] rule show ?thesis
    by (simp add: Let_def split_beta new_rwriter_def)
qed

text \<open>C6: Every request that goes to a back end is counted once under \<open>/\<close>, which the health checks watch, and
  with the same outcome under its path; a request that a rule turns away is not counted at all. The same
  holds for every remote call, also when it panics.\<close>

theorem counted_once:
  "(\<exists>n. \<forall>p\<in>{rq_Path (ex_req e), ''/''}.
     records p (snd (api_Handler E m up (rule_router mime hx cfg) rolls e w)) =
       (if final_action (fst (ri_Route (rule_router mime hx cfg) rolls e)) \<in> {ActionThrottle, ActionDeprecate} then [] else [n])) \<and>
   (\<exists>n. \<forall>p\<in>{rq_Path (ex_req e), ''/''}. records p (snd (api_RpcHandler E (rule_router mime hx cfg) e w)) = [n])"
  using rqr.count_facts [of mime hx cfg e] rqr.rpc_count_facts [of mime hx cfg e] by (simp add: rule_router_request)

theorem counted_once_witness:
  "records ''/'' (snd (api_Handler test_env [] (test_upstream []) (rule_router test_mime headerExtractors throttle_config)
     (\<lambda>_. 0) lon_request new_rwriter)) = []"
proof -
  obtain rule where "fst (ri_Route (rule_router test_mime headerExtractors throttle_config) (\<lambda>_. 0) lon_request) = Some rule"
    "r_Action rule = ActionThrottle" using throttle_config_route(1) by auto
  with counted_once [of lon_request test_env "[]" "test_upstream []" test_mime headerExtractors throttle_config "\<lambda>_. 0" new_rwriter]
  show ?thesis by (simp add: final_action_def)
qed

text \<open>The answer of \<open>/endpoints\<close>: 500 when there is no region, or the region knows neither the app nor a
  default; otherwise 200 with the version under \<open>timestamp\<close> and exactly the URLs of the region for the
  app, each under its name with dashes (as long as no two names, and no name and \<open>timestamp\<close>, become
  equal).\<close>

theorem endpoints_lookup:
  assumes "ri_Region R rs = ((region, version), rs1)" and "app = values_get (url_query (ri_request R rs1)) ''app''"
    and "rw_Status w = None"
  shows "let w' = EndpointsHandler cps no_hobs R rs w in
    rw_Status w' = Some (if \<exists>g us. region = Some g \<and> Region_Urls g app = Some us then 200 else 500) \<and>
    (\<forall>g us. region = Some g \<and> Region_Urls g app = Some us \<and> distinct (''timestamp'' # map (dashed \<circ> fst) us) \<longrightarrow>
      (\<exists>rest eps. rw_Body w' = rw_Body w @ [Json (JObj rest)] \<and> map_of rest ''status'' = Some (JBool True) \<and>
         map_of rest ''endpoints'' = Some (JObj eps) \<and> map_of eps ''timestamp'' = Some (JNum version) \<and>
         set eps = insert (''timestamp'', JNum version) ((\<lambda>(k, v). (dashed k, JStr v)) ` set us)))"
proof -
  let ?w = "set_hdr ''Content-Type'' ''application/json; charset=utf-8'' w"
  have answer: "\<exists>rest eps. endpoints_answer cps no_hobs vb version us = JObj rest \<and> map_of rest ''status'' = Some (JBool True) \<and>
      map_of rest ''endpoints'' = Some (JObj eps) \<and> map_of eps ''timestamp'' = Some (JNum version) \<and>
      set eps = insert (''timestamp'', JNum version) ((\<lambda>(k, v). (dashed k, JStr v)) ` set us)"
    if d: "distinct (''timestamp'' # map (dashed \<circ> fst) us)" for us vb
  proof -
    let ?eps = "endpoint_entries version us"
    have wf: "wf_map ?eps" using d by (simp add: endpoint_entries_fresh comp_def split_beta)
    have "map_of (sort_key fst ?eps) ''timestamp'' = Some (JNum version)"
      using sort_key_map_of [OF wf] d by (simp add: endpoint_entries_fresh)
    moreover have "set (sort_key fst ?eps) = insert (''timestamp'', JNum version) ((\<lambda>(k, v). (dashed k, JStr v)) ` set us)"
      by (subst set_sort) (simp add: endpoint_entries_fresh [OF d])
    moreover have "\<exists>rest. endpoints_answer cps no_hobs vb version us = JObj rest \<and> map_of rest ''status'' = Some (JBool True) \<and>
        map_of rest ''endpoints'' = Some (JObj (sort_key fst ?eps))"
      by (cases vb) (simp_all add: endpoints_answer_def json_map_id)
    ultimately show ?thesis by blast
  qed
  show ?thesis
    using assms(3) answer [of _ "ParseBool (values_get (url_query (ri_request R rs1)) ''verbose'')"]
    by (auto simp: EndpointsHandler_def assms(1,2) Let_def split: option.splits)
qed

theorem endpoints_lookup_witness:
  "rw_Status (EndpointsHandler (\<lambda>_. test_cp) False (rule_router test_mime headerExtractors test_config) lon_request new_rwriter) = Some 200"
proof -
  let ?R = "rule_router test_mime headerExtractors test_config"
  obtain region version rs1 where r: "ri_Region ?R lon_request = ((region, version), rs1)"
    by (cases "ri_Region ?R lon_request") auto
  have "map_option (\<lambda>g. Region_Urls g (values_get (url_query (ri_request ?R (snd (ri_Region ?R lon_request)))) ''app'') \<noteq> None)
      (fst (fst (ri_Region ?R lon_request))) = Some True" by code_simp
  with endpoints_lookup [OF r refl, of new_rwriter "\<lambda>_. test_cp" False] show ?thesis
    by (auto simp: r new_rwriter_def Let_def split: if_splits)
qed

end
