(* ===== verification/Reload_Race.thy ===== *)
theory Reload_Race
  imports Dispatch
begin

text \<open>
  A reload in the middle of a request. \<open>src/controlplane/router.go\<close> loads the pointer to the configuration
  anew in every operation of the router (\<open>Rules\<close>, \<open>HobModes\<close>, \<open>loadedConfig\<close>), and a handler calls up to
  four of them, so that a reload between two calls lets one request see several configurations. Each
  operation loads the pointer once.

  \<open>racing_router\<close> is the router of the control plane with the configurations its successive operations
  find, \<open>cfgs 0\<close>, \<open>cfgs 1\<close> and so on; the state counts the operations. It keeps the contract of a router,
  and so everything that was shown of the handlers over any router holds of it.
\<close>

section \<open>The router\<close>

definition counted :: "(nat \<Rightarrow> 'e \<Rightarrow> 'a \<times> 'e) \<Rightarrow> 'e \<times> nat \<Rightarrow> 'a \<times> ('e \<times> nat)" where
  "counted op en = (case en of (e, n) \<Rightarrow> (case op n e of (x, e') \<Rightarrow> (x, (e', Suc n))))"

definition racing_router ::
    "(string \<Rightarrow> string option) \<Rightarrow> (string, header_extractor) gomap \<Rightarrow> (nat \<Rightarrow> cp_config) \<Rightarrow> (extractor \<times> nat) router_if" where
  "racing_router mime hx cfgs =
     (let I = request_extractor mime hx in
      \<lparr>ri_Route = (\<lambda>rolls. counted (\<lambda>n. Route I (cfgs n) rolls)),
       ri_GetHobMode = counted (\<lambda>n. GetHobMode I (cfgs n)),
       ri_SetHob = (\<lambda>hob. map_prod (ei_SetHob I hob) id),
       ri_Region = counted (\<lambda>n. Router_Region I (cfgs n)),
       ri_CorrectHostname = (\<lambda>h. counted (\<lambda>n. CorrectHostname I (cfgs n) h)),
       ri_request = ex_req \<circ> fst,
       ri_update = (\<lambda>r. map_prod (\<lambda>e. e\<lparr>ex_req := r\<rparr>) id)\<rparr>)"

definition racing_handler :: "env \<Rightarrow> mappings \<Rightarrow> upstream \<Rightarrow> (nat \<Rightarrow> cp_config) \<Rightarrow> (nat \<Rightarrow> f32) \<Rightarrow> handler" where
  "racing_handler E m up cfgs rolls r w =
     api_Handler E m up (racing_router (en_mime E) (en_hx E) cfgs) rolls (newExtractor r, 0) w"

text \<open>\<open>cps n\<close> is the control plane as the \<open>n\<close>-th load finds it.\<close>

definition endpoints_handler :: "env \<Rightarrow> (nat \<Rightarrow> control_plane) \<Rightarrow> bool \<Rightarrow> handler" where
  "endpoints_handler E cps no_hobs r w =
     (EndpointsHandler cps no_hobs (racing_router (en_mime E) (en_hx E) (loadedConfig \<circ> cps)) (newExtractor r, 0) w, [])"

section \<open>Lemmas\<close>

text \<open>Every operation is the one of the router over the configuration of the moment.\<close>

lemma racing_ops:
  "ri_Route (racing_router mime hx cfgs) rolls (e, n) =
     (case ri_Route (rule_router mime hx (cfgs n)) rolls e of (x, e') \<Rightarrow> (x, (e', Suc n)))"
  "ri_GetHobMode (racing_router mime hx cfgs) (e, n) =
     (case ri_GetHobMode (rule_router mime hx (cfgs n)) e of (x, e') \<Rightarrow> (x, (e', Suc n)))"
  "ri_CorrectHostname (racing_router mime hx cfgs) h (e, n) =
     (case ri_CorrectHostname (rule_router mime hx (cfgs n)) h e of (x, e') \<Rightarrow> (x, (e', Suc n)))"
  "ri_SetHob (racing_router mime hx cfgs) hob (e, n) = (ri_SetHob (rule_router mime hx cfg) hob e, n)"
  "ri_request (racing_router mime hx cfgs) (e, n) = ri_request (rule_router mime hx cfg) e"
  "ri_update (racing_router mime hx cfgs) r (e, n) = (ri_update (rule_router mime hx cfg) r e, n)"
  by (simp_all add: racing_router_def rule_router_def counted_def Let_def)

interpretation racing: request_router "racing_router mime hx cfgs" "\<lambda>(e, n). ex_values e \<noteq> None"
    "\<lambda>hob (e, n). region_pin (cfgs n) hob e"
  for mime hx cfgs
proof
  let ?R = "racing_router mime hx cfgs"
  fix h hob rolls c and en en' :: "extractor \<times> nat"
  obtain e n where en: "en = (e, n)" by (cases en)
  show "ri_CorrectHostname ?R h en = (c, en') \<Longrightarrow> case en' of (e, n) \<Rightarrow> ex_values e \<noteq> None"
    by (auto simp: en racing_ops split: prod.splits dest: rr.first_use)
  show "case en of (e, n) \<Rightarrow> ex_values e \<noteq> None \<Longrightarrow> hob \<noteq> '''' \<Longrightarrow>
      ri_CorrectHostname ?R h (ri_SetHob ?R hob en) = (c, en') \<Longrightarrow>
      case (case en of (e, n) \<Rightarrow> region_pin (cfgs n) hob e) of None \<Rightarrow> hc_err c \<noteq> None
      | Some (u, v) \<Rightarrow> hc_err c = None \<and> hc_urls c = u \<and> hc_version c = v"
    using rr.set_hob_law [of e hob mime hx "cfgs n" h c "fst en'"]
    by (cases en') (auto simp: en racing_ops(3) racing_ops(4) [of _ _ _ _ _ _ "cfgs n"] split: prod.splits option.splits)
  show "works_within (ri_request ?R en) (ri_request ?R (snd (ri_Route ?R rolls en)))"
    using rqr.route_within [of mime hx "cfgs n" e rolls]
    by (simp add: en racing_ops(1) racing_ops(5) [of _ _ _ _ _ "cfgs n"] split_beta)
  show "works_within (ri_request ?R en) (ri_request ?R (snd (ri_GetHobMode ?R en)))"
    using rqr.mode_within [of mime hx "cfgs n" e]
    by (simp add: en racing_ops(2) racing_ops(5) [of _ _ _ _ _ "cfgs n"] split_beta)
  show "works_within (ri_request ?R en) (ri_request ?R (snd (ri_CorrectHostname ?R h en)))"
    using rqr.hostname_within [of mime hx "cfgs n" e h]
    by (simp add: en racing_ops(3) racing_ops(5) [of _ _ _ _ _ "cfgs n"] split_beta)
qed

lemma racing_request: "ri_request (racing_router mime hx cfgs) = ex_req \<circ> fst"
  by (simp add: racing_router_def Let_def)

interpretation endpoints: http_handler "endpoints_handler E cps no_hobs" for E cps no_hobs
  by unfold_locales
    (auto simp: endpoints_handler_def EndpointsHandler_def Let_def split: prod.split option.split intro!: grow_intros)

interpretation racer: http_handler "racing_handler E m up cfgs rolls" for E m up cfgs rolls
  by unfold_locales (simp add: racing_handler_def grows_api_Handler)

text \<open>Without a reload the racing router is the router of the configuration.\<close>

lemma steady_maybePin:
  "maybePinRequestToHostname (racing_router mime hx (\<lambda>_. cfg)) (e, n) w =
     (case maybePinRequestToHostname (rule_router mime hx cfg) e w of (w', e') \<Rightarrow> (w', (e', Suc n)))"
  by (simp add: maybePinRequestToHostname_def racing_ops(3) split: prod.split)

lemma steady_regionPinning:
  "fst (regionPinning (racing_router mime hx (\<lambda>_. cfg)) (e, n) w) = fst (regionPinning (rule_router mime hx cfg) e w)"
  by (simp add: regionPinning_def Let_def racing_ops(3) racing_ops(4) [of _ _ _ _ _ _ cfg] split: prod.split)

lemma steady_h2:
  "h2Handler E (racing_router mime hx (\<lambda>_. cfg)) (e, n) w = h2Handler E (rule_router mime hx cfg) e w"
proof -
  let ?C = "racing_router mime hx (\<lambda>_. cfg)" and ?R = "rule_router mime hx cfg"
  have req: "ri_request ?C (x, k) = ri_request ?R x" "ri_update ?C r (x, k) = (ri_update ?R r x, k)" for x k r
    by (rule racing_ops)+
  have resp: "h2_respond ?C (x, k) t rsp y = h2_respond ?R x t rsp y" for x k t rsp y
    by (simp add: h2_respond_def steady_regionPinning)
  have "h2_run E ?C (e, n) w = h2_run E ?R e w"
    by (simp add: h2_run_def req resp Let_def split: prod.split sum.split)
  then show ?thesis by (simp add: h2Handler_def req)
qed

section \<open>The request behind the router\<close>

text \<open>A request that names its hob itself, by \<open>city\<close> or \<open>hob\<close> in the query or a form body.\<close>

definition names_hob :: "(string \<Rightarrow> string option) \<Rightarrow> (string, header_extractor) gomap \<Rightarrow> request \<Rightarrow> bool" where
  "names_hob mime hx r \<longleftrightarrow>
     (let e = settle mime hx (newExtractor r) in ex_get e ''city'' \<noteq> '''' \<or> ex_get e ''hob'' \<noteq> '''')"

text \<open>What becomes of a request on its way through the router: the content type is completed and the forms are
  parsed, if the body can be read; the body is put back; and the code of a known host is added to the query
  of a request that does not name its hob.\<close>

definition passed_request :: "(string \<Rightarrow> string option) \<Rightarrow> (string, header_extractor) gomap \<Rightarrow> request \<Rightarrow> request" where
  "passed_request mime hx r =
     (let r1 = (if rq_Body r = BadBody then r\<lparr>rq_Body := NoBody\<rparr>
                else (fst (parse_form mime (complete_content_type mime r)))\<lparr>rq_Body := rq_Body r\<rparr>)
      in if names_hob mime hx r then r1
         else (case map_of hostMap (rq_Host r) of
                 None \<Rightarrow> r1
               | Some code \<Rightarrow> r1\<lparr>rq_RawQuery := values_encode (values_add ''city'' code (url_query r))\<rparr>))"

text \<open>The extractor as \<open>Hob\<close> leaves it; no operation of the router changes it after that.\<close>

definition passed_extractor :: "(string \<Rightarrow> string option) \<Rightarrow> (string, header_extractor) gomap \<Rightarrow> request \<Rightarrow> extractor" where
  "passed_extractor mime hx r = snd (ex_Hob mime hx (newExtractor r))"

lemma passed_extractor_request: "ex_req (passed_extractor mime hx r) = passed_request mime hx r"
proof -
  let ?e = "settle mime hx (newExtractor r)"
  obtain m where m: "ex_values ?e = Some m" using settle_frame(6) by blast
  have e: "ex_req ?e = (if rq_Body r = BadBody then r\<lparr>rq_Body := NoBody\<rparr>
      else (fst (parse_form mime (complete_content_type mime r)))\<lparr>rq_Body := rq_Body r\<rparr>)"
    by (simp add: settle_def newExtractor_def doExtraction_eq Let_def)
  have q: "url_query (ex_req ?e) = url_query r" "rq_Host (ex_req ?e) = rq_Host r"
    by (simp_all add: newExtractor_def)
  have q0: "url_query (ex_req (newExtractor r)) = url_query r" by (simp add: newExtractor_def)
  show ?thesis
    unfolding passed_extractor_def passed_request_def ex_Hob_eq names_hob_def Let_def snd_conv e [symmetric] q
    by (auto simp: ex_SetHob_settled [OF m] q0 split: option.split)
qed

lemma passed_extractor_steady:
  "settle mime hx (passed_extractor mime hx r) = passed_extractor mime hx r"
  "snd (ex_Hob mime hx (settle mime hx (newExtractor r))) = passed_extractor mime hx r"
  "snd (ex_Hob mime hx (passed_extractor mime hx r)) = passed_extractor mime hx r"
proof -
  let ?e = "settle mime hx (newExtractor r)" and ?p = "passed_extractor mime hx r"
  obtain m where m: "ex_values ?e = Some m" using settle_frame(6) by blast
  show set: "settle mime hx ?p = ?p"
    by (auto simp: passed_extractor_def ex_Hob_eq Let_def ex_SetHob_settled [OF m] split: option.split intro: settle_done)
  show "snd (ex_Hob mime hx ?e) = ?p" by (simp add: passed_extractor_def ex_Hob_eq)
  show "snd (ex_Hob mime hx ?p) = ?p"
  proof (cases "ex_get ?e ''city'' = '''' \<and> ex_get ?e ''hob'' = ''''")
    case True
    show ?thesis
    proof (cases "map_of hostMap (rq_Host (ex_req ?e))")
      case None
      with True have "?p = ?e" by (simp add: passed_extractor_def ex_Hob_eq Let_def)
      then show ?thesis by (simp add: passed_extractor_def ex_Hob_eq)
    next
      case (Some code)
      with True have p: "?p = ex_SetHob mime hx code ?e" by (simp add: passed_extractor_def ex_Hob_eq Let_def)
      have "ex_get ?p ''city'' \<noteq> ''''" using hostMap_codes [OF Some] ex_SetHob_get [of ?e mime hx code "''city''"] by (simp add: p)
      then show ?thesis unfolding ex_Hob_eq set by (simp add: Let_def)
    qed
  next
    case False
    then have "?p = ?e" by (auto simp: passed_extractor_def ex_Hob_eq Let_def)
    then show ?thesis by (simp add: passed_extractor_def ex_Hob_eq)
  qed
qed

text \<open>The states an extractor goes through, and that the operations of the router keep to them.\<close>

definition on_its_way :: "(string \<Rightarrow> string option) \<Rightarrow> (string, header_extractor) gomap \<Rightarrow> request \<Rightarrow> extractor \<Rightarrow> bool" where
  "on_its_way mime hx r e \<longleftrightarrow>
     e \<in> {newExtractor r, settle mime hx (newExtractor r), passed_extractor mime hx r}"

lemma on_its_way_reads:
  assumes "on_its_way mime hx r e"
  shows "ei_Hob (request_extractor mime hx) e = (x, e') \<Longrightarrow> e' = passed_extractor mime hx r"
    and "ei_Value (request_extractor mime hx) n e = (y, e') \<Longrightarrow> on_its_way mime hx r e'"
    and "ei_Path (request_extractor mime hx) e = (y, e') \<Longrightarrow> on_its_way mime hx r e'"
    and "ei_Source (request_extractor mime hx) e = (y, e') \<Longrightarrow> on_its_way mime hx r e'"
proof -
  have s: "on_its_way mime hx r (settle mime hx e)"
    using assms passed_extractor_steady(1) [of mime hx r] by (auto simp: on_its_way_def)
  have "snd (ex_Hob mime hx e) = passed_extractor mime hx r"
    using assms passed_extractor_steady(2,3) [of mime hx r] by (auto simp: on_its_way_def passed_extractor_def)
  then show "ei_Hob (request_extractor mime hx) e = (x, e') \<Longrightarrow> e' = passed_extractor mime hx r"
    by (auto simp: request_extractor_def)
  show "ei_Value (request_extractor mime hx) n e = (y, e') \<Longrightarrow> on_its_way mime hx r e'"
    "ei_Path (request_extractor mime hx) e = (y, e') \<Longrightarrow> on_its_way mime hx r e'"
    "ei_Source (request_extractor mime hx) e = (y, e') \<Longrightarrow> on_its_way mime hx r e'"
    using s by (auto simp: request_extractor_def ex_Value_def ex_Path_def ex_Source_def Let_def)
qed

lemma passed_on_its_way [simp]: "on_its_way mime hx r (passed_extractor mime hx r)" "on_its_way mime hx r (newExtractor r)"
  by (simp_all add: on_its_way_def)

lemma run_checks_on_its_way:
  assumes "\<And>c b e e'. c \<in> set cs \<Longrightarrow> on_its_way mime hx r e \<Longrightarrow> c e = (b, e') \<Longrightarrow> on_its_way mime hx r e'"
    and "on_its_way mime hx r e" and "run_checks cs e = (b, e')"
  shows "on_its_way mime hx r e'"
  using assms
proof (induction cs arbitrary: e)
  case (Cons c cs)
  obtain b1 e1 where c: "c e = (b1, e1)" by (cases "c e")
  have "on_its_way mime hx r e1" using Cons.prems(1) [of c e b1 e1] Cons.prems(2) c by simp
  with Cons.IH [of e1] Cons.prems c show ?case by (cases b1) (auto simp: list.set_intros(2))
qed simp

lemma match_on_its_way:
  assumes "on_its_way mime hx r e" and "match_matches (request_extractor mime hx) roll m e = (b, e')"
  shows "on_its_way mime hx r e'"
proof (rule run_checks_on_its_way [OF _ assms(1) assms(2) [unfolded match_matches_def]])
  fix c b e e'
  assume c: "c \<in> set [(\<lambda>e. if m_Path m = '''' then (True, e)
           else (case ei_Path (request_extractor mime hx) e of (p, e') \<Rightarrow> (has_prefix p (m_Path m), e'))),
      (\<lambda>e. if m_Source m = '''' then (True, e)
           else (case ei_Source (request_extractor mime hx) e of (s, e') \<Rightarrow> (s = m_Source m, e'))),
      (\<lambda>e. if m_Hob m = '''' then (True, e)
           else (case ei_Hob (request_extractor mime hx) e of (h, e') \<Rightarrow> (withinCsv (m_Hob m) h, e'))),
      match_sample (request_extractor mime hx) roll m]"
    and e: "on_its_way mime hx r e" "c e = (b, e')"
  note k = on_its_way_reads [OF e(1)]
  show "on_its_way mime hx r e'"
    using c e k by (auto simp: match_sample_def Let_def split: if_splits prod.splits)
qed

lemma route_on_its_way:
  assumes "on_its_way mime hx r e" and "Route (request_extractor mime hx) cfg rolls e = (x, e')"
  shows "on_its_way mime hx r e'"
proof -
  have "on_its_way mime hx r e'"
    if "route_loop (request_extractor mime hx) rolls i rs e = (x, e')" "on_its_way mime hx r e" for i rs e
    using that
  proof (induction rs arbitrary: i e)
    case (Cons q rs)
    obtain b e1 where m: "Rule_Matches (request_extractor mime hx) (rolls i) q e = (b, e1)" by fastforce
    then have "on_its_way mime hx r e1"
      using Cons.prems(2) match_on_its_way by (auto simp: Rule_Matches_def split: option.splits)
    with Cons m show ?case by (auto split: if_splits)
  qed simp
  with assms show ?thesis by (auto simp: Route_def split: option.splits)
qed

lemma hostname_passes:
  assumes "on_its_way mime hx r e" and "CorrectHostname (request_extractor mime hx) cfg h e = (c, e')"
  shows "e' = passed_extractor mime hx r"
proof -
  let ?I = "request_extractor mime hx" and ?p = "passed_extractor mime hx r"
  have h1: "\<exists>x. ei_Hob ?I e = (x, ?p)" by (metis on_its_way_reads(1) [OF assms(1)] surj_pair)
  have h2: "\<exists>x. ei_Hob ?I ?p = (x, ?p)" by (metis on_its_way_reads(1) [OF passed_on_its_way(1)] surj_pair)
  have src: "\<exists>x. ei_Source ?I ?p = (x, ?p)"
    by (simp add: request_extractor_def ex_Source_def passed_extractor_steady(1) Let_def)
  show ?thesis
    using assms(2) h1 h2 src
    by (auto simp: CorrectHostname_def Router_Region_def Let_def split: if_splits option.splits)
qed

lemma mode_passes:
  assumes "GetHobMode (request_extractor mime hx) cfg (passed_extractor mime hx r) = (c, e')"
  shows "e' = passed_extractor mime hx r"
  using assms on_its_way_reads(1) [OF passed_on_its_way(1)]
  by (auto simp: GetHobMode_def Let_def split: if_splits prod.splits)

text \<open>Behind \<open>maybePinRequestToHostname\<close> the request is the one that has passed.\<close>

lemma maybePin_passes:
  assumes "maybePinRequestToHostname (racing_router mime hx cfgs) (newExtractor r, n) w = (w', en)"
  shows "fst en = passed_extractor mime hx r"
proof -
  obtain c e1 where "CorrectHostname (request_extractor mime hx) (cfgs n) (rw_Header w) (newExtractor r) = (c, e1)" by fastforce
  with assms hostname_passes [OF passed_on_its_way(2) this] show ?thesis
    by (auto simp: maybePinRequestToHostname_def racing_router_def counted_def Let_def)
qed

section \<open>Properties\<close>

text \<open>However often the configuration is reloaded while a request is handled: the route is the one of the
  first configuration the request meets; a request routed to H1, throttled or deprecated causes no call,
  any other at most one, to the endpoint of its path; it is counted once, unless it is turned away; and
  a request that meets no reload is handled as by the router of that one configuration.\<close>

theorem reload_race:
  assumes "evs = snd (racing_handler E m up cfgs rolls r w)"
    and "a = final_action (fst (Route (request_extractor (en_mime E) (en_hx E)) (cfgs 0) rolls (newExtractor r)))"
  shows "(a \<in> {ActionProxyToH1, ActionThrottle, ActionDeprecate} \<longrightarrow> bus_calls evs = []) \<and>
    length (bus_calls evs) \<le> 1 \<and>
    (\<forall>c\<in>set (bus_calls evs). (bc_Service c, bc_Endpoint c) = pathToEndpoint (rq_Path r)) \<and>
    (\<exists>n. \<forall>p\<in>{rq_Path r, ''/''}. records p evs = (if a \<in> {ActionThrottle, ActionDeprecate} then [] else [n])) \<and>
    (cfgs = (\<lambda>_. cfg) \<longrightarrow> racing_handler E m up cfgs rolls r w = default_handler E m up cfg rolls r w)"
proof -
  let ?R = "racing_router (en_mime E) (en_hx E) cfgs"
  obtain route e1 where route: "ri_Route (rule_router (en_mime E) (en_hx E) (cfgs 0)) rolls (newExtractor r) = (route, e1)"
    by fastforce
  then have 1: "ri_Route ?R rolls (newExtractor r, 0) = (route, (e1, Suc 0))" by (simp add: racing_ops)
  have a: "final_action route = a" using route assms(2) by (simp add: rule_router_def Let_def)
  have req: "ri_request ?R (newExtractor r, 0) = r" by (simp add: racing_router_def newExtractor_def Let_def)
  note facts = racing.call_facts [OF 1 refl, of E m up w] racing.count_facts [of "en_mime E" "en_hx E" cfgs "(newExtractor r, 0)" E m up rolls w]
  have steady: "racing_handler E m up (\<lambda>_. cfg) rolls r w = default_handler E m up cfg rolls r w"
    by (simp add: racing_handler_def default_handler_def api_Handler_def racing_ops steady_maybePin steady_h2
        racing_ops(5) [of _ _ _ _ _ cfg] Let_def split: prod.split option.split)
  show ?thesis
    using facts steady unfolding assms(1) racing_handler_def req 1 fst_conv a by blast
qed

text \<open>One request can be routed by one configuration and pinned by the next: here it is turned away by a
  rule that is gone, and told the version and the URLs of the new configuration.\<close>

definition newer_config :: cp_config where
  "newer_config = test_config\<lparr>cf_rules := [], cf_version := 99\<rparr>"

definition reloaded :: "nat \<Rightarrow> cp_config" where
  "reloaded n = (if n = 0 then throttle_config else newer_config)"

theorem reload_race_witness:
  "let (w', evs) = racing_handler test_env [] (test_upstream []) reloaded (\<lambda>_. 0) (ex_req lon_request) new_rwriter in
     rw_Status w' = Some 503 \<and> header_get (rw_Sent w') ''X-H-Endpoint-Timestamp'' = ''99'' \<and> bus_calls evs = []"
proof -
  let ?h = "racing_handler test_env [] (test_upstream []) reloaded (\<lambda>_. 0) (ex_req lon_request) new_rwriter"
  have "final_action (fst (Route (request_extractor (en_mime test_env) (en_hx test_env)) (reloaded 0) (\<lambda>_. 0)
      (newExtractor (ex_req lon_request)))) = ActionThrottle" by code_simp
  with reload_race [OF refl refl, where E = test_env and m = "[]" and up = "test_upstream []" and cfgs = reloaded and
      rolls = "\<lambda>_. 0" and r = "ex_req lon_request" and w = new_rwriter]
  have "bus_calls (snd ?h) = []" by simp
  moreover have "rw_Status (fst ?h) = Some 503 \<and> header_get (rw_Sent (fst ?h)) ''X-H-Endpoint-Timestamp'' = ''99''" by code_simp
  ultimately show ?thesis by (simp add: split_beta Let_def)
qed

end
