(* ===== verification/Regexp.thy ===== *)
theory Regexp
  imports Go_Base
begin

text \<open>
  Go's package \<open>regexp\<close>, as far as the proxy uses it: anchored patterns made of characters, classes,
  options, repetitions and the wildcard. Patterns are matched by derivatives over the bytes of the
  string; \<open>matches_lang\<close> shows that the matcher decides the language of the pattern. The wildcard
  stands for one code point in UTF-8 other than a line feed, or for one byte that belongs to none.
\<close>

datatype rx = Nul | Eps | Cls "char \<Rightarrow> bool" | Seq rx rx | Alt rx rx | Star rx

fun lang :: "rx \<Rightarrow> string set" where
  "lang Nul = {}"
| "lang Eps = {[]}"
| "lang (Cls p) = {[c] |c. p c}"
| "lang (Seq r s) = {u @ v |u v. u \<in> lang r \<and> v \<in> lang s}"
| "lang (Alt r s) = lang r \<union> lang s"
| "lang (Star r) = {concat ws |ws. set ws \<subseteq> lang r}"

lemma lang_SeqI: "u \<in> lang r \<Longrightarrow> v \<in> lang t \<Longrightarrow> u @ v \<in> lang (Seq r t)"
  by auto

fun nullable :: "rx \<Rightarrow> bool" where
  "nullable Nul = False"
| "nullable Eps = True"
| "nullable (Cls p) = False"
| "nullable (Seq r s) = (nullable r \<and> nullable s)"
| "nullable (Alt r s) = (nullable r \<or> nullable s)"
| "nullable (Star r) = True"

fun deriv :: "char \<Rightarrow> rx \<Rightarrow> rx" where
  "deriv c Nul = Nul"
| "deriv c Eps = Nul"
| "deriv c (Cls p) = (if p c then Eps else Nul)"
| "deriv c (Seq r s) = (if nullable r then Alt (Seq (deriv c r) s) (deriv c s) else Seq (deriv c r) s)"
| "deriv c (Alt r s) = Alt (deriv c r) (deriv c s)"
| "deriv c (Star r) = Seq (deriv c r) (Star r)"

fun matches :: "rx \<Rightarrow> string \<Rightarrow> bool" where
  "matches r [] = nullable r"
| "matches r (c # s) = matches (deriv c r) s"

section \<open>The matcher decides the language\<close>

lemma nullable_lang: "nullable r \<longleftrightarrow> [] \<in> lang r"
  by (induction r) (auto intro: exI [of _ "[]"])

lemma concat_Cons_nonempty:
  "concat ws = c # s \<Longrightarrow> \<exists>w us vs. ws = us @ (c # w) # vs \<and> concat us = [] \<and> s = w @ concat vs"
proof (induction ws)
  case (Cons x ws)
  show ?case
  proof (cases x)
    case Nil
    with Cons obtain w us vs where "ws = us @ (c # w) # vs" "concat us = []" "s = w @ concat vs" by auto
    with Nil show ?thesis
      by (intro exI [of _ w] exI [of _ "[] # us"] exI [of _ vs]) auto
  next
    case (Cons d w)
    with Cons.prems show ?thesis by (intro exI [of _ w] exI [of _ "[]"] exI [of _ ws]) auto
  qed
qed simp

lemma deriv_lang: "s \<in> lang (deriv c r) \<longleftrightarrow> c # s \<in> lang r"
proof (induction r arbitrary: s)
  case (Seq r1 r2)
  have "c # s \<in> lang (Seq r1 r2) \<longleftrightarrow>
      (\<exists>u v. s = u @ v \<and> c # u \<in> lang r1 \<and> v \<in> lang r2) \<or> ([] \<in> lang r1 \<and> c # s \<in> lang r2)"
    by (auto simp: Cons_eq_append_conv)
  then show ?case using Seq by (auto simp: nullable_lang)
next
  case (Star r)
  have "c # s \<in> lang (Star r) \<longleftrightarrow> (\<exists>u ws. s = u @ concat ws \<and> c # u \<in> lang r \<and> set ws \<subseteq> lang r)"
  proof
    assume "c # s \<in> lang (Star r)"
    then obtain ws where "concat ws = c # s" "set ws \<subseteq> lang r" by auto
    with concat_Cons_nonempty [of ws c s] obtain w us vs where
      "ws = us @ (c # w) # vs" "s = w @ concat vs" by blast
    with \<open>set ws \<subseteq> lang r\<close>
    show "\<exists>u ws. s = u @ concat ws \<and> c # u \<in> lang r \<and> set ws \<subseteq> lang r"
      by (intro exI [of _ w] exI [of _ vs]) auto
  next
    assume "\<exists>u ws. s = u @ concat ws \<and> c # u \<in> lang r \<and> set ws \<subseteq> lang r"
    then obtain u ws where "s = u @ concat ws" "c # u \<in> lang r" "set ws \<subseteq> lang r" by blast
    then show "c # s \<in> lang (Star r)" by (auto intro!: exI [of _ "(c # u) # ws"])
  qed
  with Star show ?case by auto
qed auto

lemma matches_lang: "matches r s \<longleftrightarrow> s \<in> lang r"
  by (induction s arbitrary: r) (simp_all add: nullable_lang deriv_lang)

section \<open>Building patterns\<close>

fun lit :: "string \<Rightarrow> rx" where
  "lit [] = Eps"
| "lit (c # s) = Seq (Cls (\<lambda>d. d = c)) (lit s)"

definition opt :: "rx \<Rightarrow> rx" where "opt r = Alt Eps r"
definition plus :: "rx \<Rightarrow> rx" where "plus r = Seq r (Star r)"

definition in_range :: "nat \<Rightarrow> nat \<Rightarrow> char \<Rightarrow> bool" where
  "in_range a b c \<longleftrightarrow> a \<le> of_char c \<and> of_char c \<le> b"

text \<open>The UTF-8 encodings of one, two, three and four bytes.\<close>

definition wildcard :: rx where
  "wildcard =
     (let cont = Cls (in_range 128 191) in
      Alt (Cls (\<lambda>c. c \<noteq> CHR 0x0A))
      (Alt (Seq (Cls (in_range 194 223)) cont)
      (Alt (Seq (Cls (in_range 224 224)) (Seq (Cls (in_range 160 191)) cont))
      (Alt (Seq (Cls (in_range 225 236)) (Seq cont cont))
      (Alt (Seq (Cls (in_range 237 237)) (Seq (Cls (in_range 128 159)) cont))
      (Alt (Seq (Cls (in_range 238 239)) (Seq cont cont))
      (Alt (Seq (Cls (in_range 240 240)) (Seq (Cls (in_range 144 191)) (Seq cont cont)))
      (Alt (Seq (Cls (in_range 241 243)) (Seq cont (Seq cont cont)))
           (Seq (Cls (in_range 244 244)) (Seq (Cls (in_range 128 143)) (Seq cont cont)))))))))))"

lemma lang_lit [simp]: "lang (lit w) = {w}"
  by (induction w) auto

lemma lang_opt [simp]: "lang (opt r) = insert [] (lang r)"
  by (auto simp: opt_def)

lemma lang_Star_Cls: "lang (Star (Cls p)) = {w. list_all p w}"
proof -
  have "\<exists>ws. w = concat ws \<and> set ws \<subseteq> {[c] |c. p c}" if "list_all p w" for w
    using that by (intro exI [of _ "map (\<lambda>c. [c]) w"]) (auto simp: list_all_iff)
  moreover have "list_all p (concat ws)" if "set ws \<subseteq> {[c] |c. p c}" for ws
    using that by (induction ws) auto
  ultimately show ?thesis by auto
qed

lemma lang_plus_Cls [simp]: "lang (plus (Cls p)) = {w. w \<noteq> [] \<and> list_all p w}"
proof -
  have "lang (plus (Cls p)) = {[c] @ w |c w. p c \<and> list_all p w}"
    unfolding plus_def lang.simps(4) lang_Star_Cls by (simp del: append_Cons) blast
  also have "\<dots> = {w. w \<noteq> [] \<and> list_all p w}"
    by (auto simp: neq_Nil_conv)
  finally show ?thesis .
qed

lemma wildcard_single: "c \<noteq> CHR 0x0A \<Longrightarrow> [c] \<in> lang wildcard"
  by (simp add: wildcard_def Let_def)

lemma wildcard_nonempty: "w \<in> lang wildcard \<Longrightarrow> w \<noteq> []"
  by (auto simp: wildcard_def Let_def)

end
