(* ===== verification/Cors.thy ===== *)
theory Cors
  imports Regexp Http_Handler
begin

text \<open>
  \<open>src/handler/cors.go\<close>: which origins may read the answers (the eight patterns of
  \<open>allowedCorsOrigins\<close>), and the handler that sets the CORS headers and answers preflight requests.
\<close>

section \<open>The patterns\<close>

definition word_char :: "char \<Rightarrow> bool" where
  "word_char c \<longleftrightarrow> is_alnum c \<or> c = CHR ''_''"

definition host_char :: "char \<Rightarrow> bool" where
  "host_char c \<longleftrightarrow> c = CHR ''-'' \<or> word_char c \<or> c = CHR ''.''"

definition is_digit :: "char \<Rightarrow> bool" where
  "is_digit c \<longleftrightarrow> CHR ''0'' \<le> c \<and> c \<le> CHR ''9''"

text \<open>\<open>^https?://(?:[-\w\.]+\.)?NAME.TLD(:\d+)?$\<close>, where the point before \<open>TLD\<close> is not escaped.\<close>

definition origin_rx :: "string \<Rightarrow> string \<Rightarrow> rx" where
  "origin_rx name tld =
     Seq (lit ''http'') (Seq (opt (lit ''s'')) (Seq (lit ''://'')
       (Seq (opt (Seq (plus (Cls host_char)) (lit ''.'')))
         (Seq (lit name) (Seq wildcard (Seq (lit tld)
           (opt (Seq (lit '':'') (plus (Cls is_digit))))))))))"

definition cors_names :: "(string \<times> string) list" where
  "cors_names =
     [(''hailoweb'', ''com''), (''hailoapp'', ''com''), (''HailoOSS'', ''com''), (''hailovpn'', ''com''),
      (''elasticride'', ''com''), (''elasticride'', ''local''), (''elasticride'', ''dev''), (''hailopay'', ''com'')]"

definition allowedCorsOrigins :: "rx list" where
  "allowedCorsOrigins = map (\<lambda>(name, tld). origin_rx name tld) cors_names"

definition isAllowedCORSOrigin :: "string \<Rightarrow> bool" where
  "isAllowedCORSOrigin origin \<longleftrightarrow> list_ex (\<lambda>re. matches re origin) allowedCorsOrigins"

section \<open>The handler\<close>

definition CORSHandler :: "handler \<Rightarrow> handler" where
  "CORSHandler h r w =
     (let origin = header_get (rq_Header r) ''Origin'';
          wanted = header_get (rq_Header r) ''Access-Control-Request-Headers''
      in if origin \<noteq> '''' \<and> isAllowedCORSOrigin origin then
           (let w1 = set_hdr ''Access-Control-Allow-Methods'' ''DELETE, GET, HEAD, OPTIONS, POST, PUT''
                       (set_hdr ''Access-Control-Allow-Origin'' origin w);
                w2 = (if wanted \<noteq> '''' then set_hdr ''Access-Control-Allow-Headers'' wanted w1 else w1)
            in if rq_Method r = ''OPTIONS'' then (set_hdr ''Access-Control-Max-Age'' ''3600'' w2, [])
               else h r w2)
         else h r w)"

interpretation cors: http_middleware CORSHandler
proof
  fix h :: handler and r w
  assume h: "rw_grows w (fst (h r w))" for r w
  show "rw_grows w (fst (CORSHandler h r w))"
    unfolding CORSHandler_def Let_def by (auto intro!: grow_intros grows_trans [OF _ h])
qed

section \<open>Lemmas\<close>

text \<open>The shape of an allowed origin: the wildcard takes one code point, so also a point.\<close>

definition origin_shape :: "string \<Rightarrow> string \<Rightarrow> string \<Rightarrow> bool" where
  "origin_shape name tld s \<longleftrightarrow>
     (\<exists>sch sub x port. s = sch @ sub @ name @ x @ tld @ port \<and> sch \<in> {''http://'', ''https://''} \<and>
        (sub = '''' \<or> (\<exists>d. sub = d @ ''.'' \<and> d \<noteq> '''' \<and> list_all host_char d)) \<and>
        x \<in> lang wildcard \<and>
        (port = '''' \<or> (\<exists>n. port = '':'' @ n \<and> n \<noteq> '''' \<and> list_all is_digit n)))"

lemma lang_origin_rx: "s \<in> lang (origin_rx name tld) \<longleftrightarrow> origin_shape name tld s"
proof
  assume "s \<in> lang (origin_rx name tld)"
  then obtain o1 sub x port where s: "s = ''http'' @ o1 @ ''://'' @ sub @ name @ x @ tld @ port"
    and o1: "o1 \<in> {'''', ''s''}" and rest: "sub \<in> lang (opt (Seq (plus (Cls host_char)) (lit ''.'')))"
      "x \<in> lang wildcard" "port \<in> lang (opt (Seq (lit '':'') (plus (Cls is_digit))))"
    unfolding origin_rx_def lang.simps(4) lang_lit lang_opt by blast
  from o1 have "''http'' @ o1 @ ''://'' \<in> {''http://'', ''https://''}" by auto
  with s rest show "origin_shape name tld s"
    unfolding origin_shape_def
    by (intro exI [of _ "''http'' @ o1 @ ''://''"] exI [of _ sub] exI [of _ x] exI [of _ port]) auto
next
  assume "origin_shape name tld s"
  then obtain sch sub x port where s: "s = sch @ sub @ name @ x @ tld @ port"
    and sch: "sch \<in> {''http://'', ''https://''}"
    and rest: "sub = '''' \<or> (\<exists>d. sub = d @ ''.'' \<and> d \<noteq> '''' \<and> list_all host_char d)" "x \<in> lang wildcard"
      "port = '''' \<or> (\<exists>n. port = '':'' @ n \<and> n \<noteq> '''' \<and> list_all is_digit n)"
    unfolding origin_shape_def by blast
  from sch obtain o1 where o1: "o1 \<in> {'''', ''s''}" "sch = ''http'' @ o1 @ ''://''" by force
  have "sub \<in> lang (opt (Seq (plus (Cls host_char)) (lit ''.'')))"
    "port \<in> lang (opt (Seq (lit '':'') (plus (Cls is_digit))))" using rest by auto
  moreover from o1 have "o1 \<in> lang (opt (lit ''s''))" by simp
  ultimately have "''http'' @ o1 @ ''://'' @ sub @ name @ x @ tld @ port \<in> lang (origin_rx name tld)"
    unfolding origin_rx_def by (intro lang_SeqI rest(2)) simp_all
  then show "s \<in> lang (origin_rx name tld)" by (simp add: s o1(2))
qed

lemma isAllowed_shape:
  "isAllowedCORSOrigin origin \<longleftrightarrow> (\<exists>p\<in>set cors_names. origin_shape (fst p) (snd p) origin)"
  by (simp add: isAllowedCORSOrigin_def allowedCorsOrigins_def list_ex_iff matches_lang lang_origin_rx
      case_prod_beta)

section \<open>Properties\<close>

text \<open>C31: the origins that are allowed: \<open>http\<close> or \<open>https\<close>, any chain of subdomains, one of the eight
  domains with one code point where the point before the top-level domain stands, and an optional
  port. Nothing may come before or after.\<close>

theorem cors_origins:
  "isAllowedCORSOrigin origin \<longleftrightarrow> (\<exists>(name, tld) \<in> set cors_names. origin_shape name tld origin)"
  by (simp add: isAllowed_shape case_prod_beta)

text \<open>The point before the top-level domain is not escaped in the patterns, so it matches any
  character: a host that is in none of the eight domains, such as the single label \<open>hailowebxcom\<close> on a
  private network, is an allowed origin.\<close>

theorem cors_unescaped_point:
  assumes "(name, tld) \<in> set cors_names" and "c \<noteq> CHR 0x0A"
  shows "isAllowedCORSOrigin (''https://'' @ name @ [c] @ tld)"
proof -
  have "origin_shape name tld (''https://'' @ name @ [c] @ tld)"
    unfolding origin_shape_def
    using wildcard_single [OF assms(2)]
    by (intro exI [of _ "''https://''"] exI [of _ "''''"] exI [of _ "[c]"] exI [of _ "''''"]) simp
  with assms(1) show ?thesis unfolding isAllowed_shape by (metis fst_conv snd_conv)
qed

theorem cors_unescaped_point_witness:
  "isAllowedCORSOrigin ''https://hailowebxcom'' \<and> isAllowedCORSOrigin ''https://hailoweb/com''"
  using cors_unescaped_point [of "''hailoweb''" "''com''" "CHR ''x''"]
    cors_unescaped_point [of "''hailoweb''" "''com''" "CHR ''/''"]
  by (simp add: cors_names_def)

text \<open>What the handler does. A request without an allowed origin goes on as it is. For an allowed
  origin the writer passed on names exactly that origin and the fixed methods; a preflight request is
  answered here, with no call of the handler behind and no body.\<close>

theorem cors_decision:
  "let origin = header_get (rq_Header r) ''Origin'' in
   if origin = '''' \<or> \<not> isAllowedCORSOrigin origin then CORSHandler h r w = h r w
   else \<exists>w'. get_hdr w' ''Access-Control-Allow-Origin'' = origin \<and>
      get_hdr w' ''Access-Control-Allow-Methods'' = ''DELETE, GET, HEAD, OPTIONS, POST, PUT'' \<and>
      rw_Body w' = rw_Body w \<and> rw_Status w' = rw_Status w \<and>
      CORSHandler h r w = (if rq_Method r = ''OPTIONS'' then (w', []) else h r w')"
proof -
  let ?o = "header_get (rq_Header r) ''Origin''" and ?a = "header_get (rq_Header r) ''Access-Control-Request-Headers''"
  let ?w1 = "set_hdr ''Access-Control-Allow-Methods'' ''DELETE, GET, HEAD, OPTIONS, POST, PUT''
      (set_hdr ''Access-Control-Allow-Origin'' ?o w)"
  let ?w2 = "if ?a \<noteq> '''' then set_hdr ''Access-Control-Allow-Headers'' ?a ?w1 else ?w1"
  let ?w3 = "if rq_Method r = ''OPTIONS'' then set_hdr ''Access-Control-Max-Age'' ''3600'' ?w2 else ?w2"
  have keys: "distinct (map canonical_key [''Access-Control-Allow-Origin'', ''Access-Control-Allow-Methods'',
      ''Access-Control-Allow-Headers'', ''Access-Control-Max-Age''])" by code_simp
  show ?thesis
  proof (cases "?o = '''' \<or> \<not> isAllowedCORSOrigin ?o")
    case False
    then have "CORSHandler h r w = (if rq_Method r = ''OPTIONS'' then (?w3, []) else h r ?w3)"
      by (simp add: CORSHandler_def Let_def)
    moreover have "get_hdr ?w3 ''Access-Control-Allow-Origin'' = ?o"
      "get_hdr ?w3 ''Access-Control-Allow-Methods'' = ''DELETE, GET, HEAD, OPTIONS, POST, PUT''"
      "rw_Body ?w3 = rw_Body w" "rw_Status ?w3 = rw_Status w"
      using keys by (auto simp: header_get_set)
    ultimately show ?thesis using False unfolding Let_def by (metis (no_types, lifting))
  qed (auto simp: CORSHandler_def Let_def)
qed

end
