(* ===== verification/Throttling.thy ===== *)
theory Throttling
  imports Http_Handler Session
begin

text \<open>
  API throttling: \<open>src/handler/throttling.go\<close>, \<open>throttlesync.go\<close> and \<open>throttlingscoper.go\<close>. A request is
  counted in the bucket of its session, and turned away when the bucket is full. Two goroutines work on
  the counters: the ingester takes bucket names from a channel and counts them in a shared buffer, the
  synchroniser swaps the buffer for a new one every five seconds, reports the counts to the throttling
  service and gets back the buckets to throttle.

  The buffer is a published pointer (\<open>th_buf\<close>) to a map from names to the addresses of 64-bit counters
  (\<open>th_maps\<close>, \<open>th_heap\<close>); a published map is never changed, it is copied and swapped by
  compare-and-swap. A step of the model is one atomic access of a goroutine; between two of them the
  other goroutine may run. The fields \<open>tg_\<close> record the history: the names taken from the channel, the
  counts read for the report, and the number of swaps.

  The throttling service, its reply and the setting \<open>reportIncrements\<close> are inputs of the steps. The
  goroutines run until the server dies; a prefix of a run is any reachable state.
\<close>

section \<open>The state\<close>

datatype ingester = IIdle | ILoad string | IAdd string nat | ICopy string nat | IReload string

datatype synchroniser = SIdle | SReport "(string, nat) gomap" "(string \<times> 64 word) list" | SStore "string list"

record throttler =
  th_throttled :: "string list"
  th_buf :: nat
  th_maps :: "nat \<Rightarrow> (string, nat) gomap"
  th_nmaps :: nat
  th_heap :: "nat \<Rightarrow> 64 word"
  th_ncells :: nat
  th_chan :: "string list"
  th_ing :: ingester
  th_sync :: synchroniser
  tg_consumed :: "string list"
  tg_reported :: "(string \<times> 64 word) list"
  tg_swaps :: nat

definition NewThrottlingHandler :: throttler where
  "NewThrottlingHandler =
     \<lparr>th_throttled = [], th_buf = 0, th_maps = (\<lambda>_. []), th_nmaps = 1, th_heap = (\<lambda>_. 0), th_ncells = 0,
      th_chan = [], th_ing = IIdle, th_sync = SIdle, tg_consumed = [], tg_reported = [], tg_swaps = 0\<rparr>"

definition channel_size :: int where "channel_size = 500000"

section \<open>Requests\<close>

definition buckets :: "(string, header_extractor) gomap \<Rightarrow> request \<Rightarrow> string list" where
  "buckets hx r = (let sessId = SessionId hx (Some r) in if sessId \<noteq> '''' then [''sessId:'' @ sessId] else [])"

definition anyThrottled :: "string list \<Rightarrow> string list \<Rightarrow> bool" where
  "anyThrottled throttled bucks \<longleftrightarrow> list_ex (\<lambda>b. b \<in> set throttled) bucks"

text \<open>Sending to a full channel is skipped.\<close>

fun ingest :: "string list \<Rightarrow> string list \<Rightarrow> string list" where
  "ingest [] chan = chan"
| "ingest (b # bs) chan = ingest bs (if int (length chan) < channel_size then chan @ [b] else chan)"

definition throttled_answer :: "rwriter \<Rightarrow> rwriter" where
  "throttled_answer w =
     write_body (Json (json_error_body \<lparr>eb_Status = False, eb_Payload = ''Client error: rate limit exceeded'',
         eb_Number = 429, eb_DottedCode = ''com.HailoOSS.api.throttled'', eb_Context = None\<rparr>))
       (write_header 429 (set_hdr ''Content-Type'' ''application/json; charset=utf-8'' w))"

text \<open>\<open>ServeHTTP\<close>: the effect on the channel, and the answer.\<close>

definition serve_count :: "(string, header_extractor) gomap \<Rightarrow> request \<Rightarrow> throttler \<Rightarrow> throttler" where
  "serve_count hx r s = s\<lparr>th_chan := ingest (buckets hx r) (th_chan s)\<rparr>"

definition ThrottlingHandler :: "(string, header_extractor) gomap \<Rightarrow> string list \<Rightarrow> handler \<Rightarrow> handler" where
  "ThrottlingHandler hx throttled h r w =
     (if anyThrottled throttled (buckets hx r) then (throttled_answer w, []) else h r w)"

interpretation throttling: http_middleware "ThrottlingHandler hx tb" for hx tb
  by unfold_locales (auto simp: ThrottlingHandler_def throttled_answer_def intro!: grow_intros)

section \<open>The ingester\<close>

definition ing_receive :: "throttler \<Rightarrow> throttler" where
  "ing_receive s =
     (case (th_ing s, th_chan s) of
        (IIdle, k # ks) \<Rightarrow> s\<lparr>th_ing := ILoad k, th_chan := ks, tg_consumed := tg_consumed s @ [k]\<rparr>
      | _ \<Rightarrow> s)"

definition ing_load :: "throttler \<Rightarrow> throttler" where
  "ing_load s =
     (case th_ing s of
        ILoad k \<Rightarrow> (case map_of (th_maps s (th_buf s)) k of
           Some a \<Rightarrow> s\<lparr>th_ing := IAdd k a\<rparr>
         | None \<Rightarrow> s\<lparr>th_ing := ICopy k (th_buf s)\<rparr>)
      | _ \<Rightarrow> s)"

definition ing_add :: "throttler \<Rightarrow> throttler" where
  "ing_add s =
     (case th_ing s of
        IAdd k a \<Rightarrow> s\<lparr>th_heap := (th_heap s)(a := th_heap s a + 1), th_ing := IIdle\<rparr>
      | _ \<Rightarrow> s)"

text \<open>The copy with the new key and a counter of 1, and the compare-and-swap.\<close>

definition ing_cas :: "throttler \<Rightarrow> throttler" where
  "ing_cas s =
     (case th_ing s of
        ICopy k loadedP \<Rightarrow>
          (let newBuf = AList.update k (th_ncells s) (th_maps s loadedP);
               s' = s\<lparr>th_maps := (th_maps s)(th_nmaps s := newBuf), th_nmaps := th_nmaps s + 1,
                      th_heap := (th_heap s)(th_ncells s := 1), th_ncells := th_ncells s + 1\<rparr>
           in if th_buf s = loadedP then s'\<lparr>th_buf := th_nmaps s, th_ing := IIdle\<rparr>
              else s'\<lparr>th_ing := IReload k\<rparr>)
      | _ \<Rightarrow> s)"

definition ing_reload :: "throttler \<Rightarrow> throttler" where
  "ing_reload s = (case th_ing s of IReload k \<Rightarrow> s\<lparr>th_ing := ICopy k (th_buf s)\<rparr> | _ \<Rightarrow> s)"

section \<open>The synchroniser\<close>

text \<open>\<open>reportIncrements\<close> returns at once, with no buckets, when reporting is off.\<close>

definition report_start :: "bool \<Rightarrow> (string \<times> nat) list \<Rightarrow> synchroniser" where [simp]:
  "report_start reporting buf = (if reporting then SReport buf [] else SStore [])"

definition sync_swap :: "bool \<Rightarrow> throttler \<Rightarrow> throttler" where
  "sync_swap reporting s =
     (case th_sync s of
        SIdle \<Rightarrow> s\<lparr>th_maps := (th_maps s)(th_nmaps s := []), th_nmaps := th_nmaps s + 1, th_buf := th_nmaps s,
                   th_sync := report_start reporting (th_maps s (th_buf s)),
                   tg_swaps := tg_swaps s + 1\<rparr>
      | _ \<Rightarrow> s)"

definition sync_read :: "throttler \<Rightarrow> throttler" where
  "sync_read s =
     (case th_sync s of
        SReport ((k, a) # rest) acc \<Rightarrow>
          s\<lparr>th_sync := SReport rest (acc @ [(k, th_heap s a)]), tg_reported := tg_reported s @ [(k, th_heap s a)]\<rparr>
      | _ \<Rightarrow> s)"

text \<open>The reply of the service: the buckets to throttle, or an error, which throttles nothing.\<close>

definition sync_call :: "((string \<times> 64 word) list \<Rightarrow> string list option) \<Rightarrow> throttler \<Rightarrow> throttler" where
  "sync_call service s =
     (case th_sync s of
        SReport [] acc \<Rightarrow> s\<lparr>th_sync := SStore (case service acc of None \<Rightarrow> [] | Some tb \<Rightarrow> tb)\<rparr>
      | _ \<Rightarrow> s)"

definition sync_store :: "throttler \<Rightarrow> throttler" where
  "sync_store s = (case th_sync s of SStore tb \<Rightarrow> s\<lparr>th_throttled := tb, th_sync := SIdle\<rparr> | _ \<Rightarrow> s)"

text \<open>The caller's name on the report.\<close>

definition scoped_from :: "string \<Rightarrow> string" where
  "scoped_from f = f @ ''.throttlesync''"

definition ts_Context :: "string \<Rightarrow> string" where
  "ts_Context server_Name = scoped_from server_Name"

definition ts_ScopedRequest :: "('req \<Rightarrow> string) \<Rightarrow> (string \<Rightarrow> 'req \<Rightarrow> 'req) \<Rightarrow> 'req + string \<Rightarrow> 'req + string" where
  "ts_ScopedRequest get_from set_from impl =
     (case impl of Inl req \<Rightarrow> Inl (set_from (scoped_from (get_from req)) req) | Inr err \<Rightarrow> Inr err)"

section \<open>Runs\<close>

inductive throttle_step :: "bool \<Rightarrow> throttler \<Rightarrow> throttler \<Rightarrow> bool" for always_report :: bool where
  arrive: "throttle_step always_report s (serve_count hx r s)"
| receive: "throttle_step always_report s (ing_receive s)"
| load: "throttle_step always_report s (ing_load s)"
| add: "throttle_step always_report s (ing_add s)"
| cas: "throttle_step always_report s (ing_cas s)"
| reload: "throttle_step always_report s (ing_reload s)"
| swap: "always_report \<longrightarrow> reporting \<Longrightarrow> throttle_step always_report s (sync_swap reporting s)"
| read: "throttle_step always_report s (sync_read s)"
| call: "throttle_step always_report s (sync_call service s)"
| store: "throttle_step always_report s (sync_store s)"

definition throttle_reachable :: "bool \<Rightarrow> throttler \<Rightarrow> bool" where
  "throttle_reachable always_report s \<longleftrightarrow> (throttle_step always_report)\<^sup>*\<^sup>* NewThrottlingHandler s"

section \<open>The books of a run\<close>

text \<open>
  \<open>accounted s k\<close>: what is known of key \<open>k\<close>, as the sum of the reported counts, of the counters in the
  published buffer and in the buffer under report, and of the name the ingester holds.
\<close>

definition tally :: "('a \<Rightarrow> nat) \<Rightarrow> string \<Rightarrow> (string \<times> 'a) list \<Rightarrow> nat" where
  "tally f k xs = sum_list (map (\<lambda>(x, y). if x = k then f y else 0) xs)"

definition unreported :: "throttler \<Rightarrow> (string, nat) gomap" where
  "unreported s = (case th_sync s of SReport m acc \<Rightarrow> m | _ \<Rightarrow> [])"

definition live_cells :: "throttler \<Rightarrow> (string \<times> nat) list" where
  "live_cells s = th_maps s (th_buf s) @ unreported s"

definition in_hand :: "ingester \<Rightarrow> string \<Rightarrow> nat" where
  "in_hand i k =
     (case i of IIdle \<Rightarrow> 0 | ILoad x \<Rightarrow> of_bool (x = k) | IAdd x a \<Rightarrow> of_bool (x = k)
      | ICopy x p \<Rightarrow> of_bool (x = k) | IReload x \<Rightarrow> of_bool (x = k))"

definition accounted :: "throttler \<Rightarrow> string \<Rightarrow> nat" where
  "accounted s k = tally unat k (tg_reported s) + tally (\<lambda>a. unat (th_heap s a)) k (live_cells s) + in_hand (th_ing s) k"

text \<open>An increment is in danger while its counter is no longer in the published buffer.\<close>

definition in_danger :: "throttler \<Rightarrow> string \<Rightarrow> nat" where
  "in_danger s k = (case th_ing s of IAdd x a \<Rightarrow> of_bool (x = k \<and> (x, a) \<notin> set (th_maps s (th_buf s))) | _ \<Rightarrow> 0)"

definition ing_ok :: "throttler \<Rightarrow> bool" where
  "ing_ok s =
     (case th_ing s of
        IAdd k a \<Rightarrow> a < th_ncells s \<and> (\<forall>x. (x, a) \<in> set (live_cells s) \<longrightarrow> x = k)
      | ICopy k p \<Rightarrow> p < th_nmaps s \<and> k \<notin> fst ` set (th_maps s (th_buf s))
      | IReload k \<Rightarrow> k \<notin> fst ` set (th_maps s (th_buf s))
      | _ \<Rightarrow> True)"

definition cells_ok :: "throttler \<Rightarrow> bool" where
  "cells_ok s \<longleftrightarrow> th_buf s < th_nmaps s \<and> distinct (map snd (live_cells s)) \<and> (\<forall>(x, a) \<in> set (live_cells s). a < th_ncells s)"

definition books_ok :: "bool \<Rightarrow> throttler \<Rightarrow> string \<Rightarrow> bool" where
  "books_ok always_report s k \<longleftrightarrow>
     accounted s k \<le> count_list (tg_consumed s) k
     \<and> (always_report \<and> length (tg_consumed s) < 2 ^ 64 \<longrightarrow>
          count_list (tg_consumed s) k + in_danger s k \<le> accounted s k + tg_swaps s)"

lemmas throttle_inv_defs = ing_ok_def cells_ok_def books_ok_def accounted_def in_danger_def in_hand_def live_cells_def unreported_def

lemma tally_simps [simp]:
  "tally f k [] = 0"
  "tally f k ((x, y) # xs) = (if x = k then f y else 0) + tally f k xs"
  "tally f k (xs @ ys) = tally f k xs + tally f k ys"
  by (simp_all add: tally_def)

lemma tally_absent: "a \<notin> snd ` set m \<Longrightarrow> tally (\<lambda>x. f ((h(a := v)) x)) k m = tally (\<lambda>x. f (h x)) k m"
  by (induction m) auto

lemma tally_write:
  "distinct (map snd m) \<Longrightarrow>
     tally (\<lambda>x. f ((h(a := v)) x)) k m + (if (k, a) \<in> set m then f (h a) else 0)
       = tally (\<lambda>x. f (h x)) k m + (if (k, a) \<in> set m then f v else 0)"
proof (induction m)
  case (Cons xy m)
  obtain x b where xy: "xy = (x, b)" by fastforce
  show ?case
  proof (cases "b = a")
    case True
    with Cons.prems have "a \<notin> snd ` set m" by (simp add: xy)
    moreover from this have "(k, a) \<notin> set m" by force
    ultimately show ?thesis using True tally_absent [of a m f h v k] by (auto simp: xy)
  next
    case False
    with Cons.IH Cons.prems show ?thesis by (auto simp: xy)
  qed
qed simp

definition books_inv :: "bool \<Rightarrow> throttler \<Rightarrow> bool" where
  "books_inv always_report s \<longleftrightarrow> ing_ok s \<and> cells_ok s \<and> (\<forall>k. books_ok always_report s k)"

lemma books_invI [intro?]:
  assumes "ing_ok s" and "cells_ok s" and "\<And>k. books_ok ar s k"
  shows "books_inv ar s"
  using assms by (simp add: books_inv_def)

lemma books_init: "books_inv ar NewThrottlingHandler"
  by (simp add: books_inv_def throttle_inv_defs NewThrottlingHandler_def)

lemma books_arrive: "books_inv ar s \<Longrightarrow> books_inv ar (serve_count hx r s)"
  by (simp add: books_inv_def throttle_inv_defs serve_count_def cong: ingester.case_cong synchroniser.case_cong)

lemma books_receive:
  assumes inv: "books_inv ar s"
  shows "books_inv ar (ing_receive s)"
proof (cases "th_ing s = IIdle \<and> th_chan s \<noteq> []")
  case True
  then obtain x ks where ch: "th_ing s = IIdle" "th_chan s = x # ks" by (auto simp: neq_Nil_conv)
  show ?thesis
  proof
    fix k
    have "books_ok ar s k" using inv by (simp add: books_inv_def)
    then show "books_ok ar (ing_receive s) k"
      by (auto simp: ing_receive_def ch throttle_inv_defs)
  qed (use inv in \<open>auto simp: books_inv_def ing_receive_def ch throttle_inv_defs\<close>)
next
  case False
  then have "ing_receive s = s"
    by (auto simp: ing_receive_def split: ingester.splits list.splits)
  with inv show ?thesis by simp
qed

lemma books_load:
  assumes inv: "books_inv ar s"
  shows "books_inv ar (ing_load s)"
proof (cases "\<exists>x. th_ing s = ILoad x")
  case True
  then obtain x where i: "th_ing s = ILoad x" by blast
  have ok: "cells_ok s" and bk: "\<And>k. books_ok ar s k" using inv by (simp_all add: books_inv_def)
  show ?thesis
  proof (cases "map_of (th_maps s (th_buf s)) x")
    case None
    then have "x \<notin> fst ` set (th_maps s (th_buf s))" by (simp add: map_of_eq_None_iff)
    with None ok bk show ?thesis by (auto simp: ing_load_def i books_inv_def throttle_inv_defs)
  next
    case (Some a)
    then have m: "(x, a) \<in> set (th_maps s (th_buf s))" by (rule map_of_SomeD)
    have own: "y = x" if "(y, a) \<in> set (live_cells s)" for y
    proof -
      have "(x, a) \<in> set (live_cells s)" using m by (simp add: live_cells_def)
      with that ok show "y = x" unfolding cells_ok_def
        by (metis distinct_map inj_on_def prod.inject snd_conv)
    qed
    show ?thesis
    proof
      show "ing_ok (ing_load s)"
      proof -
        have "a < th_ncells s" using ok m by (force simp: cells_ok_def live_cells_def)
        then show ?thesis using own by (simp add: ing_load_def i Some ing_ok_def live_cells_def unreported_def)
      qed
      show "cells_ok (ing_load s)" using ok by (simp add: ing_load_def i Some throttle_inv_defs)
      fix k show "books_ok ar (ing_load s) k" using bk [of k] m by (simp add: ing_load_def i Some throttle_inv_defs)
    qed
  qed
next
  case False
  then have "ing_load s = s" by (auto simp: ing_load_def split: ingester.splits)
  with inv show ?thesis by simp
qed

lemma in_tally: "(k, a) \<in> set m \<Longrightarrow> f a \<le> tally f k m"
  by (induction m) (auto simp: trans_le_add2)

lemma unat_succ_le: "unat (w + 1 :: 64 word) \<le> unat w + 1"
  by (simp add: unat_word_ariths)

lemma unat_succ: "unat w < 2 ^ 64 - 1 \<Longrightarrow> unat (w + 1 :: 64 word) = unat w + 1"
  by (simp add: unat_word_ariths)

lemma books_add:
  assumes inv: "books_inv ar s"
  shows "books_inv ar (ing_add s)"
proof (cases "\<exists>x a. th_ing s = IAdd x a")
  case True
  then obtain x a where i: "th_ing s = IAdd x a" by blast
  let ?h = "\<lambda>a. unat (th_heap s a)"
  let ?h' = "\<lambda>b. unat (((th_heap s)(a := th_heap s a + 1)) b)"
  have ok: "cells_ok s" and own: "\<And>y. (y, a) \<in> set (live_cells s) \<Longrightarrow> y = x"
    and bk: "\<And>k. books_ok ar s k" using inv i by (simp_all add: books_inv_def ing_ok_def)
  have d: "distinct (map snd (live_cells s))" using ok by (simp add: cells_ok_def)
  have wr: "tally ?h' k (live_cells s) + (if (k, a) \<in> set (live_cells s) then ?h a else 0)
     = tally ?h k (live_cells s) + (if (k, a) \<in> set (live_cells s) then unat (th_heap s a + 1) else 0)" for k
    by (rule tally_write [OF d])
  have live: "live_cells (ing_add s) = live_cells s"
    by (simp add: ing_add_def i live_cells_def unreported_def)
  have acc': "accounted (ing_add s) k = tally unat k (tg_reported s) + tally ?h' k (live_cells s)" for k
    unfolding accounted_def live by (simp add: ing_add_def i in_hand_def)
  have acc: "accounted s k = tally unat k (tg_reported s) + tally ?h k (live_cells s) + of_bool (x = k)" for k
    by (simp add: accounted_def i in_hand_def)
  show ?thesis
  proof
    show "ing_ok (ing_add s)" by (simp add: ing_add_def i ing_ok_def)
    show "cells_ok (ing_add s)" using ok by (simp add: ing_add_def i throttle_inv_defs)
    fix k
    have up: "accounted (ing_add s) k \<le> accounted s k"
      using wr [of k] own [of k] unat_succ_le [of "th_heap s a"]
      by (auto simp: acc acc' simp del: fun_upd_apply split: if_splits)
    have dang: "in_danger (ing_add s) k = 0"
      "in_danger s k = of_bool (x = k \<and> (x, a) \<notin> set (th_maps s (th_buf s)))"
      by (simp_all add: in_danger_def ing_add_def i)
    have low: "accounted s k + in_danger (ing_add s) k \<le> accounted (ing_add s) k + in_danger s k"
      if "length (tg_consumed s) < 2 ^ 64"
    proof (cases "(x, a) \<in> set (live_cells s) \<and> x = k")
      case True
      have "?h a < 2 ^ 64 - 1"
      proof -
        have "?h a \<le> tally ?h x (live_cells s)" by (rule in_tally) (rule conjunct1 [OF True])
        then have "?h a + 1 \<le> accounted s x" by (simp add: acc)
        also have "\<dots> \<le> count_list (tg_consumed s) x" using bk [of x] by (simp add: books_ok_def)
        also have "\<dots> \<le> length (tg_consumed s)" by (rule count_le_length)
        finally show ?thesis using that by simp
      qed
      moreover have "(k, a) \<in> set (live_cells s)" "x = k" using True by auto
      ultimately show ?thesis using unat_succ [of "th_heap s a"] wr [of k]
        by (simp add: acc acc' dang del: fun_upd_apply)
    next
      case False
      then show ?thesis using wr [of k] own [of k]
        by (auto simp: acc acc' dang live_cells_def simp del: fun_upd_apply split: if_splits)
    qed
    have same: "tg_consumed (ing_add s) = tg_consumed s" "tg_swaps (ing_add s) = tg_swaps s"
      by (simp_all add: ing_add_def i)
    show "books_ok ar (ing_add s) k" using bk [of k] up low by (fastforce simp: books_ok_def same)
  qed
next
  case False
  then have "ing_add s = s" by (auto simp: ing_add_def split: ingester.splits)
  with inv show ?thesis by simp
qed

lemma books_cas:
  assumes inv: "books_inv ar s"
  shows "books_inv ar (ing_cas s)"
proof (cases "\<exists>x p. th_ing s = ICopy x p")
  case True
  then obtain x p where i: "th_ing s = ICopy x p" by blast
  let ?n = "th_ncells s"
  have ok: "cells_ok s" and ing: "x \<notin> fst ` set (th_maps s (th_buf s))"
    and bk: "\<And>k. books_ok ar s k" using inv i by (simp_all add: books_inv_def ing_ok_def)
  have low: "a < ?n" if "(y, a) \<in> set (live_cells s)" for y a
    using ok that by (auto simp: cells_ok_def)
  then have fresh: "?n \<notin> snd ` set (live_cells s)" by force
  have same: "tg_consumed (ing_cas s) = tg_consumed s" "tg_swaps (ing_cas s) = tg_swaps s"
    "tg_reported (ing_cas s) = tg_reported s" "th_heap (ing_cas s) = (th_heap s)(?n := 1)"
    "th_ncells (ing_cas s) = ?n + 1" "unreported (ing_cas s) = unreported s"
    "th_nmaps (ing_cas s) = th_nmaps s + 1"
    by (simp_all add: ing_cas_def i Let_def unreported_def)
  have t: "tally (\<lambda>a. unat (((th_heap s)(?n := 1)) a)) k m = tally (\<lambda>a. unat (th_heap s a)) k m"
    if "?n \<notin> snd ` set m" for k m using that by (rule tally_absent)
  show ?thesis
  proof (cases "th_buf s = p")
    case True
    then have upd: "th_maps (ing_cas s) (th_buf (ing_cas s)) = th_maps s (th_buf s) @ [(x, ?n)]"
      using update_absent [OF ing] by (simp add: ing_cas_def i Let_def)
    have st: "th_ing (ing_cas s) = IIdle" "th_buf (ing_cas s) = th_nmaps s"
      using True by (simp_all add: ing_cas_def i Let_def)
    have live: "live_cells (ing_cas s) = th_maps s (th_buf s) @ (x, ?n) # unreported s"
      by (simp add: live_cells_def upd same)
    have cells: "th_buf s < th_nmaps s" "distinct (map snd (live_cells s))" using ok by (simp_all add: cells_ok_def)
    show ?thesis
    proof
      have "\<forall>(y, a) \<in> set (live_cells (ing_cas s)). a < ?n + 1"
        using low [unfolded live_cells_def] unfolding live by (auto intro: less_SucI)
      moreover have "distinct (map snd (live_cells (ing_cas s)))"
        using cells(2) [unfolded live_cells_def] fresh [unfolded live_cells_def] unfolding live by auto
      ultimately show "cells_ok (ing_cas s)" by (simp add: cells_ok_def st same)
      fix k
      have "accounted (ing_cas s) k = accounted s k"
        using fresh t [of "th_maps s (th_buf s)" k] t [of "unreported s" k]
        unfolding accounted_def live same st i in_hand_def by (simp add: live_cells_def image_Un)
      then show "books_ok ar (ing_cas s) k"
        using bk [of k] by (simp add: books_ok_def same in_danger_def st i)
    qed (simp add: ing_ok_def st)
  next
    case False
    then have st: "th_ing (ing_cas s) = IReload x" "th_buf (ing_cas s) = th_buf s"
      by (simp_all add: ing_cas_def i Let_def)
    have cur: "th_maps (ing_cas s) (th_buf s) = th_maps s (th_buf s)"
      using ok by (simp add: ing_cas_def i Let_def cells_ok_def)
    have live: "live_cells (ing_cas s) = live_cells s" by (simp add: live_cells_def st cur same)
    show ?thesis
    proof
      show "ing_ok (ing_cas s)" using ing by (simp add: ing_ok_def st cur)
      show "cells_ok (ing_cas s)" using ok by (auto simp: cells_ok_def live st same)
      fix k
      have "accounted (ing_cas s) k = accounted s k"
        using t [OF fresh, of k] by (simp add: accounted_def live same st i in_hand_def)
      then show "books_ok ar (ing_cas s) k"
        using bk [of k] by (simp add: books_ok_def same in_danger_def st i)
    qed
  qed
next
  case False
  then have "ing_cas s = s" by (auto simp: ing_cas_def split: ingester.splits)
  with inv show ?thesis by simp
qed

lemma books_reload: "books_inv ar s \<Longrightarrow> books_inv ar (ing_reload s)"
proof (cases "\<exists>x. th_ing s = IReload x")
  case True
  then obtain x where i: "th_ing s = IReload x" by blast
  assume "books_inv ar s"
  then have ok: "ing_ok s" "cells_ok s" and bk: "\<And>k. books_ok ar s k" by (simp_all add: books_inv_def)
  have live: "live_cells (ing_reload s) = live_cells s" by (simp add: ing_reload_def i live_cells_def unreported_def)
  show ?thesis
  proof
    show "ing_ok (ing_reload s)" using ok by (simp add: ing_reload_def i ing_ok_def cells_ok_def)
    show "cells_ok (ing_reload s)" using ok(2) unfolding cells_ok_def live by (simp add: ing_reload_def i)
    fix k
    have "accounted (ing_reload s) k = accounted s k" unfolding accounted_def live by (simp add: ing_reload_def i in_hand_def)
    then show "books_ok ar (ing_reload s) k" using bk [of k] by (simp add: books_ok_def ing_reload_def i in_danger_def)
  qed
next
  case False
  then have "ing_reload s = s" by (auto simp: ing_reload_def split: ingester.splits)
  then show "books_inv ar s \<Longrightarrow> ?thesis" by simp
qed

lemma books_swap:
  assumes inv: "books_inv ar s" and rep: "ar \<longrightarrow> reporting"
  shows "books_inv ar (sync_swap reporting s)"
proof (cases "th_sync s = SIdle")
  case True
  let ?s = "sync_swap reporting s"
  have ok: "ing_ok s" "cells_ok s" and bk: "\<And>k. books_ok ar s k" using inv by (simp_all add: books_inv_def)
  have live: "live_cells ?s = (if reporting then live_cells s else [])"
    by (simp add: sync_swap_def True live_cells_def unreported_def)
  have same: "tg_consumed ?s = tg_consumed s" "th_ing ?s = th_ing s" "th_heap ?s = th_heap s"
    "tg_reported ?s = tg_reported s" "tg_swaps ?s = tg_swaps s + 1" "th_ncells ?s = th_ncells s"
    "th_maps ?s (th_nmaps s) = []" "th_buf ?s = th_nmaps s" "th_nmaps ?s = th_nmaps s + 1"
    by (simp_all add: sync_swap_def True)
  show ?thesis
  proof
    show "ing_ok ?s" using ok(1) by (auto simp: ing_ok_def same live split: ingester.splits)
    show "cells_ok ?s" using ok(2) unfolding cells_ok_def same live by auto
    fix k
    have "accounted ?s k \<le> accounted s k" "reporting \<Longrightarrow> accounted ?s k = accounted s k"
      unfolding accounted_def live same by simp_all
    moreover have "in_danger ?s k \<le> 1" by (simp add: in_danger_def split: ingester.splits)
    ultimately show "books_ok ar ?s k" using bk [of k] rep unfolding books_ok_def same by auto
  qed
next
  case False
  then have "sync_swap reporting s = s" by (auto simp: sync_swap_def split: synchroniser.splits)
  with inv show ?thesis by simp
qed

lemma books_read: "books_inv ar s \<Longrightarrow> books_inv ar (sync_read s)"
proof (cases "\<exists>x a rest acc. th_sync s = SReport ((x, a) # rest) acc")
  case True
  then obtain x a rest acc where i: "th_sync s = SReport ((x, a) # rest) acc" by blast
  let ?s = "sync_read s"
  assume "books_inv ar s"
  then have ok: "ing_ok s" "cells_ok s" and bk: "\<And>k. books_ok ar s k" by (simp_all add: books_inv_def)
  have same: "tg_consumed ?s = tg_consumed s" "th_ing ?s = th_ing s" "th_heap ?s = th_heap s"
    "tg_reported ?s = tg_reported s @ [(x, th_heap s a)]" "tg_swaps ?s = tg_swaps s" "th_ncells ?s = th_ncells s"
    "th_maps ?s = th_maps s" "th_buf ?s = th_buf s" "th_nmaps ?s = th_nmaps s"
    "live_cells ?s = th_maps s (th_buf s) @ rest"
    by (simp_all add: sync_read_def i live_cells_def unreported_def)
  have live: "live_cells s = th_maps s (th_buf s) @ (x, a) # rest" by (simp add: live_cells_def i unreported_def)
  show ?thesis
  proof
    show "ing_ok ?s" using ok(1) unfolding ing_ok_def same live by (auto split: ingester.splits)
    show "cells_ok ?s" using ok(2) unfolding cells_ok_def same live by auto
    fix k
    have "accounted ?s k = accounted s k" unfolding accounted_def same live by simp
    then show "books_ok ar ?s k" using bk [of k] unfolding books_ok_def in_danger_def same by simp
  qed
next
  case False
  then have "sync_read s = s" by (auto simp: sync_read_def split: synchroniser.splits list.splits)
  then show "books_inv ar s \<Longrightarrow> ?thesis" by simp
qed

lemma books_same:
  assumes inv: "books_inv ar s" and "unreported s' = unreported s"
    and "th_buf s' = th_buf s" "th_maps s' = th_maps s" "th_nmaps s' = th_nmaps s" "th_heap s' = th_heap s"
    and "th_ncells s' = th_ncells s" "th_ing s' = th_ing s" "tg_consumed s' = tg_consumed s"
    and "tg_reported s' = tg_reported s" "tg_swaps s' = tg_swaps s"
  shows "books_inv ar s'"
  using inv
  unfolding books_inv_def ing_ok_def cells_ok_def books_ok_def accounted_def in_danger_def live_cells_def assms(2-)
  by simp

lemma books_call: "books_inv ar s \<Longrightarrow> books_inv ar (sync_call service s)"
  by (erule books_same) (auto simp: sync_call_def unreported_def split: synchroniser.splits list.splits)

lemma books_store: "books_inv ar s \<Longrightarrow> books_inv ar (sync_store s)"
  by (erule books_same) (auto simp: sync_store_def unreported_def split: synchroniser.splits)

lemma books_step: "throttle_step ar s s' \<Longrightarrow> books_inv ar s \<Longrightarrow> books_inv ar s'"
  by (induction rule: throttle_step.induct)
    (simp_all add: books_arrive books_receive books_load books_add books_cas books_reload books_swap
      books_read books_call books_store)

lemma books_reachable: "throttle_reachable ar s \<Longrightarrow> books_inv ar s"
  unfolding throttle_reachable_def
  by (induction rule: rtranclp_induct) (auto intro: books_init books_step)

lemma throttle_reachable_0: "throttle_reachable ar NewThrottlingHandler"
  by (simp add: throttle_reachable_def)

lemma throttle_reachable_step: "throttle_reachable ar s \<Longrightarrow> throttle_step ar s s' \<Longrightarrow> throttle_reachable ar s'"
  unfolding throttle_reachable_def by (rule rtranclp.rtrancl_into_rtrancl)

text \<open>A run in which the buffer is swapped and reported while the ingester holds a counter of it.\<close>

definition session_seen :: "throttler \<Rightarrow> throttler" where
  "session_seen s = serve_count [] (plain_request\<lparr>rq_RawQuery := ''session_id=abc''\<rparr>) s"

definition one_counted :: throttler where
  "one_counted = ing_cas (ing_load (ing_receive (session_seen NewThrottlingHandler)))"

definition one_lost :: throttler where
  "one_lost = ing_add (sync_store (sync_call (\<lambda>_. Some [''sessId:abc'']) (sync_read (sync_swap True (ing_load (ing_receive
     (session_seen one_counted)))))))"

lemmas run_defs = one_lost_def one_counted_def session_seen_def

lemma one_lost_reachable: "throttle_reachable True one_lost"
  unfolding run_defs
  by (intro throttle_reachable_step [OF _ throttle_step.add] throttle_reachable_step [OF _ throttle_step.store]
      throttle_reachable_step [OF _ throttle_step.call] throttle_reachable_step [OF _ throttle_step.read]
      throttle_reachable_step [OF _ throttle_step.swap] throttle_reachable_step [OF _ throttle_step.load]
      throttle_reachable_step [OF _ throttle_step.receive] throttle_reachable_step [OF _ throttle_step.arrive]
      throttle_reachable_step [OF _ throttle_step.cas] throttle_reachable_0 impI TrueI)

lemma one_lost_books:
  "tg_consumed one_lost = [''sessId:abc'', ''sessId:abc'']"
  "map (\<lambda>(k, w). (k, unat w)) (tg_reported one_lost) = [(''sessId:abc'', 1)]"
  "th_throttled one_lost = [''sessId:abc'']" "tg_swaps one_lost = 1" "accounted one_lost ''sessId:abc'' = 1"
  by code_simp+

lemma ingest_bound: "int (length chan) \<le> channel_size \<Longrightarrow> int (length (ingest bs chan)) \<le> channel_size"
  by (induction bs chan rule: ingest.induct) auto

lemma chan_step: "throttle_step ar s s' \<Longrightarrow> int (length (th_chan s)) \<le> channel_size \<Longrightarrow> int (length (th_chan s')) \<le> channel_size"
  by (induction rule: throttle_step.induct)
    (auto simp: serve_count_def ingest_bound ing_receive_def ing_load_def ing_add_def ing_cas_def ing_reload_def
      sync_swap_def sync_read_def sync_call_def sync_store_def Let_def
      split: ingester.splits synchroniser.splits list.splits option.splits)

section \<open>Properties\<close>

text \<open>Nobody is throttled for requests that were not made. In every interleaving of the requests, the
  ingester and the synchroniser, what has been reported for a session, what stands in the buffers and
  what the ingester holds is together at most the number of its requests taken from the channel.\<close>

theorem throttle_never_overcounts:
  assumes "throttle_reachable always_report s"
  shows "accounted s k \<le> count_list (tg_consumed s) k"
  using books_reachable [OF assms] by (simp add: books_inv_def books_ok_def)

theorem throttle_never_overcounts_witness:
  "accounted one_lost ''sessId:abc'' \<le> 2"
  using throttle_never_overcounts [OF one_lost_reachable, of "''sessId:abc''"]
  by (simp add: one_lost_books(1))

text \<open>C16: at most one request of a session falls through the cracks per synchronisation, as the comment in
  \<open>ingesterWorker\<close> says, as long as reporting is on and fewer than 2^64 requests were counted: no lost
  update of the 64-bit counters, no lost key of the copied map, in any interleaving. What counts is what
  the synchroniser has read for a report: whether the service then gets it is not said, and a report that
  fails is not sent again.\<close>

theorem throttle_loses_one_per_swap:
  assumes "throttle_reachable True s" and "length (tg_consumed s) < 2 ^ 64"
  shows "count_list (tg_consumed s) k \<le> accounted s k + tg_swaps s"
proof -
  from books_reachable [OF assms(1)] have "books_ok True s k" by (simp add: books_inv_def)
  with assms(2) show ?thesis by (simp add: books_ok_def)
qed

theorem throttle_loses_one_per_swap_witness:
  "count_list [''sessId:abc'', ''sessId:abc''] ''sessId:abc'' \<le> accounted one_lost ''sessId:abc'' + tg_swaps one_lost"
  using throttle_loses_one_per_swap [OF one_lost_reachable, of "''sessId:abc''"]
  by (simp add: one_lost_books(1))

text \<open>The loss does happen: the synchroniser swaps and reports the buffer between the moment the ingester
  loads a counter and the moment it increments it. Two requests are taken, one is reported, and nothing
  is left.\<close>

theorem increment_lost_in_flight:
  "throttle_reachable True one_lost \<and> count_list (tg_consumed one_lost) ''sessId:abc'' = 2 \<and>
   accounted one_lost ''sessId:abc'' = 1"
  using one_lost_reachable by (simp add: one_lost_books)

text \<open>The channel to the ingester never holds more than 500000 names: requests beyond that are not
  counted, and never wait.\<close>

theorem throttle_channel_bound:
  assumes "throttle_reachable always_report s"
  shows "int (length (th_chan s)) \<le> 500000"
proof -
  have "int (length (th_chan s)) \<le> channel_size"
    using assms unfolding throttle_reachable_def
  proof (induction rule: rtranclp_induct)
    case base
    show ?case by (simp add: NewThrottlingHandler_def channel_size_def)
  next
    case (step y z)
    then show ?case by (blast intro: chan_step)
  qed
  then show ?thesis by (simp add: channel_size_def)
qed

theorem throttle_channel_bound_witness: "int (length (th_chan one_lost)) \<le> 500000"
  by (rule throttle_channel_bound [OF one_lost_reachable])

text \<open>C36: after a report the service's reply decides, and nothing else: a request is turned away with 429, a
  JSON body and no call of the handlers behind exactly when it belongs to a session the reply lists;
  after a failed report no request is turned away, and a request without a session never is.\<close>

theorem throttle_decision:
  assumes "th_sync s = SReport [] acc" and "rw_Status w = None"
  shows "let tb = th_throttled (sync_store (sync_call service s)); id = SessionId hx (Some r);
             (w', evs) = ThrottlingHandler hx tb h r w
         in if id \<noteq> '''' \<and> (\<exists>listed. service acc = Some listed \<and> ''sessId:'' @ id \<in> set listed)
            then rw_Status w' = Some 429 \<and> evs = [] \<and>
                 header_get (rw_Sent w') ''Content-Type'' = ''application/json; charset=utf-8''
            else (w', evs) = h r w"
  using assms
  by (auto simp: sync_store_def sync_call_def ThrottlingHandler_def anyThrottled_def buckets_def throttled_answer_def
      Let_def header_get_set split: option.splits prod.splits)

theorem throttle_decision_witness:
  "rw_Status (fst (ThrottlingHandler headerExtractors [''sessId:abc''] (\<lambda>r w. (w, [InstCounter ''reached'']))
      (plain_request\<lparr>rq_RawQuery := ''session_id=abc''\<rparr>) new_rwriter)) = Some 429"
proof -
  have i: "SessionId headerExtractors (Some (plain_request\<lparr>rq_RawQuery := ''session_id=abc''\<rparr>)) = ''abc''" by code_simp
  have "th_throttled (sync_store (sync_call (\<lambda>_. Some [''sessId:abc'']) (NewThrottlingHandler\<lparr>th_sync := SReport [] []\<rparr>)))
     = [''sessId:abc'']" by code_simp
  then show ?thesis
    using throttle_decision [of "NewThrottlingHandler\<lparr>th_sync := SReport [] []\<rparr>" "[]" new_rwriter "\<lambda>_. Some [''sessId:abc'']"
        headerExtractors "plain_request\<lparr>rq_RawQuery := ''session_id=abc''\<rparr>" "\<lambda>r w. (w, [InstCounter ''reached''])"]
    by (simp add: i new_rwriter_def Let_def split: prod.splits)
qed

end
