(* ===== verification/Status_Monitor.thy ===== *)
theory Status_Monitor
  imports Go_Http
begin

text \<open>
  Package \<open>statusmonitor\<close>: the availability zone failover. \<open>types.go\<close> holds the monitor, a state
  machine over healthy and failed states polled every five seconds, \<open>zk.go\<close> the lock that keeps a
  second zone from failing over, \<open>statusmonitor.go\<close> the HTTP handlers and the health check.

  ZooKeeper is not part of the repository: it is the argument \<open>Z\<close>, a record of the three calls over a
  state \<open>'z\<close>, and \<open>zk_ok\<close> states its documented behaviour on the lock node (\<open>holder\<close> is the content
  of the node). The monitoring service, the message bus and the clock appear as the inputs of a poll.
  A fleet is a list of monitors that share one ZooKeeper; a poll of one of them is one step.
\<close>

section \<open>zk.go\<close>

record 'z zk_client =
  zk_Create :: "string \<Rightarrow> string \<Rightarrow> 'z \<Rightarrow> (string \<times> bool) \<times> 'z"
  zk_Delete :: "string \<Rightarrow> 'z \<Rightarrow> bool \<times> 'z"
  zk_Get :: "string \<Rightarrow> 'z \<Rightarrow> string \<times> bool"

definition lockPath :: string where
  "lockPath = ''/hailo-2-api-az-failover''"

definition lock :: "'z zk_client \<Rightarrow> string \<Rightarrow> 'z \<Rightarrow> (string \<times> bool) \<times> 'z" where
  "lock Z az z = zk_Create Z lockPath az z"

definition unlock :: "'z zk_client \<Rightarrow> string \<Rightarrow> 'z \<Rightarrow> bool \<times> 'z" where
  "unlock Z path z = zk_Delete Z path z"

definition readLock :: "'z zk_client \<Rightarrow> 'z \<Rightarrow> string \<times> bool" where
  "readLock Z z = zk_Get Z lockPath z"

text \<open>The documented behaviour while sessions last: creating succeeds only when there is no node, deleting
  removes the node, reading gives its content. A call that returns an error, and an empty path, may have
  been carried out all the same, when the connection is lost before the answer.\<close>

definition zk_ok :: "'z zk_client \<Rightarrow> ('z \<Rightarrow> string option) \<Rightarrow> bool" where
  "zk_ok Z holder \<longleftrightarrow>
     (\<forall>az z h err z'. zk_Create Z lockPath az z = ((h, err), z') \<longrightarrow>
        (if err then h = '''' \<and> (holder z' = holder z \<or> holder z = None \<and> holder z' = Some az)
         else h = lockPath \<and> holder z = None \<and> holder z' = Some az)) \<and>
     (\<forall>z err z'. zk_Delete Z lockPath z = (err, z') \<longrightarrow> holder z' = None \<or> err \<and> holder z' = holder z) \<and>
     (\<forall>z v. zk_Get Z lockPath z = (v, False) \<longrightarrow> holder z = Some v)"

text \<open>A store that is reachable at all times.\<close>

definition mem_zk :: "string option zk_client" where
  "mem_zk = \<lparr>zk_Create = (\<lambda>p v z. case z of None \<Rightarrow> ((p, False), Some v) | Some w \<Rightarrow> (('''', True), z)),
     zk_Delete = (\<lambda>p z. case z of None \<Rightarrow> (True, z) | Some w \<Rightarrow> (False, None)),
     zk_Get = (\<lambda>p z. case z of None \<Rightarrow> ('''', True) | Some w \<Rightarrow> (w, False))\<rparr>"

lemma mem_zk_ok: "zk_ok mem_zk (\<lambda>z. z)"
  by (auto simp: zk_ok_def mem_zk_def split: option.splits)

section \<open>types.go\<close>

type_synonym failure = int

definition NoFailure :: failure where [go_simps]: "NoFailure = 0"
definition ConnectivityFailure :: failure where [go_simps]: "ConnectivityFailure = 1"
definition MonitoringFailure :: failure where [go_simps]: "MonitoringFailure = 2"

definition failureToString :: "(int, string) gomap" where
  "failureToString = [(0, ''No failures detected''), (1, ''Connectivity Failure''), (2, ''Monitoring Failure'')]"

definition Failure_String :: "failure \<Rightarrow> string" where
  "Failure_String f = (case map_of failureToString f of None \<Rightarrow> ''Not implemented'' | Some s \<Rightarrow> s)"

record status_monitor =
  sm_IsHealthy :: bool
  sm_LastChanged :: int
  sm_AZName :: string
  sm_FailureType :: failure
  sm_lockHandle :: string

text \<open>\<open>NewStatusMonitor\<close>: the zone name, or an error when it cannot be determined; then the monitor is
  not started. The second component tells whether it was.\<close>

definition NewStatusMonitor :: "string option \<Rightarrow> int \<Rightarrow> status_monitor \<times> bool" where
  "NewStatusMonitor az now =
     (\<lparr>sm_IsHealthy = True, sm_LastChanged = now,
       sm_AZName = (case az of None \<Rightarrow> ''undefined'' | Some a \<Rightarrow> a),
       sm_FailureType = NoFailure, sm_lockHandle = ''''\<rparr>, az \<noteq> None)"

definition failoverAZ ::
    "'z zk_client \<Rightarrow> int \<Rightarrow> failure \<Rightarrow> status_monitor \<times> 'z \<Rightarrow> status_monitor \<times> 'z" where
  "failoverAZ Z now failure sz =
     (case sz of (s, z) \<Rightarrow>
       (case lock Z (sm_AZName s) z of ((h, err), z') \<Rightarrow>
          (let s' = s\<lparr>sm_lockHandle := h\<rparr>;
               failed = s'\<lparr>sm_IsHealthy := False, sm_LastChanged := now, sm_FailureType := failure\<rparr>
           in if err then
                (case readLock Z z' of (failedAZ, errr) \<Rightarrow>
                   if errr then (s', z')
                   else if failedAZ \<noteq> sm_AZName s then (s', z')
                   else (failed, z'))
              else (failed, z'))))"

definition recoverAZ :: "'z zk_client \<Rightarrow> int \<Rightarrow> status_monitor \<times> 'z \<Rightarrow> status_monitor \<times> 'z" where
  "recoverAZ Z now sz =
     (case sz of (s, z) \<Rightarrow>
       (let (s', z') = (if sm_lockHandle s \<noteq> '''' then
                          (s\<lparr>sm_lockHandle := ''''\<rparr>, snd (unlock Z (sm_lockHandle s) z))
                        else (s, z))
        in (s'\<lparr>sm_LastChanged := now, sm_IsHealthy := True, sm_FailureType := NoFailure\<rparr>, z')))"

definition interpretRavenStatus ::
    "'z zk_client \<Rightarrow> int \<Rightarrow> bool \<Rightarrow> status_monitor \<times> 'z \<Rightarrow> status_monitor \<times> 'z" where
  "interpretRavenStatus Z now isConnected sz =
     (if \<not> isConnected then failoverAZ Z now ConnectivityFailure sz
      else if isConnected \<and> \<not> sm_IsHealthy (fst sz) \<and> sm_FailureType (fst sz) = ConnectivityFailure
        then recoverAZ Z now sz
      else sz)"

definition interpretAZStatus ::
    "'z zk_client \<Rightarrow> int \<Rightarrow> bool \<Rightarrow> status_monitor \<times> 'z \<Rightarrow> status_monitor \<times> 'z" where
  "interpretAZStatus Z now azStatus sz =
     (let sz1 = (if \<not> azStatus \<and> sm_IsHealthy (fst sz) then failoverAZ Z now MonitoringFailure sz else sz)
      in if azStatus \<and> \<not> sm_IsHealthy (fst sz1) then recoverAZ Z now sz1 else sz1)"

text \<open>\<open>checkAZStatus\<close>: building the request, calling the service and decoding the answer may fail; a
  missing field reads as false.\<close>

definition checkAZStatus ::
    "(string \<Rightarrow> 'req option) \<Rightarrow> ('req \<Rightarrow> 'rsp option) \<Rightarrow> ('rsp \<Rightarrow> bool option option) \<Rightarrow> string \<Rightarrow> bool option" where
  "checkAZStatus new_request call unmarshal az =
     (case new_request az of None \<Rightarrow> None
      | Some req \<Rightarrow> (case call req of None \<Rightarrow> None
        | Some rsp \<Rightarrow> (case unmarshal rsp of None \<Rightarrow> None
          | Some field \<Rightarrow> Some (case field of None \<Rightarrow> False | Some b \<Rightarrow> b))))"

text \<open>One turn of the loop of \<open>monitor\<close>: the bus status, the answer for the zone (\<open>None\<close> for an error)
  and the time.\<close>

record poll =
  po_connected :: bool
  po_azStatus :: "string \<Rightarrow> bool option"
  po_now :: int

definition monitor_turn :: "'z zk_client \<Rightarrow> poll \<Rightarrow> status_monitor \<times> 'z \<Rightarrow> status_monitor \<times> 'z" where
  "monitor_turn Z p sz =
     (let sz1 = interpretRavenStatus Z (po_now p) (po_connected p) sz
      in if po_connected p then
           (case po_azStatus p (sm_AZName (fst sz1)) of
              None \<Rightarrow> sz1
            | Some azStatus \<Rightarrow> interpretAZStatus Z (po_now p) azStatus sz1)
         else sz1)"

fun monitor :: "'z zk_client \<Rightarrow> poll list \<Rightarrow> status_monitor \<times> 'z \<Rightarrow> status_monitor \<times> 'z" where
  "monitor Z [] sz = sz"
| "monitor Z (p # ps) sz = monitor Z ps (monitor_turn Z p sz)"

inductive fleet_step :: "'z zk_client \<Rightarrow> status_monitor list \<times> 'z \<Rightarrow> status_monitor list \<times> 'z \<Rightarrow> bool"
  for Z :: "'z zk_client" where
  poll: "i < length ms \<Longrightarrow> monitor_turn Z p (ms ! i, z) = (m', z') \<Longrightarrow>
    fleet_step Z (ms, z) (ms[i := m'], z')"

inductive_cases fleet_stepE: "fleet_step Z (ms, z) (ms', z')"

section \<open>statusmonitor.go\<close>

text \<open>\<open>JsonResponse\<close> prints itself, with its keys in order; a value that is JSON is always printed.\<close>

definition JsonResponse_String :: "(string, json) gomap \<Rightarrow> chunk" where
  "JsonResponse_String r = Json (JObj (sort_key fst r))"

definition Handler :: "status_monitor \<Rightarrow> rwriter \<Rightarrow> rwriter" where
  "Handler s w =
     (let status = sm_IsHealthy s;
          w1 = (if \<not> status then write_header 500 w else w);
          w2 = set_hdr ''Content-Type'' ''application/json; charset=utf-8'' w1
      in write_body (JsonResponse_String [(''IsHealthy'', JBool status)]) w2)"

definition hosts :: "string list" where
  "hosts = [''google.com:80'', ''yahoo.com:80'', ''bing.com:80'']"

text \<open>\<open>dial\<close> gives the error of a connection attempt, if any; the loop counts down and keeps the last
  error.\<close>

fun dial_loop :: "(string \<Rightarrow> string option) \<Rightarrow> string list \<Rightarrow> int \<times> string \<Rightarrow> int \<times> string" where
  "dial_loop dial [] st = st"
| "dial_loop dial (h # hs) (ok, info) =
     dial_loop dial hs (case dial h of None \<Rightarrow> (ok, info) | Some e \<Rightarrow> (ok - 1, e))"

definition StatusHandler :: "(string \<Rightarrow> string option) \<Rightarrow> rwriter \<Rightarrow> rwriter" where
  "StatusHandler dial w =
     (case dial_loop dial hosts (int (length hosts), '''') of (ok, info) \<Rightarrow>
        if ok = 0 then http_error (''Error establishing external connections: '' @ info) 500 w
        else write_body (Bytes ''OK'') (write_header 200 w))"

text \<open>\<open>AzStatusChecker\<close>, with the formatting of a time as an argument.\<close>

definition AzStatusChecker ::
    "(int \<Rightarrow> string) \<Rightarrow> status_monitor \<Rightarrow> (string, string) gomap \<times> string option" where
  "AzStatusChecker fmt s =
     ([(''azName'', sm_AZName s), (''isHealthy'', if sm_IsHealthy s then ''true'' else ''false''),
       (''failureType'', Failure_String (sm_FailureType s)), (''lastChanged'', fmt (sm_LastChanged s))],
      if \<not> sm_IsHealthy s then
        Some ''This Thin API instance is not serving traffic - AZ reported unhealthy''
      else if sm_AZName s = ''undefined'' then Some ''Unable to determine the local AZ''
      else None)"

section \<open>Lemmas\<close>

text \<open>ZooKeeper without failures of its own.\<close>

definition zk_up :: "'z zk_client \<Rightarrow> ('z \<Rightarrow> string option) \<Rightarrow> bool" where
  "zk_up Z holder \<longleftrightarrow> zk_ok Z holder \<and>
     (\<forall>az z h err z'. zk_Create Z lockPath az z = ((h, err), z') \<longrightarrow> (err \<longleftrightarrow> holder z \<noteq> None)) \<and>
     (\<forall>z err z'. zk_Delete Z lockPath z = (err, z') \<longrightarrow> (err \<longleftrightarrow> holder z = None)) \<and>
     (\<forall>z v err. zk_Get Z lockPath z = (v, err) \<longrightarrow> (err \<longleftrightarrow> holder z = None))"

lemma mem_zk_up: "zk_up mem_zk (\<lambda>z. z)"
  using mem_zk_ok by (auto simp: zk_up_def mem_zk_def split: option.splits)

text \<open>What one call may do to a monitor and the lock.\<close>

definition effect :: "('z \<Rightarrow> string option) \<Rightarrow> status_monitor \<times> 'z \<Rightarrow> status_monitor \<times> 'z \<Rightarrow> bool" where
  "effect holder sz sz' \<longleftrightarrow>
     (case (sz, sz') of ((s, z), (s', z')) \<Rightarrow>
       sm_AZName s' = sm_AZName s \<and>
       ((sm_lockHandle s' = '''' \<and> holder z' = holder z) \<or>
        (sm_lockHandle s' = '''' \<and> holder z = None \<and> holder z' = Some (sm_AZName s)) \<or>
        (sm_lockHandle s' = lockPath \<and> holder z = None \<and> holder z' = Some (sm_AZName s) \<and> \<not> sm_IsHealthy s') \<or>
        (sm_lockHandle s = lockPath \<and> sm_lockHandle s' = '''' \<and> holder z' = None) \<or>
        (s' = s \<and> z' = z)))"

lemma failoverAZ_cases:
  assumes "zk_ok Z holder" and "failoverAZ Z now f (s, z) = (s', z')"
  shows "effect holder (s, z) (s', z') \<and>
    (sm_IsHealthy s \<and> \<not> sm_IsHealthy s' \<longrightarrow> holder z' = Some (sm_AZName s)) \<and> (holder z \<noteq> None \<longrightarrow> holder z' = holder z)"
proof -
  obtain h err z1 where l: "zk_Create Z lockPath (sm_AZName s) z = ((h, err), z1)"
    by (metis surj_pair)
  obtain v errr where g: "zk_Get Z lockPath z1 = (v, errr)" by (cases "zk_Get Z lockPath z1")
  have l_law: "if err then h = '''' \<and> (holder z1 = holder z \<or> holder z = None \<and> holder z1 = Some (sm_AZName s))
      else h = lockPath \<and> holder z = None \<and> holder z1 = Some (sm_AZName s)"
    using assms(1) l unfolding zk_ok_def by blast
  have g_law: "\<not> errr \<Longrightarrow> holder z1 = Some v"
    using assms(1) g unfolding zk_ok_def by auto
  show ?thesis
    using assms(2) l_law g_law
    by (auto simp: failoverAZ_def lock_def readLock_def l g effect_def Let_def split: if_splits)
qed

lemma recoverAZ_effect:
  assumes "zk_ok Z holder" and "recoverAZ Z now (s, z) = (s', z')" and "sm_lockHandle s \<in> {'''', lockPath}"
  shows "sm_lockHandle s' = '''' \<and> sm_IsHealthy s' \<and> sm_AZName s' = sm_AZName s \<and>
    (if sm_lockHandle s = '''' then holder z' = holder z
     else holder z' = None \<or> fst (unlock Z lockPath z) \<and> holder z' = holder z)"
proof -
  obtain err z1 where d: "zk_Delete Z lockPath z = (err, z1)" by (cases "zk_Delete Z lockPath z")
  then have "holder z1 = None \<or> err \<and> holder z1 = holder z"
    using assms(1) unfolding zk_ok_def by blast
  with assms(2,3) d show ?thesis
    by (auto simp: recoverAZ_def unlock_def Let_def split: if_splits)
qed

lemma interpret_effect:
  assumes "zk_ok Z holder" and "sm_lockHandle (fst sz) \<in> {'''', lockPath}"
  shows "effect holder sz (interpretRavenStatus Z now c sz)"
    and "effect holder sz (interpretAZStatus Z now b sz)"
proof -
  obtain s z where sz: "sz = (s, z)" by (cases sz)
  have id: "effect holder sz sz" by (simp add: effect_def sz)
  have fo: "effect holder sz (failoverAZ Z now f sz)" for f
    using failoverAZ_cases [OF assms(1), of now f s z] by (cases "failoverAZ Z now f sz") (simp add: sz)
  have re: "effect holder sz (recoverAZ Z now sz)"
    using recoverAZ_effect [OF assms(1), of now s z] assms(2)
    by (cases "recoverAZ Z now sz") (auto simp: sz effect_def split: if_splits)
  show "effect holder sz (interpretRavenStatus Z now c sz)"
    using id fo re by (simp add: interpretRavenStatus_def)
  show "effect holder sz (interpretAZStatus Z now b sz)"
    using id fo re by (cases b) (simp_all add: interpretAZStatus_def Let_def)
qed

text \<open>The invariant of a fleet: whoever has a lock handle is failed, its zone is the one in the lock,
  and nobody else has a handle.\<close>

definition fleet_inv :: "('z \<Rightarrow> string option) \<Rightarrow> status_monitor list \<times> 'z \<Rightarrow> bool" where
  "fleet_inv holder mz \<longleftrightarrow>
     (case mz of (ms, z) \<Rightarrow>
       (\<forall>i<length ms. sm_lockHandle (ms ! i) \<noteq> '''' \<longrightarrow>
          sm_lockHandle (ms ! i) = lockPath \<and> \<not> sm_IsHealthy (ms ! i) \<and> holder z = Some (sm_AZName (ms ! i))) \<and>
       (\<forall>i<length ms. \<forall>j<length ms. sm_lockHandle (ms ! i) \<noteq> '''' \<and> sm_lockHandle (ms ! j) \<noteq> '''' \<longrightarrow> i = j))"

lemma fleet_inv_effect:
  assumes "fleet_inv holder (ms, z)" and "i < length ms" and "effect holder (ms ! i, z) (s', z')"
  shows "fleet_inv holder (ms[i := s'], z')"
proof -
  have h: "sm_lockHandle (ms ! j) \<noteq> '''' \<Longrightarrow> holder z = Some (sm_AZName (ms ! j))" if "j < length ms" for j
    using assms(1) that by (simp add: fleet_inv_def)
  consider "sm_lockHandle s' = ''''" "holder z' = holder z"
    | "sm_lockHandle s' = lockPath \<and> \<not> sm_IsHealthy s' \<or> sm_lockHandle s' = ''''" "holder z = None"
        "holder z' = Some (sm_AZName s')"
    | "sm_lockHandle (ms ! i) = lockPath" "sm_lockHandle s' = ''''" "holder z' = None"
    | "s' = ms ! i" "z' = z"
    using assms(3) by (auto simp: effect_def)
  then show ?thesis
  proof cases
    case 1
    then have "ms[i := s'] ! j = ms ! j" if "sm_lockHandle (ms[i := s'] ! j) \<noteq> ''''" for j
      using that assms(2) by (cases "j = i") simp_all
    with 1 assms(1) show ?thesis unfolding fleet_inv_def prod.case length_list_update by metis
  next
    case 2
    then have "sm_lockHandle (ms ! j) = ''''" if "j < length ms" for j using h [OF that] by auto
    then have "j = i" if "j < length ms" "sm_lockHandle (ms[i := s'] ! j) \<noteq> ''''" for j
      using that by (cases "j = i") simp_all
    moreover have "ms[i := s'] ! i = s'" using assms(2) by simp
    ultimately show ?thesis using 2 unfolding fleet_inv_def prod.case length_list_update by metis
  next
    case 3
    then have "sm_lockHandle (ms ! j) = ''''" if "j < length ms" "j \<noteq> i" for j
      using assms(1,2) that unfolding fleet_inv_def prod.case lockPath_def by (metis list.distinct(1))
    then have "sm_lockHandle (ms[i := s'] ! j) = ''''" if "j < length ms" for j
      using that 3(2) by (cases "j = i") simp_all
    then show ?thesis unfolding fleet_inv_def prod.case length_list_update by metis
  next
    case 4
    with assms(1) show ?thesis by simp
  qed
qed

lemma monitor_turn_cases:
  "monitor_turn Z p sz = interpretRavenStatus Z (po_now p) (po_connected p) sz \<or>
   (\<exists>b. monitor_turn Z p sz =
      interpretAZStatus Z (po_now p) b (interpretRavenStatus Z (po_now p) (po_connected p) sz))"
  by (auto simp: monitor_turn_def Let_def split: option.splits)

lemma fleet_step_inv:
  assumes "zk_ok Z holder" and "fleet_inv holder mz" and "fleet_step Z mz mz'"
  shows "fleet_inv holder mz'"
proof -
  obtain ms z where mz: "mz = (ms, z)" by (cases mz)
  from assms(3) obtain i p m' z' where i: "i < length ms" and t: "monitor_turn Z p (ms ! i, z) = (m', z')"
    and mz': "mz' = (ms[i := m'], z')"
    unfolding mz by (cases mz') (auto elim: fleet_stepE)
  have handle: "sm_lockHandle (xs ! i) \<in> {'''', lockPath}" if "fleet_inv holder (xs, y)" "i < length xs" for xs y
    using that by (auto simp: fleet_inv_def)
  obtain m1 z1 where r: "interpretRavenStatus Z (po_now p) (po_connected p) (ms ! i, z) = (m1, z1)"
    by (cases "interpretRavenStatus Z (po_now p) (po_connected p) (ms ! i, z)")
  have inv: "fleet_inv holder (ms, z)" using assms(2) mz by simp
  have 1: "fleet_inv holder (ms[i := m1], z1)"
    using fleet_inv_effect [OF inv i] interpret_effect(1) [OF assms(1), of "(ms ! i, z)" "po_now p" "po_connected p"]
      handle [OF inv i] r by simp
  have "fleet_inv holder (ms[i := m2], z2)" if "interpretAZStatus Z (po_now p) b (m1, z1) = (m2, z2)" for b m2 z2
    using fleet_inv_effect [OF 1, of i m2 z2] interpret_effect(2) [OF assms(1), of "(m1, z1)" "po_now p" b]
      handle [OF 1] i that by simp
  with monitor_turn_cases [of Z p "(ms ! i, z)"] t r 1 show ?thesis by (auto simp: mz')
qed

lemma turn_healthy:
  assumes "zk_ok Z holder" and "sm_IsHealthy s" and "monitor_turn Z p (s, z) = (s', z')"
  shows "sm_AZName s' = sm_AZName s \<and> (\<not> sm_IsHealthy s' \<longrightarrow> holder z' = Some (sm_AZName s)) \<and>
    (holder z \<notin> {None, Some (sm_AZName s)} \<longrightarrow> sm_IsHealthy s' \<and> holder z' = holder z)"
proof -
  have t: "monitor_turn Z p (s, z) \<in> {(s, z)} \<union> range (\<lambda>f. failoverAZ Z (po_now p) f (s, z))"
    using assms(2)
    by (auto simp: monitor_turn_def interpretRavenStatus_def interpretAZStatus_def Let_def split: option.splits)
  show ?thesis
  proof (cases "monitor_turn Z p (s, z) = (s, z)")
    case False
    with t assms(3) obtain f where "failoverAZ Z (po_now p) f (s, z) = (s', z')" by auto
    from failoverAZ_cases [OF assms(1) this] assms(2) show ?thesis
      by (auto simp: effect_def split: if_splits)
  qed (use assms in simp)
qed

lemma monitor_other_zone:
  assumes "zk_ok Z holder" and "sm_IsHealthy s" and "holder z \<notin> {None, Some (sm_AZName s)}"
  shows "sm_IsHealthy (fst (monitor Z ps (s, z)))"
  using assms(2,3)
proof (induction ps arbitrary: s z)
  case (Cons p ps)
  obtain s' z' where t: "monitor_turn Z p (s, z) = (s', z')" by (cases "monitor_turn Z p (s, z)")
  from turn_healthy [OF assms(1) Cons.prems(1) t] Cons.prems(2) Cons.IH [of s' z'] t show ?case by simp
qed simp

lemma failover_take:
  assumes "zk_up Z holder" and "holder z = None"
  shows "\<exists>z'. failoverAZ Z now f (s, z) =
      (s\<lparr>sm_lockHandle := lockPath, sm_IsHealthy := False, sm_LastChanged := now, sm_FailureType := f\<rparr>, z') \<and>
    holder z' = Some (sm_AZName s)"
proof -
  obtain h err z1 where l: "zk_Create Z lockPath (sm_AZName s) z = ((h, err), z1)" by (metis surj_pair)
  with assms have "\<not> err" unfolding zk_up_def by blast
  with assms l have "h = lockPath \<and> holder z1 = Some (sm_AZName s)"
    unfolding zk_up_def zk_ok_def by (metis (full_types))
  with l \<open>\<not> err\<close> show ?thesis by (simp add: failoverAZ_def lock_def Let_def)
qed

lemma failover_again:
  assumes "zk_up Z holder" and "holder z = Some (sm_AZName s)"
  shows "\<exists>z'. failoverAZ Z now f (s, z) =
      (s\<lparr>sm_lockHandle := '''', sm_IsHealthy := False, sm_LastChanged := now, sm_FailureType := f\<rparr>, z') \<and>
    holder z' = Some (sm_AZName s)"
proof -
  obtain h err z1 where l: "zk_Create Z lockPath (sm_AZName s) z = ((h, err), z1)" by (metis surj_pair)
  with assms have err unfolding zk_up_def by blast
  with assms l have 1: "h = '''' \<and> holder z1 = Some (sm_AZName s)"
    unfolding zk_up_def zk_ok_def by (metis (full_types))
  obtain v errr where g: "zk_Get Z lockPath z1 = (v, errr)" by (cases "zk_Get Z lockPath z1")
  with assms(1) have "errr \<longleftrightarrow> holder z1 = None" unfolding zk_up_def by blast
  with 1 have "\<not> errr" by simp
  with assms 1 g have "v = sm_AZName s" unfolding zk_up_def zk_ok_def by fastforce
  with l \<open>err\<close> 1 g \<open>\<not> errr\<close> show ?thesis
    by (simp add: failoverAZ_def lock_def readLock_def Let_def)
qed

lemma recover_unlocks:
  assumes "zk_up Z holder" and "holder z \<noteq> None" and "sm_lockHandle s \<in> {'''', lockPath}"
    and "recoverAZ Z now (s, z) = (s', z')"
  shows "sm_lockHandle s' = '''' \<and> sm_IsHealthy s' \<and> sm_AZName s' = sm_AZName s \<and>
    holder z' = (if sm_lockHandle s = '''' then holder z else None)"
proof -
  have "\<not> fst (unlock Z lockPath z)"
    using assms(1,2) unfolding zk_up_def unlock_def by (metis prod.collapse)
  with recoverAZ_effect [OF _ assms(4,3), of holder] assms(1) show ?thesis by (auto simp: zk_up_def split: if_splits)
qed

text \<open>A failed monitor during the rest of an outage: without the bus the handle is lost at the first
  further poll, with the bus it is kept.\<close>

definition failed_with :: "('z \<Rightarrow> string option) \<Rightarrow> failure \<Rightarrow> status_monitor \<times> 'z \<Rightarrow> bool" where
  "failed_with holder f sz \<longleftrightarrow> \<not> sm_IsHealthy (fst sz) \<and> sm_FailureType (fst sz) = f \<and>
     holder (snd sz) = Some (sm_AZName (fst sz))"

lemma bus_outage:
  assumes "zk_up Z holder" and "\<forall>p\<in>set ps. \<not> po_connected p" and "failed_with holder ConnectivityFailure sz"
  shows "failed_with holder ConnectivityFailure (monitor Z ps sz) \<and>
    sm_AZName (fst (monitor Z ps sz)) = sm_AZName (fst sz) \<and>
    sm_lockHandle (fst (monitor Z ps sz)) = (if ps = [] then sm_lockHandle (fst sz) else '''')"
  using assms(2,3)
proof (induction ps arbitrary: sz)
  case (Cons p ps)
  obtain s z where sz: "sz = (s, z)" by (cases sz)
  have "holder z = Some (sm_AZName s)" using Cons.prems(2) by (simp add: sz failed_with_def)
  from failover_again [OF assms(1) this] obtain z' where
    t: "failoverAZ Z (po_now p) ConnectivityFailure (s, z) = (s\<lparr>sm_lockHandle := '''', sm_IsHealthy := False,
        sm_LastChanged := po_now p, sm_FailureType := ConnectivityFailure\<rparr>, z')" "holder z' = Some (sm_AZName s)"
    by blast
  then have "monitor_turn Z p sz = (s\<lparr>sm_lockHandle := '''', sm_IsHealthy := False,
        sm_LastChanged := po_now p, sm_FailureType := ConnectivityFailure\<rparr>, z')"
    using Cons.prems(1) by (simp add: sz monitor_turn_def interpretRavenStatus_def)
  with Cons.IH [of "monitor_turn Z p sz"] Cons.prems(1) t(2) show ?case
    by (simp add: sz failed_with_def)
qed simp

lemma zone_outage:
  assumes "\<forall>p\<in>set ps. po_connected p \<and> po_azStatus p (sm_AZName (fst sz)) = Some False"
    and "failed_with holder MonitoringFailure sz"
  shows "monitor Z ps sz = sz"
  using assms
proof (induction ps)
  case (Cons p ps)
  have "monitor_turn Z p sz = sz"
    using Cons.prems
    by (simp add: monitor_turn_def interpretRavenStatus_def interpretAZStatus_def failed_with_def go_simps Let_def)
  with Cons show ?case by simp
qed simp

lemma monitor_append: "monitor Z (ps @ qs) sz = monitor Z qs (monitor Z ps sz)"
  by (induction ps arbitrary: sz) simp_all

section \<open>Properties\<close>

text \<open>An instance fails over only under the lock of its own zone: when a turn of the loop takes a
  healthy instance out of service, the lock node names its zone at the end of the turn, and while it
  names another zone the instance stays in service and leaves the node alone.\<close>

theorem failover_needs_lock:
  assumes "zk_ok Z holder" and "sm_IsHealthy s" and "monitor_turn Z p (s, z) = (s', z')"
  shows "(\<not> sm_IsHealthy s' \<longrightarrow> holder z' = Some (sm_AZName s')) \<and>
    (holder z \<notin> {None, Some (sm_AZName s)} \<longrightarrow> sm_IsHealthy s' \<and> holder z' = holder z)"
  using turn_healthy [OF assms] by auto

definition test_monitor :: "string \<Rightarrow> status_monitor" where
  "test_monitor az = fst (NewStatusMonitor (Some az) 0)"

definition test_poll :: "bool \<Rightarrow> bool \<Rightarrow> poll" where
  "test_poll bus zone = \<lparr>po_connected = bus, po_azStatus = (\<lambda>az. Some zone), po_now = 5\<rparr>"

theorem failover_needs_lock_witness:
  "sm_IsHealthy (fst (monitor_turn mem_zk (test_poll True False) (test_monitor ''eu-west-1a'', Some ''eu-west-1b'')))"
  using failover_needs_lock [OF mem_zk_ok, of "test_monitor ''eu-west-1a''" "test_poll True False" "Some ''eu-west-1b''"]
  by (simp add: test_monitor_def NewStatusMonitor_def) (metis prod.collapse)

text \<open>C15: the lock is sound in a fleet. Whatever the polls of however many instances see, in any order,
  an instance that holds a lock handle is out of service, the lock names its zone, and no other
  instance holds a handle.\<close>

theorem fleet_lock_sound:
  assumes "zk_ok Z holder" and "(fleet_step Z)\<^sup>*\<^sup>* (ms, z) (ms', z')"
    and "\<forall>m\<in>set ms. sm_lockHandle m = ''''"
    and "i < length ms'" and "sm_lockHandle (ms' ! i) \<noteq> ''''"
  shows "\<not> sm_IsHealthy (ms' ! i) \<and> holder z' = Some (sm_AZName (ms' ! i)) \<and>
    (\<forall>j<length ms'. sm_lockHandle (ms' ! j) \<noteq> '''' \<longrightarrow> j = i)"
proof -
  have "fleet_inv holder (ms, z)" using assms(3) by (simp add: fleet_inv_def)
  with assms(2) have "fleet_inv holder (ms', z')"
    by (induction rule: rtranclp_induct) (auto intro: fleet_step_inv [OF assms(1)])
  with assms(4,5) show ?thesis by (simp add: fleet_inv_def)
qed

lemma test_turn_locks:
  "monitor_turn mem_zk (test_poll True False) (test_monitor az, None) =
     ((test_monitor az)\<lparr>sm_lockHandle := lockPath, sm_IsHealthy := False, sm_LastChanged := 5,
        sm_FailureType := MonitoringFailure\<rparr>, Some az)"
  by (simp add: monitor_turn_def interpretRavenStatus_def interpretAZStatus_def failoverAZ_def lock_def
      mem_zk_def test_poll_def test_monitor_def NewStatusMonitor_def)

theorem fleet_lock_sound_witness:
  "\<exists>ms' z'. (fleet_step mem_zk)\<^sup>*\<^sup>* ([test_monitor ''a'', test_monitor ''b''], None) (ms', z') \<and>
     \<not> sm_IsHealthy (ms' ! 0) \<and> sm_lockHandle (ms' ! 1) = ''''"
proof -
  let ?ms = "[test_monitor ''a'', test_monitor ''b'']"
  let ?m = "(test_monitor ''a'')\<lparr>sm_lockHandle := lockPath, sm_IsHealthy := False, sm_LastChanged := 5,
      sm_FailureType := MonitoringFailure\<rparr>"
  have "fleet_step mem_zk (?ms, None) (?ms[0 := ?m], Some ''a'')"
    by (rule poll [where p = "test_poll True False"]) (simp_all add: test_turn_locks)
  then have run: "(fleet_step mem_zk)\<^sup>*\<^sup>* (?ms, None) (?ms[0 := ?m], Some ''a'')" by blast
  from fleet_lock_sound [OF mem_zk_ok run, of 0]
  have "\<not> sm_IsHealthy (?ms[0 := ?m] ! 0) \<and> sm_lockHandle (?ms[0 := ?m] ! 1) = ''''"
    by (simp add: test_monitor_def NewStatusMonitor_def lockPath_def)
  with run show ?thesis by blast
qed

text \<open>C33: an outage reported by the monitoring service is undone completely: however long it lasts, the
  instance that took the lock is back in service, and the lock is free again, after the first poll
  that reports the zone healthy.\<close>

theorem zone_outage_releases:
  assumes "zk_up Z holder" and "holder z = None" and "sm_IsHealthy s" and "ps \<noteq> []"
    and "\<forall>p\<in>set ps. po_connected p \<and> po_azStatus p (sm_AZName s) = Some False"
    and "po_connected q" and "po_azStatus q (sm_AZName s) = Some True"
  shows "\<not> sm_IsHealthy (fst (monitor Z ps (s, z))) \<and> holder (snd (monitor Z ps (s, z))) = Some (sm_AZName s) \<and>
    sm_IsHealthy (fst (monitor Z (ps @ [q]) (s, z))) \<and> holder (snd (monitor Z (ps @ [q]) (s, z))) = None"
proof -
  obtain p ps' where ps: "ps = p # ps'" using assms(4) by (cases ps) auto
  obtain z1 where f: "failoverAZ Z (po_now p) MonitoringFailure (s, z) = (s\<lparr>sm_lockHandle := lockPath,
      sm_IsHealthy := False, sm_LastChanged := po_now p, sm_FailureType := MonitoringFailure\<rparr>, z1)"
    "holder z1 = Some (sm_AZName s)"
    using failover_take [OF assms(1,2)] by blast
  let ?s1 = "s\<lparr>sm_lockHandle := lockPath, sm_IsHealthy := False, sm_LastChanged := po_now p,
      sm_FailureType := MonitoringFailure\<rparr>"
  have t: "monitor_turn Z p (s, z) = (?s1, z1)"
    using assms(3,5) f by (simp add: ps monitor_turn_def interpretRavenStatus_def interpretAZStatus_def)
  have out: "monitor Z ps (s, z) = (?s1, z1)"
    using zone_outage [of ps' "(?s1, z1)" holder Z] assms(5) f(2) by (simp add: ps t failed_with_def)
  obtain s2 z2 where r: "recoverAZ Z (po_now q) (?s1, z1) = (s2, z2)"
    by (cases "recoverAZ Z (po_now q) (?s1, z1)")
  from recover_unlocks [OF assms(1) _ _ r] f(2)
  have "sm_IsHealthy s2" "holder z2 = None" by (simp_all add: lockPath_def)
  moreover have "monitor_turn Z q (?s1, z1) = (s2, z2)"
    using assms(6,7) r by (simp add: monitor_turn_def interpretRavenStatus_def interpretAZStatus_def go_simps)
  ultimately show ?thesis using out f(2) by (simp add: monitor_append)
qed

theorem zone_outage_releases_witness:
  "snd (monitor mem_zk ([test_poll True False, test_poll True False] @ [test_poll True True])
     (test_monitor ''a'', None)) = None"
  using zone_outage_releases [OF mem_zk_up, of None "test_monitor ''a''"
      "[test_poll True False, test_poll True False]" "test_poll True True"]
  by (simp add: test_poll_def test_monitor_def NewStatusMonitor_def)

text \<open>C38: an outage of the message bus is not. \<open>interpretRavenStatus\<close> fails over at every poll without
  the bus, and the second attempt overwrites the lock handle with the empty one of the failed
  \<open>Create\<close>. So after an outage of two polls or more the instance returns to service without deleting
  the lock, which still names its zone, and no instance of another zone can fail over any more.\<close>

theorem bus_outage_leaks_lock:
  assumes "zk_up Z holder" and "holder z = None" and "2 \<le> length ps"
    and "\<forall>p\<in>set ps. \<not> po_connected p" and "po_connected q" and "po_azStatus q (sm_AZName s) \<noteq> Some False"
    and "sm_IsHealthy t" and "sm_AZName t \<noteq> sm_AZName s"
  shows "sm_IsHealthy (fst (monitor Z (ps @ [q]) (s, z))) \<and>
    holder (snd (monitor Z (ps @ [q]) (s, z))) = Some (sm_AZName s) \<and>
    sm_IsHealthy (fst (monitor Z qs (t, snd (monitor Z (ps @ [q]) (s, z)))))"
proof -
  obtain p p' ps'' where "ps = p # p' # ps''" using assms(3) by (auto simp: Suc_le_length_iff numeral_2_eq_2)
  then obtain ps' where ps: "ps = p # ps'" "ps' \<noteq> []" by blast
  let ?s1 = "s\<lparr>sm_lockHandle := lockPath, sm_IsHealthy := False, sm_LastChanged := po_now p,
      sm_FailureType := ConnectivityFailure\<rparr>"
  obtain z1 where f: "failoverAZ Z (po_now p) ConnectivityFailure (s, z) = (?s1, z1)"
    "holder z1 = Some (sm_AZName s)"
    using failover_take [OF assms(1,2)] by blast
  have t: "monitor_turn Z p (s, z) = (?s1, z1)"
    using assms(4) f by (simp add: ps monitor_turn_def interpretRavenStatus_def)
  obtain s2 z2 where m: "monitor Z ps' (?s1, z1) = (s2, z2)" by (cases "monitor Z ps' (?s1, z1)")
  have "failed_with holder ConnectivityFailure (?s1, z1)" using f(2) by (simp add: failed_with_def)
  from bus_outage [OF assms(1) _ this, of ps'] assms(4) ps m
  have s2: "\<not> sm_IsHealthy s2" "sm_FailureType s2 = ConnectivityFailure" "sm_AZName s2 = sm_AZName s"
    "holder z2 = Some (sm_AZName s)" "sm_lockHandle s2 = ''''" by (auto simp: failed_with_def)
  obtain s3 z3 where r: "recoverAZ Z (po_now q) (s2, z2) = (s3, z3)"
    by (cases "recoverAZ Z (po_now q) (s2, z2)")
  from recover_unlocks [OF assms(1) _ _ r] s2
  have s3: "sm_IsHealthy s3" "sm_AZName s3 = sm_AZName s" "holder z3 = Some (sm_AZName s)" by simp_all
  have "monitor_turn Z q (s2, z2) = (s3, z3)"
    using assms(5,6) r s2 s3
    by (auto simp: monitor_turn_def interpretRavenStatus_def interpretAZStatus_def Let_def split: option.splits)
  then have final: "monitor Z (ps @ [q]) (s, z) = (s3, z3)" by (simp add: monitor_append ps t m)
  have "sm_IsHealthy (fst (monitor Z qs (t, z3)))"
    by (rule monitor_other_zone [where holder = holder]) (use assms(1,7,8) s3 in \<open>auto simp: zk_up_def\<close>)
  with final s3 show ?thesis by simp
qed

theorem bus_outage_leaks_lock_witness:
  "snd (monitor mem_zk ([test_poll False False, test_poll False False] @ [test_poll True True])
     (test_monitor ''a'', None)) = Some ''a''"
  using bus_outage_leaks_lock [OF mem_zk_up, of None "[test_poll False False, test_poll False False]"
      "test_poll True True" "test_monitor ''a''" "test_monitor ''b''" "[]"]
  by (simp add: test_poll_def test_monitor_def NewStatusMonitor_def)

text \<open>C39: the lock node is ephemeral and goes with the session of the instance that made it, but the handle
  stays, and \<open>unlock\<close> deletes by path. When the session of an instance expires during an outage and
  another zone takes the lock, the recovery of the first deletes the lock of the second, which is still
  out of service, and a third zone can fail over.\<close>

theorem expired_lock:
  assumes "zk_up Z holder" and "holder z = None" and "holder (expire z1) = None"
    and "\<forall>m\<in>{a, b, c}. sm_IsHealthy m \<and> po_azStatus ill (sm_AZName m) = Some False"
    and "po_connected ill" and "po_connected well" and "po_azStatus well (sm_AZName a) = Some True"
    and "monitor_turn Z ill (a, z) = (a1, z1)" and "monitor_turn Z ill (b, expire z1) = (b1, z2)"
    and "monitor_turn Z well (a1, z2) = (a2, z3)" and "monitor_turn Z ill (c, z3) = (c1, z4)"
  shows "holder z2 = Some (sm_AZName b) \<and> sm_IsHealthy a2 \<and> holder z3 = None \<and>
    \<not> sm_IsHealthy b1 \<and> sm_lockHandle b1 = lockPath \<and> \<not> sm_IsHealthy c1 \<and> sm_lockHandle c1 = lockPath \<and>
    holder z4 = Some (sm_AZName c)"
proof -
  have take: "sm_AZName m' = sm_AZName m \<and> \<not> sm_IsHealthy m' \<and> sm_lockHandle m' = lockPath \<and>
        sm_FailureType m' = MonitoringFailure \<and> holder y' = Some (sm_AZName m)"
    if t: "monitor_turn Z ill (m, y) = (m', y')" and m: "m \<in> {a, b, c}" and y: "holder y = None" for m m' y y'
  proof -
    have "sm_IsHealthy m" "po_azStatus ill (sm_AZName m) = Some False" using m assms(4) by blast+
    then have "monitor_turn Z ill (m, y) = failoverAZ Z (po_now ill) MonitoringFailure (m, y)"
      by (simp add: monitor_turn_def interpretRavenStatus_def interpretAZStatus_def assms(5))
    with failover_take [OF assms(1) y, of "po_now ill" MonitoringFailure m] t show ?thesis by auto
  qed
  have a1: "sm_AZName a1 = sm_AZName a" "\<not> sm_IsHealthy a1" "sm_lockHandle a1 = lockPath"
    "sm_FailureType a1 = MonitoringFailure" using take [OF assms(8) _ assms(2)] by simp_all
  have b1: "\<not> sm_IsHealthy b1" "sm_lockHandle b1 = lockPath" "holder z2 = Some (sm_AZName b)"
    using take [OF assms(9) _ assms(3)] by simp_all
  have "recoverAZ Z (po_now well) (a1, z2) = (a2, z3)"
    using assms(6,7,10) a1 by (simp add: monitor_turn_def interpretRavenStatus_def interpretAZStatus_def go_simps)
  from recover_unlocks [OF assms(1) _ _ this] a1 b1 have a2: "sm_IsHealthy a2" "holder z3 = None"
    by (simp_all add: lockPath_def)
  have "\<not> sm_IsHealthy c1" "sm_lockHandle c1 = lockPath" "holder z4 = Some (sm_AZName c)"
    using take [OF assms(11) _ a2(2)] by simp_all
  with a2 b1 show ?thesis by blast
qed

theorem expired_lock_witness:
  "case monitor_turn mem_zk (test_poll True False) (test_monitor ''a'', None) of (a1, z1) \<Rightarrow>
   (case monitor_turn mem_zk (test_poll True False) (test_monitor ''b'', None) of (b1, z2) \<Rightarrow>
   (case monitor_turn mem_zk (test_poll True True) (a1, z2) of (a2, z3) \<Rightarrow>
   (case monitor_turn mem_zk (test_poll True False) (test_monitor ''c'', z3) of (c1, z4) \<Rightarrow>
      z2 = Some ''b'' \<and> \<not> sm_IsHealthy b1 \<and> sm_IsHealthy a2 \<and> \<not> sm_IsHealthy c1 \<and> z4 = Some ''c'')))"
proof -
  have n: "sm_IsHealthy (test_monitor x)" "sm_AZName (test_monitor x) = x" for x
    by (simp_all add: test_monitor_def NewStatusMonitor_def)
  obtain a1 z1 b1 z2 where 1: "monitor_turn mem_zk (test_poll True False) (test_monitor ''a'', None) = (a1, z1)"
    "monitor_turn mem_zk (test_poll True False) (test_monitor ''b'', None) = (b1, z2)" by (metis surj_pair)
  obtain a2 z3 c1 z4 where 2: "monitor_turn mem_zk (test_poll True True) (a1, z2) = (a2, z3)"
    "monitor_turn mem_zk (test_poll True False) (test_monitor ''c'', z3) = (c1, z4)" by (metis surj_pair)
  have "\<forall>m\<in>{test_monitor ''a'', test_monitor ''b'', test_monitor ''c''}. sm_IsHealthy m \<and>
      po_azStatus (test_poll True False) (sm_AZName m) = Some False"
    by (simp add: n test_poll_def)
  moreover have "po_connected (test_poll True x)" "po_azStatus (test_poll True True) y = Some True" for x y
    by (simp_all add: test_poll_def)
  ultimately have "z2 = Some ''b'' \<and> \<not> sm_IsHealthy b1 \<and> sm_IsHealthy a2 \<and> \<not> sm_IsHealthy c1 \<and> z4 = Some ''c''"
    using expired_lock [where expire = "\<lambda>z. None", OF mem_zk_up refl refl _ _ _ _ 1 2] by (simp add: n)
  with 1 2 show ?thesis by simp
qed

text \<open>The lock does not keep two zones from being out of service at once. With two instances in zone
  \<open>a\<close>, the one that holds the lock deletes it when it recovers, while the other is still out of
  service; an instance of zone \<open>b\<close> can then fail over.\<close>

theorem two_zones_fail_over:
  "\<exists>ms z. (fleet_step mem_zk)\<^sup>*\<^sup>* ([test_monitor ''a'', test_monitor ''a'', test_monitor ''b''], None) (ms, z) \<and>
     \<not> sm_IsHealthy (ms ! 1) \<and> sm_AZName (ms ! 1) = ''a'' \<and> \<not> sm_IsHealthy (ms ! 2) \<and> sm_AZName (ms ! 2) = ''b''"
proof -
  define turn where "turn i zone mz = (case mz of (ms, z) \<Rightarrow>
      (case monitor_turn mem_zk (test_poll True zone) (ms ! i, z) of (m', z') \<Rightarrow> (ms[i := m'], z')))"
    for i zone and mz :: "status_monitor list \<times> string option"
  have step: "fleet_step mem_zk mz (turn i zone mz)" if "i < length (fst mz)" for i zone mz
    using that fleet_step.poll [of i "fst mz" mem_zk "test_poll True zone" "snd mz"]
    by (auto simp: turn_def split: prod.splits)
  let ?s0 = "([test_monitor ''a'', test_monitor ''a'', test_monitor ''b''], None)"
  let ?s1 = "turn 0 False ?s0" let ?s2 = "turn 1 False ?s1" let ?s3 = "turn 0 True ?s2" let ?s4 = "turn 2 False ?s3"
  have len: "length (fst (turn i zone mz)) = length (fst mz)" for i zone mz
    by (simp add: turn_def split: prod.splits)
  have "fleet_step mem_zk ?s0 ?s1" "fleet_step mem_zk ?s1 ?s2" "fleet_step mem_zk ?s2 ?s3"
    "fleet_step mem_zk ?s3 ?s4"
    by (rule step; simp add: len)+
  then have "(fleet_step mem_zk)\<^sup>*\<^sup>* ?s0 ?s4" by (meson converse_rtranclp_into_rtranclp rtranclp.rtrancl_refl)
  moreover have "?s4 = ([(test_monitor ''a'')\<lparr>sm_LastChanged := 5\<rparr>,
      (test_monitor ''a'')\<lparr>sm_IsHealthy := False, sm_LastChanged := 5, sm_FailureType := MonitoringFailure\<rparr>,
      (test_monitor ''b'')\<lparr>sm_lockHandle := lockPath, sm_IsHealthy := False, sm_LastChanged := 5,
        sm_FailureType := MonitoringFailure\<rparr>], Some ''b'')"
    by (simp add: turn_def test_turn_locks) (simp add: monitor_turn_def interpretRavenStatus_def interpretAZStatus_def
        failoverAZ_def recoverAZ_def lock_def unlock_def readLock_def mem_zk_def test_poll_def test_monitor_def
        NewStatusMonitor_def go_simps lockPath_def)
  ultimately show ?thesis
    by (intro exI conjI) (assumption | simp add: test_monitor_def NewStatusMonitor_def)+
qed

text \<open>The status handler of a failed zone answers 500 without its content type: the header is set
  after \<open>WriteHeader\<close> has sent the headers. For a healthy zone it is sent.\<close>

theorem status_content_type:
  assumes "rw_Status w = None"
  shows "rw_Status (Handler s w) = Some (if sm_IsHealthy s then 200 else 500) \<and>
    header_get (rw_Sent (Handler s w)) ''Content-Type'' =
      (if sm_IsHealthy s then ''application/json; charset=utf-8'' else get_hdr w ''Content-Type'') \<and>
    rw_Body (Handler s w) = rw_Body w @ [Json (JObj [(''IsHealthy'', JBool (sm_IsHealthy s))])]"
  using assms by (simp add: Handler_def JsonResponse_String_def Let_def header_get_set)

theorem status_content_type_witness:
  "header_get (rw_Sent (Handler ((test_monitor ''a'')\<lparr>sm_IsHealthy := False\<rparr>) new_rwriter)) ''Content-Type'' = ''''"
  using status_content_type [of new_rwriter "(test_monitor ''a'')\<lparr>sm_IsHealthy := False\<rparr>"]
  by (simp add: new_rwriter_def header_get_def values_get_def vals_def)

text \<open>The connectivity probe answers 500 exactly when every one of the three hosts fails, with the
  error of the last one, and 200 otherwise.\<close>

theorem probe_all_hosts:
  assumes "rw_Status w = None"
  shows "rw_Status (StatusHandler dial w) = Some (if \<forall>h\<in>set hosts. dial h \<noteq> None then 500 else 200) \<and>
    rw_Body (StatusHandler dial w) = rw_Body w @
      [Bytes (case (map dial hosts) of [Some a, Some b, Some c] \<Rightarrow>
          ''Error establishing external connections: '' @ c @ [CHR 0x0A] | _ \<Rightarrow> ''OK'')]"
  using assms
  by (simp add: StatusHandler_def hosts_def http_error_def split: option.splits)

theorem probe_all_hosts_witness:
  "rw_Status (StatusHandler (\<lambda>h. if h = ''bing.com:80'' then None else Some ''i/o timeout'') new_rwriter) = Some 200"
  using probe_all_hosts [of new_rwriter "\<lambda>h. if h = ''bing.com:80'' then None else Some ''i/o timeout''"]
  by (simp add: new_rwriter_def hosts_def)

end
