(* ===== verification/Stats.thy ===== *)
theory Stats
  imports Cp_Types Fnv
begin

text \<open>
  Package \<open>stats\<close> (\<open>stats.go\<close>, \<open>endpoint.go\<close>): the endpoints whose calls are counted, the one-minute
  rates read back from the platform's statistics, and a store of named values. Package
  \<open>healthcheck\<close> (\<open>healthcheck.go\<close>): the error rate and drop-off checks made from them.

  The platform statistics are the argument \<open>get_endpoint\<close> (what \<open>pstats.GetEndpoint\<close> returns, with the
  success and error rates that may be missing); the calls made to it are kept as a log. A rate is a
  non-negative \<open>float32\<close>, a rational that \<open>f32_round\<close> leaves as it is; every operation rounds.
\<close>

section \<open>endpoint.go\<close>

definition defaultMean :: int where "defaultMean = 10000"
definition defaultUpper95 :: int where "defaultUpper95 = 30000"

record endpoint =
  ep_name :: string
  ep_mean :: int
  ep_upper95 :: int

definition GetName :: "endpoint \<Rightarrow> string" where "GetName e = ep_name e"
definition GetMean :: "endpoint \<Rightarrow> int" where "GetMean e = ep_mean e"
definition GetUpper95 :: "endpoint \<Rightarrow> int" where "GetUpper95 e = ep_upper95 e"

section \<open>stats.go\<close>

datatype pstats_call = RegisterEndpoint endpoint | RecordCall endpoint bool int | StartReports | StopReports

record stats_manager =
  st_endpoints :: "(string, endpoint) gomap"
  st_metrics :: "(string, f32) gomap"
  st_calls :: "pstats_call list"

record endpoint_stats =
  es_Success :: "f32 option"
  es_Error :: "f32 option"

type_synonym pstats = "endpoint \<Rightarrow> endpoint_stats option"

definition newStatsManager :: stats_manager where
  "newStatsManager = \<lparr>st_endpoints = [], st_metrics = [], st_calls = []\<rparr>"

text \<open>\<open>record\<close> passes on whether the call failed and its duration, for a registered endpoint.\<close>

definition stats_record :: "string \<Rightarrow> bool \<Rightarrow> int \<Rightarrow> stats_manager \<Rightarrow> stats_manager" where
  "stats_record ep success d s =
     (case map_of (st_endpoints s) ep of
        None \<Rightarrow> s
      | Some epoint \<Rightarrow> s\<lparr>st_calls := st_calls s @ [RecordCall epoint (\<not> success) d]\<rparr>)"

definition stats_register :: "string \<Rightarrow> stats_manager \<Rightarrow> stats_manager" where
  "stats_register ep s =
     (if map_of (st_endpoints s) ep \<noteq> None then s
      else (let epoint = \<lparr>ep_name = ep, ep_mean = defaultMean, ep_upper95 = defaultUpper95\<rparr>
            in s\<lparr>st_endpoints := AList.update ep epoint (st_endpoints s),
                 st_calls := st_calls s @ [RegisterEndpoint epoint]\<rparr>))"

definition rate_or_zero :: "f32 option \<Rightarrow> f32" where
  "rate_or_zero r = (case r of None \<Rightarrow> 0 | Some x \<Rightarrow> x)"

definition rate1 :: "pstats \<Rightarrow> stats_manager \<Rightarrow> string \<Rightarrow> f32 \<times> f32" where
  "rate1 get_endpoint s ep =
     (case map_of (st_endpoints s) ep of None \<Rightarrow> (0, 0)
      | Some epp \<Rightarrow> (case get_endpoint epp of None \<Rightarrow> (0, 0)
        | Some st \<Rightarrow>
            (let su = rate_or_zero (es_Success st); e = rate_or_zero (es_Error st);
                 eRate = (if e \<noteq> 0 then f32_round (e / f32_round (su + e)) else 0);
                 sRate = (if su \<noteq> 0 then f32_round (su / f32_round (e + su)) else 0)
             in (sRate, eRate))))"

definition rate1Total :: "pstats \<Rightarrow> stats_manager \<Rightarrow> string \<Rightarrow> f32" where
  "rate1Total get_endpoint s ep =
     (case map_of (st_endpoints s) ep of None \<Rightarrow> 0
      | Some epp \<Rightarrow> (case get_endpoint epp of None \<Rightarrow> 0
        | Some st \<Rightarrow> f32_round (rate_or_zero (es_Success st) + rate_or_zero (es_Error st))))"

definition getMetric :: "string \<Rightarrow> stats_manager \<Rightarrow> f32" where
  "getMetric key s = (case map_of (st_metrics s) key of None \<Rightarrow> 0 | Some v \<Rightarrow> v)"

definition saveMetric :: "string \<Rightarrow> f32 \<Rightarrow> stats_manager \<Rightarrow> stats_manager" where
  "saveMetric key v s = s\<lparr>st_metrics := AList.update key v (st_metrics s)\<rparr>"

text \<open>The functions of the package work on its one manager; \<open>Start\<close> puts the reports of the platform on
  a goroutine of their own, \<open>Stop\<close> ends them.\<close>

definition defaultManager :: stats_manager where
  "defaultManager = newStatsManager"

definition GetMetric :: "string \<Rightarrow> stats_manager \<Rightarrow> f32" where
  [simp]: "GetMetric = getMetric"

definition SaveMetric :: "string \<Rightarrow> f32 \<Rightarrow> stats_manager \<Rightarrow> stats_manager" where
  [simp]: "SaveMetric = saveMetric"

definition Rate1 :: "pstats \<Rightarrow> stats_manager \<Rightarrow> string \<Rightarrow> f32 \<times> f32" where
  [simp]: "Rate1 = rate1"

definition Rate1Total :: "pstats \<Rightarrow> stats_manager \<Rightarrow> string \<Rightarrow> f32" where
  [simp]: "Rate1Total = rate1Total"

definition Record :: "string \<Rightarrow> bool \<Rightarrow> int \<Rightarrow> stats_manager \<Rightarrow> stats_manager" where
  [simp]: "Record = stats_record"

definition Register :: "string \<Rightarrow> stats_manager \<Rightarrow> stats_manager" where
  [simp]: "Register = stats_register"

definition Stats_Start :: "stats_manager \<Rightarrow> stats_manager" where
  "Stats_Start s = s\<lparr>st_calls := st_calls s @ [StartReports]\<rparr>"

definition Stats_Stop :: "stats_manager \<Rightarrow> stats_manager" where
  "Stats_Stop s = s\<lparr>st_calls := st_calls s @ [StopReports]\<rparr>"

section \<open>healthcheck.go\<close>

text \<open>\<open>%.2f\<close> of a non-negative value, rounding the exact value half to even.\<close>

definition fmt2 :: "rat \<Rightarrow> string" where
  "fmt2 q = (let n = nat (round_even (q * 100))
     in show_nat (n div 100) @ ''.'' @ show_nat (n mod 100 div 10) @ show_nat (n mod 10))"

type_synonym check_result = "(string, string) gomap \<times> string option"

definition percent :: "f32 \<Rightarrow> f32" where
  "percent r = f32_round (r * 100)"

definition error_rate_check :: "pstats \<Rightarrow> string \<Rightarrow> f32 \<Rightarrow> stats_manager \<Rightarrow> check_result" where
  "error_rate_check get_endpoint ep errRate s =
     (case Rate1 get_endpoint s ep of (srate, erate) \<Rightarrow>
        ([(''errorRate1'', fmt2 (percent erate) @ ''%''), (''successRate1'', fmt2 (percent srate) @ ''%'')],
         if erate > errRate then
           Some (''1 minute error rate '' @ fmt2 (percent erate) @ '' exceeds threshold '' @ fmt2 (percent errRate) @ ''%'')
         else None))"

text \<open>The drop-off check compares the total rate with the one saved by the previous check.\<close>

definition drop_off_check ::
    "pstats \<Rightarrow> string \<Rightarrow> f32 \<Rightarrow> stats_manager \<Rightarrow> check_result \<times> stats_manager" where
  "drop_off_check get_endpoint ep dropOff s =
     (let oldRate = GetMetric (ep @ ''.totalRate1'') s;
          newRate = Rate1Total get_endpoint s ep;
          s' = SaveMetric (ep @ ''.totalRate1'') newRate s;
          dev = (if newRate \<noteq> 0 \<and> oldRate \<noteq> 0 then f32_round (newRate / oldRate) else 0);
          newRate' = (if newRate > 0 then f32_round (newRate / 100) else newRate);
          ret = (\<lambda>down up. [(''rate1Total'', fmt2 newRate'), (''rate1DropOff'', down), (''rate1Increase'', up)]);
          res = (if dev = 0 \<or> dev = 1 then ret ''0.0%'' ''0.0%''
                 else if dev < 1 then ret (fmt2 (percent (f32_round (1 - dev))) @ ''%'') ''0.0%''
                 else ret ''0.0%'' (fmt2 (percent (f32_round (dev - 1))) @ ''%''));
          drop = f32_round (1 - dev)
      in (if (dev = 0 \<or> dev = 1) \<and> newRate' = 0 then (res, Some ''Request rate is 0.0%'')
          else if dev < 1 \<and> drop > dropOff then
            (res, Some (''1 minute dropoff rate '' @ fmt2 (percent drop) @ '' exceeds threshold ''
                        @ fmt2 (percent dropOff) @ ''%''))
          else (res, None), s'))"

text \<open>The checks are registered with the platform under the identity of the running service.\<close>

datatype priority = Warning | Pager

record identity =
  id_Name :: string
  id_Version :: int
  id_InstanceID :: string
  id_Hostname :: string

record 'c health_check =
  hk_Id :: string
  hk_ServiceName :: string
  hk_ServiceVersion :: int
  hk_Hostname :: string
  hk_InstanceId :: string
  hk_Interval :: int
  hk_Checker :: 'c
  hk_Priority :: priority

definition minute :: int where "minute = 60000000000"

definition hc_Register :: "identity \<Rightarrow> string \<Rightarrow> 'c \<Rightarrow> 'c health_check list \<Rightarrow> 'c health_check list" where
  "hc_Register srv i checker regs = regs @
     [\<lparr>hk_Id = i, hk_ServiceName = id_Name srv, hk_ServiceVersion = id_Version srv,
       hk_Hostname = id_Hostname srv, hk_InstanceId = id_InstanceID srv, hk_Interval = minute,
       hk_Checker = checker, hk_Priority = Warning\<rparr>]"

type_synonym checker = "stats_manager \<Rightarrow> check_result \<times> stats_manager"

definition RegisterErrorRateCheck ::
    "pstats \<Rightarrow> identity \<Rightarrow> string \<Rightarrow> string \<Rightarrow> f32 \<Rightarrow> checker health_check list \<Rightarrow> checker health_check list" where
  "RegisterErrorRateCheck get_endpoint srv i ep errRate =
     hc_Register srv i (\<lambda>s. (error_rate_check get_endpoint ep errRate s, s))"

definition RegisterDropOffCheck ::
    "pstats \<Rightarrow> identity \<Rightarrow> string \<Rightarrow> string \<Rightarrow> f32 \<Rightarrow> checker health_check list \<Rightarrow> checker health_check list" where
  "RegisterDropOffCheck get_endpoint srv i ep dropOff =
     hc_Register srv i (drop_off_check get_endpoint ep dropOff)"

section \<open>Lemmas\<close>

abbreviation is_f32 :: "rat \<Rightarrow> bool" where
  "is_f32 q \<equiv> f32_round q = q"

lemma is_f32_nonneg: "is_f32 q \<Longrightarrow> 0 \<le> q"
  using f32_round_nonneg [of q] by simp

lemma f32_round_one [simp]: "f32_round 1 = 1"
  by code_simp

lemma f32_round_zero [simp]: "f32_round 0 = 0"
  by (simp add: f32_round_def)

lemma f32_share:
  assumes "is_f32 a" and "is_f32 b" and "a \<noteq> 0"
  shows "f32_round (a / f32_round (a + b)) \<le> 1"
proof -
  have pos: "0 < a" "0 \<le> b" using is_f32_nonneg [OF assms(1)] is_f32_nonneg [OF assms(2)] assms(3) by auto
  then have "f32_round a \<le> f32_round (a + b)" by (intro f32_round_mono) simp
  with assms(1) pos have "a / f32_round (a + b) \<le> 1" by (simp add: divide_le_eq)
  from f32_round_mono [OF this] show ?thesis by simp
qed

text \<open>The endpoints registered are those the statistics have been told of, once each.\<close>

fun told :: "pstats_call list \<Rightarrow> string list" where
  "told [] = []"
| "told (RegisterEndpoint e # cs) = ep_name e # told cs"
| "told (_ # cs) = told cs"

fun recorded :: "pstats_call list \<Rightarrow> string list" where
  "recorded [] = []"
| "recorded (RecordCall e b d # cs) = ep_name e # recorded cs"
| "recorded (_ # cs) = recorded cs"

lemma told_append [simp]: "told (cs @ ds) = told cs @ told ds"
  by (induction cs rule: told.induct) simp_all

lemma recorded_append [simp]: "recorded (cs @ ds) = recorded cs @ recorded ds"
  by (induction cs rule: recorded.induct) simp_all

definition stats_inv :: "stats_manager \<Rightarrow> bool" where
  "stats_inv s \<longleftrightarrow> wf_map (st_endpoints s) \<and> told (st_calls s) = map fst (st_endpoints s) \<and>
     (\<forall>(k, e)\<in>set (st_endpoints s). ep_name e = k) \<and> set (recorded (st_calls s)) \<subseteq> fst ` set (st_endpoints s)"

lemma update_new: "k \<notin> fst ` set m \<Longrightarrow> AList.update k v m = m @ [(k, v)]"
  by (induction m) auto

lemma stats_inv_register: "stats_inv s \<Longrightarrow> stats_inv (stats_register ep s)"
proof -
  assume inv: "stats_inv s"
  show ?thesis
  proof (cases "ep \<in> fst ` set (st_endpoints s)")
    case True
    then have "map_of (st_endpoints s) ep \<noteq> None" by (simp add: map_of_eq_None_iff)
    with inv show ?thesis by (simp add: stats_register_def)
  next
    case False
    then have "map_of (st_endpoints s) ep = None" by (simp add: map_of_eq_None_iff)
    with inv False show ?thesis
      by (auto simp: stats_register_def stats_inv_def update_new Let_def)
  qed
qed

lemma stats_inv_record: "stats_inv s \<Longrightarrow> stats_inv (stats_record ep b d s)"
proof -
  assume inv: "stats_inv s"
  show ?thesis
  proof (cases "map_of (st_endpoints s) ep")
    case (Some e)
    then have "(ep, e) \<in> set (st_endpoints s)" by (rule map_of_SomeD)
    then have "ep \<in> fst ` set (st_endpoints s)" by (metis fst_conv image_eqI)
    moreover from \<open>(ep, e) \<in> set (st_endpoints s)\<close> inv have "ep_name e = ep" by (auto simp: stats_inv_def)
    ultimately show ?thesis using inv Some by (simp add: stats_record_def stats_inv_def)
  qed (use inv in \<open>simp add: stats_record_def\<close>)
qed

lemma stats_inv_save: "stats_inv s \<Longrightarrow> stats_inv (saveMetric k v s)"
  by (simp add: stats_inv_def saveMetric_def)

lemma stats_inv_start_stop: "stats_inv s \<Longrightarrow> stats_inv (Stats_Start s)" "stats_inv s \<Longrightarrow> stats_inv (Stats_Stop s)"
  by (simp_all add: stats_inv_def Stats_Start_def Stats_Stop_def)

datatype stats_op = DoRegister string | DoRecord string bool int | DoSave string rat | DoStart | DoStop

fun run_stats :: "stats_op list \<Rightarrow> stats_manager \<Rightarrow> stats_manager" where
  "run_stats [] s = s"
| "run_stats (DoRegister ep # ops) s = run_stats ops (Register ep s)"
| "run_stats (DoRecord ep b d # ops) s = run_stats ops (Record ep b d s)"
| "run_stats (DoSave k v # ops) s = run_stats ops (SaveMetric k v s)"
| "run_stats (DoStart # ops) s = run_stats ops (Stats_Start s)"
| "run_stats (DoStop # ops) s = run_stats ops (Stats_Stop s)"

lemma run_stats_inv: "stats_inv s \<Longrightarrow> stats_inv (run_stats ops s)"
  by (induction ops s rule: run_stats.induct)
    (simp_all add: stats_inv_register stats_inv_record stats_inv_save stats_inv_start_stop)

section \<open>Properties\<close>

text \<open>In any sequence of operations the platform statistics are told of every endpoint at most once,
  in the order of registration, and calls are recorded only for endpoints they have been told of.\<close>

theorem endpoints_told_once:
  "let s = run_stats ops defaultManager in
     distinct (told (st_calls s)) \<and> told (st_calls s) = map fst (st_endpoints s) \<and>
     set (recorded (st_calls s)) \<subseteq> set (told (st_calls s))"
proof -
  have "stats_inv defaultManager" by (simp add: stats_inv_def defaultManager_def newStatsManager_def)
  then have "stats_inv (run_stats ops defaultManager)" by (rule run_stats_inv)
  then show ?thesis by (simp add: stats_inv_def Let_def)
qed

text \<open>C34: the two rates are shares: with \<open>float32\<close> rates from the statistics, each lies between 0 and 1
  after rounding, both are 0 for an unknown endpoint, and an endpoint without errors has the rates 1
  and 0.\<close>

theorem rate1_bounds:
  assumes "\<forall>e st r. get_endpoint e = Some st \<and> (es_Success st = Some r \<or> es_Error st = Some r) \<longrightarrow> is_f32 r"
    and "rate1 get_endpoint s ep = (sRate, eRate)"
  shows "0 \<le> sRate \<and> sRate \<le> 1 \<and> 0 \<le> eRate \<and> eRate \<le> 1 \<and>
    (map_of (st_endpoints s) ep = None \<longrightarrow> sRate = 0 \<and> eRate = 0) \<and>
    (\<forall>e st. map_of (st_endpoints s) ep = Some e \<and> get_endpoint e = Some st \<and> rate_or_zero (es_Error st) = 0 \<and>
       rate_or_zero (es_Success st) \<noteq> 0 \<longrightarrow> sRate = 1 \<and> eRate = 0)"
proof (cases "map_of (st_endpoints s) ep")
  case None
  with assms(2) show ?thesis by (simp add: rate1_def)
next
  case (Some e)
  show ?thesis
  proof (cases "get_endpoint e")
    case None
    with Some assms(2) show ?thesis by (simp add: rate1_def)
  next
    case (Some st)
    let ?su = "rate_or_zero (es_Success st)" and ?e = "rate_or_zero (es_Error st)"
    have f: "is_f32 ?su" "is_f32 ?e"
      using assms(1) Some by (auto simp: rate_or_zero_def split: option.splits)
    have r: "eRate = (if ?e \<noteq> 0 then f32_round (?e / f32_round (?su + ?e)) else 0)"
      "sRate = (if ?su \<noteq> 0 then f32_round (?su / f32_round (?e + ?su)) else 0)"
      using assms(2) Some \<open>map_of (st_endpoints s) ep = Some e\<close> by (auto simp: rate1_def Let_def)
    have "?e = 0 \<and> ?su \<noteq> 0 \<longrightarrow> sRate = 1 \<and> eRate = 0" using f by (simp add: r)
    then show ?thesis
      using f32_share [OF f] f32_share [OF f(2,1)] Some \<open>map_of (st_endpoints s) ep = Some e\<close>
      by (auto simp: r add.commute)
  qed
qed

definition test_pstats :: "rat \<Rightarrow> rat \<Rightarrow> pstats" where
  "test_pstats su e = (\<lambda>ep. Some \<lparr>es_Success = Some su, es_Error = Some e\<rparr>)"

theorem rate1_bounds_witness:
  "fst (rate1 (test_pstats 3 1) (stats_register ''h1'' newStatsManager) ''h1'') \<le> 1"
proof -
  have "f32_round 3 = 3" by code_simp
  then show ?thesis
    using rate1_bounds [of "test_pstats 3 1" "stats_register ''h1'' newStatsManager" "''h1''"
        "fst (rate1 (test_pstats 3 1) (stats_register ''h1'' newStatsManager) ''h1'')"
        "snd (rate1 (test_pstats 3 1) (stats_register ''h1'' newStatsManager) ''h1'')"]
    by (auto simp: test_pstats_def)
qed

text \<open>The error rate check raises an alarm exactly when the share of failed calls is above the
  threshold, and so never for an endpoint without errors, whose check has a threshold that is not
  negative.\<close>

theorem error_rate_alarm:
  assumes "0 \<le> errRate"
  shows "(snd (error_rate_check get_endpoint ep errRate s) \<noteq> None \<longleftrightarrow>
      (\<exists>e st x. map_of (st_endpoints s) ep = Some e \<and> get_endpoint e = Some st \<and> es_Error st = Some x \<and> x \<noteq> 0 \<and>
         f32_round (x / f32_round (rate_or_zero (es_Success st) + x)) > errRate))"
  using assms
  by (auto simp: error_rate_check_def rate1_def rate_or_zero_def Let_def split: option.splits if_splits)

theorem error_rate_alarm_witness:
  "snd (error_rate_check (test_pstats 3 1) ''h1'' (1 / 2) (stats_register ''h1'' newStatsManager)) = None"
proof -
  have "f32_round (1 / f32_round (3 + 1)) = 1 / 4" by code_simp
  then show ?thesis
    using error_rate_alarm [of "1 / 2" "test_pstats 3 1" "''h1''" "stats_register ''h1'' newStatsManager"]
    by (auto simp: test_pstats_def rate_or_zero_def)
qed

text \<open>The drop-off check. With a rate saved by the previous check and a positive rate now, there is an
  alarm exactly when the rounded quotient is below 1 and falls short of it by more than the
  threshold; the rate seen is saved for the next check.\<close>

theorem drop_off_alarm:
  assumes "old = getMetric (ep @ ''.totalRate1'') s" and "new = rate1Total get_endpoint s ep"
    and "0 < old" and "0 < f32_round (new / 100)" and "0 < f32_round (new / old)" and "0 \<le> dropOff"
  shows "(snd (fst (drop_off_check get_endpoint ep dropOff s)) \<noteq> None \<longleftrightarrow>
      f32_round (new / old) < 1 \<and> f32_round (1 - f32_round (new / old)) > dropOff) \<and>
    getMetric (ep @ ''.totalRate1'') (snd (drop_off_check get_endpoint ep dropOff s)) = new"
proof -
  let ?dev = "f32_round (new / old)"
  have new: "0 < new" using assms(4) by (rule contrapos_pp) (simp add: f32_round_def)
  have saved: "getMetric k (saveMetric k new s) = new" for k
    by (simp add: getMetric_def saveMetric_def update_conv')
  have rates: "getMetric (ep @ ''.totalRate1'') s = old" "rate1Total get_endpoint s ep = new"
    by (simp_all add: assms(1,2))
  consider "?dev < 1" | "?dev = 1" | "1 < ?dev" by linarith
  then show ?thesis
    by cases (use assms(3-6) new in \<open>simp_all add: drop_off_check_def rates saved Let_def\<close>)
qed

text \<open>The first drop-off check of an endpoint that receives calls raises an alarm. No rate is saved yet,
  the deviation stays 0, and although the result reports a drop-off of 0.0% the last test takes it for
  a drop of 100%, for every threshold below 1.\<close>

theorem first_drop_off_check:
  assumes "getMetric (ep @ ''.totalRate1'') s = 0" and "0 < f32_round (rate1Total get_endpoint s ep / 100)"
    and "dropOff < 1"
  shows "fst (drop_off_check get_endpoint ep dropOff s) =
    ([(''rate1Total'', fmt2 (f32_round (rate1Total get_endpoint s ep / 100))), (''rate1DropOff'', ''0.0%''),
      (''rate1Increase'', ''0.0%'')],
     Some (''1 minute dropoff rate 100.00 exceeds threshold '' @ fmt2 (percent dropOff) @ ''%''))"
proof -
  have "0 < rate1Total get_endpoint s ep" using assms(2) by (rule contrapos_pp) (simp add: f32_round_def)
  moreover have "f32_round (1 * 100) = 100" by code_simp
  then have "fmt2 (percent 1) = [char_of (49::nat), char_of (48::nat), char_of (48::nat)] @ ''.'' @
      [char_of (48::nat), char_of (48::nat)]"
    by (simp add: fmt2_def percent_def show_nat.simps)
  moreover have "char_of (49::nat) = CHR ''1''" and "char_of (48::nat) = CHR ''0''" by code_simp+
  ultimately show ?thesis using assms by (simp add: drop_off_check_def Let_def)
qed

theorem first_drop_off_check_witness:
  "snd (fst (drop_off_check (test_pstats 3 1) ''h1'' (1 / 2) (stats_register ''h1'' newStatsManager))) \<noteq> None"
proof -
  let ?s = "stats_register ''h1'' newStatsManager"
  have "getMetric (''h1'' @ ''.totalRate1'') ?s = 0"
    by (simp add: stats_register_def newStatsManager_def getMetric_def Let_def)
  moreover have "rate1Total (test_pstats 3 1) ?s ''h1'' = 4" by code_simp
  moreover have "0 < f32_round (4 / 100)" by code_simp
  ultimately show ?thesis
    using first_drop_off_check [of "''h1''" ?s "test_pstats 3 1" "1 / 2"] by simp
qed

theorem drop_off_alarm_witness:
  "snd (fst (drop_off_check (test_pstats 3 1) ''h1'' (1 / 4)
     (saveMetric ''h1.totalRate1'' 16 (stats_register ''h1'' newStatsManager)))) \<noteq> None"
proof -
  let ?s = "saveMetric ''h1.totalRate1'' 16 (stats_register ''h1'' newStatsManager)"
  have "16 = getMetric (''h1'' @ ''.totalRate1'') ?s"
    by (simp add: getMetric_def saveMetric_def update_conv')
  moreover have "4 = rate1Total (test_pstats 3 1) ?s ''h1''" by code_simp
  moreover have "0 < f32_round (4 / 100)" "0 < f32_round (4 / 16)" by code_simp+
  moreover have "f32_round (4 / 16) < 1 \<and> f32_round (1 - f32_round (4 / 16)) > 1 / 4" by code_simp
  ultimately show ?thesis
    using drop_off_alarm [of 16 "''h1''" ?s 4 "test_pstats 3 1" "1 / 4"] by auto
qed

end
