(* ===== verification/Server.thy ===== *)
theory Server
  imports Reload_Race Cors Throttling Status_Monitor Stats
begin

text \<open>
  The server as a whole: \<open>src/handler/server.go\<close> registers the handlers with an \<open>http.ServeMux\<close> and puts
  the middleware in front of it, \<open>src/main.go\<close> registers the statistics endpoints and the health checks.

  A record \<open>server\<close> holds what the handlers of one request find: the control plane as each load of it finds
  it (\<open>sv_control n\<close> for the \<open>n\<close>-th), the throttled buckets, the PCI filter and the monitor when they are
  read, and the environment. The profiling handlers of
  \<open>net/http/pprof\<close> and the redirection of \<open>net/http\<close> to another path are arguments. The server recovers a
  panic of a handler and drops the connection; what the handler wrote is lost (\<open>Aborted\<close>). The request
  target \<open>*\<close> is left out.
\<close>

section \<open>The multiplexer\<close>

record 'u server =
  sv_env :: env
  sv_mappings :: mappings
  sv_upstream :: upstream
  sv_control :: "nat \<Rightarrow> control_plane"
  sv_no_hobs :: bool
  sv_monitor :: status_monitor
  sv_dial :: "string \<Rightarrow> string option"
  sv_throttled :: "string list"
  sv_pci :: "'u pci_filter"
  sv_rolls :: "nat \<Rightarrow> f32"
  sv_pprof :: "string \<Rightarrow> handler"
  sv_redirect :: "string \<Rightarrow> handler"

definition ServiceVersion :: int where "ServiceVersion = 20130624113616"

definition version_handler :: handler where
  "version_handler r w = (write_body (Bytes (''{\"version\":\"'' @ show_int ServiceVersion @ ''\"}'')) w, [])"

text \<open>\<open>base64.StdEncoding.DecodeString\<close> on whole groups of four, with the padding at the end.\<close>

definition b64_val :: "char \<Rightarrow> nat" where
  "b64_val c = (let n = of_char c :: nat in
     if CHR ''A'' \<le> c \<and> c \<le> CHR ''Z'' then n - 65
     else if CHR ''a'' \<le> c \<and> c \<le> CHR ''z'' then n - 71
     else if CHR ''0'' \<le> c \<and> c \<le> CHR ''9'' then n + 4
     else if c = CHR ''+'' then 62 else 63)"

fun b64_decode :: "string \<Rightarrow> string" where
  "b64_decode (a # b # c # d # s) =
     (let n = ((b64_val a * 64 + b64_val b) * 64 + (if c = CHR ''='' then 0 else b64_val c)) * 64
              + (if d = CHR ''='' then 0 else b64_val d)
      in [char_of (n div 65536)] @ (if c = CHR ''='' then [] else [char_of (n div 256 mod 256)])
         @ (if d = CHR ''='' then [] else [char_of (n mod 256)]) @ b64_decode s)"
| "b64_decode _ = ''''"

definition faviconStr :: string where
  "faviconStr = ''iVBORw0KGgoAAAANSUhEUgAAABAAAAAQAQMAAAAlPW0iAAAAA1BMVEX9vSx51WFPAAAADElEQVQImWNgIA0AAAAwAAFDlLdnAAAAAElFTkSuQmCC''"

definition favicon :: string where "favicon = b64_decode faviconStr"

definition favicon_handler :: handler where
  "favicon_handler r w = (write_body (Bytes favicon) (set_hdr ''Content-Type'' ''image/png'' w), [])"

definition rpc_handler :: "env \<Rightarrow> (nat \<Rightarrow> cp_config) \<Rightarrow> handler" where
  "rpc_handler E cfgs r w =
     (case api_RpcHandler E (racing_router (en_mime E) (en_hx E) cfgs) (newExtractor r, 0) w of
        (Inr w', evs) \<Rightarrow> (w', evs)
      | (Inl p, evs) \<Rightarrow> (w, evs @ [Aborted p]))"

text \<open>The registered patterns. One that ends with a slash stands for all paths below it.\<close>

definition mux_patterns :: "string list" where
  "mux_patterns = [''/version'', ''/favicon.ico'', ''/debug/pprof/'', ''/debug/pprof/cmdline'', ''/debug/pprof/profile'',
     ''/debug/pprof/symbol'', ''/rpc'', ''/v2/h2/call'', ''/'', ''/v2/az/status'', ''/status'', ''/endpoints'']"

definition pattern_handler :: "'u server \<Rightarrow> string \<Rightarrow> handler" where
  "pattern_handler S pat r w =
     (let E = sv_env S; cfgs = loadedConfig \<circ> sv_control S in
      if pat = ''/version'' then version_handler r w
      else if pat = ''/favicon.ico'' then favicon_handler r w
      else if has_prefix pat ''/debug/pprof/'' then sv_pprof S pat r w
      else if pat = ''/rpc'' \<or> pat = ''/v2/h2/call'' then rpc_handler E cfgs r w
      else if pat = ''/v2/az/status'' then (Status_Monitor.Handler (sv_monitor S) w, [])
      else if pat = ''/status'' then (StatusHandler (sv_dial S) w, [])
      else if pat = ''/endpoints'' then endpoints_handler E (sv_control S) (sv_no_hobs S) r w
      else racing_handler E (sv_mappings S) (sv_upstream S) cfgs (sv_rolls S) r w)"

definition path_match :: "string \<Rightarrow> string \<Rightarrow> bool" where
  "path_match pat p \<longleftrightarrow> (if last pat = CHR ''/'' then has_prefix p pat else pat = p)"

text \<open>The longest pattern that matches.\<close>

definition longer_match :: "string \<Rightarrow> string \<Rightarrow> string option \<Rightarrow> string option" where
  "longer_match p pat best =
     (if path_match pat p \<and> (case best of None \<Rightarrow> True | Some b \<Rightarrow> length pat > length b) then Some pat else best)"

definition mux_match :: "string \<Rightarrow> string option" where
  "mux_match p = fold (longer_match p) mux_patterns None"

definition cleanPath :: "string \<Rightarrow> string" where
  "cleanPath p =
     (if p = '''' then ''/''
      else (let p' = (if hd p = CHR ''/'' then p else CHR ''/'' # p); np = path_Clean p'
            in if last p' = CHR ''/'' \<and> np \<noteq> ''/'' then np @ ''/'' else np))"

definition ServeMux :: "'u server \<Rightarrow> handler" where
  "ServeMux S r w =
     (if rq_Method r \<noteq> ''CONNECT'' \<and> cleanPath (rq_Path r) \<noteq> rq_Path r then sv_redirect S (cleanPath (rq_Path r)) r w
      else if rq_Path r = ''/debug/pprof'' then sv_redirect S ''/debug/pprof/'' r w
      else (case mux_match (rq_Path r) of
              None \<Rightarrow> (http_error ''404 page not found'' 404 w, [])
            | Some pat \<Rightarrow> pattern_handler S pat r w))"

section \<open>The chain\<close>

definition NewServer :: "'u server \<Rightarrow> handler" where
  "NewServer S =
     RealIPHandler (ThrottlingHandler (en_hx (sv_env S)) (sv_throttled S)
       (PCIFilter (sv_pci S) (CORSHandler (ServeMux S))))"

section \<open>main.go\<close>

definition service_Name :: string where "service_Name = ''com.HailoOSS.hailo-2-api''"

definition main_endpoints :: "string list" where
  "main_endpoints = [''/rpc'', ''/v2/h2/call'', ''/v1/point/batch'', ''/'']"

definition main_stats :: stats_manager where
  "main_stats = Stats_Start (fold Register main_endpoints defaultManager)"

definition main_error_checks :: "(string \<times> string \<times> f32) list" where
  "main_error_checks =
     [(service_Name @ ''.http.root'', ''/'', f32_round (5 / 100)),
      (service_Name @ ''.http.v2-h2-call'', ''/v2/h2/call'', f32_round (25 / 100)),
      (service_Name @ ''.http.rpc'', ''/rpc'', f32_round (25 / 100)),
      (service_Name @ ''.http.v1-point-batch'', ''/v1/point/batch'', f32_round (10 / 100))]"

definition main_checks :: "pstats \<Rightarrow> identity \<Rightarrow> checker health_check list" where
  "main_checks get_endpoint srv =
     RegisterDropOffCheck get_endpoint srv (service_Name @ ''.http.root.request-rate'') ''/'' (f32_round (1 / 2))
       (fold (\<lambda>(i, ep, rate). RegisterErrorRateCheck get_endpoint srv i ep rate) main_error_checks [])"

text \<open>\<open>healthcheck.Init\<close>: the check of the availability zone.\<close>

definition hc_Init ::
    "identity \<Rightarrow> (int \<Rightarrow> string) \<Rightarrow> (status_monitor \<Rightarrow> check_result) health_check list
       \<Rightarrow> (status_monitor \<Rightarrow> check_result) health_check list" where
  "hc_Init srv fmt regs = regs @
     [\<lparr>hk_Id = ''com.HailoOSS.kernel.azstatus'', hk_ServiceName = id_Name srv, hk_ServiceVersion = id_Version srv,
       hk_Hostname = id_Hostname srv, hk_InstanceId = id_InstanceID srv, hk_Interval = minute,
       hk_Checker = AzStatusChecker fmt, hk_Priority = Pager\<rparr>]"

section \<open>Lemmas\<close>

definition best_of :: "string \<Rightarrow> string set \<Rightarrow> string option \<Rightarrow> bool" where
  "best_of p P best =
     (case best of
        None \<Rightarrow> \<forall>q\<in>P. \<not> path_match q p
      | Some pat \<Rightarrow> path_match pat p \<and> pat \<in> P \<and> (\<forall>q\<in>P. path_match q p \<longrightarrow> length q \<le> length pat))"

lemma best_of_step: "best_of p P best \<Longrightarrow> best_of p (insert x P) (longer_match p x best)"
  by (cases best) (auto simp: best_of_def longer_match_def)

lemma best_of_fold: "best_of p P best \<Longrightarrow> best_of p (set pats \<union> P) (fold (longer_match p) pats best)"
proof (induction pats arbitrary: P best)
  case (Cons x pats)
  from Cons.IH [OF best_of_step [OF Cons.prems]] show ?case by simp
qed simp

lemma mux_match_law: "best_of p (set mux_patterns) (mux_match p)"
  using best_of_fold [of p "{}" None mux_patterns] by (simp add: best_of_def mux_match_def)

lemma mux_match_calls: "mux_match ''/rpc'' = Some ''/rpc''" "mux_match ''/v2/h2/call'' = Some ''/v2/h2/call''"
  by code_simp+

lemma mux_match_rpc: "mux_match p = Some pat \<Longrightarrow> pat \<in> {''/rpc'', ''/v2/h2/call''} \<longleftrightarrow> p \<in> {''/rpc'', ''/v2/h2/call''}"
  using mux_match_law [of p] mux_match_calls by (auto simp: best_of_def path_match_def)

lemma realip_shape:
  "\<exists>a. RealIPHandler h r w = h (r\<lparr>rq_RemoteAddr := a\<rparr>) w"
proof -
  have "r = r\<lparr>rq_RemoteAddr := rq_RemoteAddr r\<rparr>" by simp
  then show ?thesis
    by (auto simp: RealIPHandler_def Let_def split: option.split intro: exI [of _ "rq_RemoteAddr r"])
qed

lemma SessionId_addr: "SessionId hx (Some (r\<lparr>rq_RemoteAddr := a\<rparr>)) = SessionId hx (Some r)"
  by (simp add: SessionId_def Let_def)

lemma PCI_addr: "PCI_IsSensitiveRequest f (r\<lparr>rq_RemoteAddr := a\<rparr>) = PCI_IsSensitiveRequest f r"
  by (simp add: PCI_IsSensitiveRequest_def)

text \<open>The whole server keeps the contract of a handler, put together from those of its parts.\<close>

lemma rpc_handler_grows: "rw_grows w (fst (rpc_handler E cfgs r w))"
proof -
  let ?R = "racing_router (en_mime E) (en_hx E) cfgs"
  obtain w1 e1 where p: "maybePinRequestToHostname ?R (newExtractor r, 0) w = (w1, e1)"
    by (cases "maybePinRequestToHostname ?R (newExtractor r, 0) w")
  then have "rw_grows w w1" using grows_maybePin [of w ?R "(newExtractor r, 0)"] by simp
  then show ?thesis
    using rpc_grows [of E "ri_request ?R e1" w1]
    by (auto simp: rpc_handler_def api_RpcHandler_def p split: prod.split sum.split intro: grows_trans)
qed

lemma pattern_handler_grows:
  assumes "\<And>p. http_handler (sv_pprof S p)"
  shows "rw_grows w (fst (pattern_handler S pat r w))"
proof -
  have "rw_grows w (fst (version_handler r w))" "rw_grows w (fst (favicon_handler r w))"
    "rw_grows w (Status_Monitor.Handler m w)" "rw_grows w (StatusHandler dial w)" for m dial
    by (auto simp: version_handler_def favicon_handler_def Status_Monitor.Handler_def StatusHandler_def Let_def
        split: prod.split intro!: grow_intros)
  then show ?thesis
    unfolding pattern_handler_def Let_def
    using http_handler.grows [OF assms] rpc_handler_grows endpoints.grows racer.grows by simp
qed

lemma NewServer_handler:
  assumes "\<And>p. http_handler (sv_pprof S p)" and "\<And>p. http_handler (sv_redirect S p)"
  shows "http_handler (NewServer S)"
proof -
  have "http_handler (ServeMux S)"
    by unfold_locales
      (auto simp: ServeMux_def pattern_handler_grows [OF assms(1)] http_handler.grows [OF assms(2)]
        split: option.split intro: grow_intros)
  then have "http_handler (RealIPHandler (ThrottlingHandler (en_hx (sv_env S)) (sv_throttled S)
      (PCIFilter (sv_pci S) (CORSHandler (ServeMux S)))))"
    by (intro realip.wraps throttling.wraps pci.wraps cors.wraps)
  then show ?thesis unfolding NewServer_def [abs_def] by (simp add: http_handler_def)
qed

text \<open>A call behind the chain has passed every part of it.\<close>

lemma chain_calls:
  assumes "c \<in> set (bus_calls (snd (NewServer S r w)))"
  shows "\<exists>a w'. snd (NewServer S r w) = snd (ServeMux S (r\<lparr>rq_RemoteAddr := a\<rparr>) w') \<and>
    \<not> anyThrottled (sv_throttled S) (buckets (en_hx (sv_env S)) r) \<and> \<not> PCI_IsSensitiveRequest (sv_pci S) r \<and>
    \<not> (rq_Method r = ''OPTIONS'' \<and> header_get (rq_Header r) ''Origin'' \<noteq> '''' \<and>
       isAllowedCORSOrigin (header_get (rq_Header r) ''Origin''))"
proof -
  obtain a where a: "NewServer S r w = ThrottlingHandler (en_hx (sv_env S)) (sv_throttled S)
      (PCIFilter (sv_pci S) (CORSHandler (ServeMux S))) (r\<lparr>rq_RemoteAddr := a\<rparr>) w"
    using realip_shape unfolding NewServer_def by blast
  have b: "buckets hx (r\<lparr>rq_RemoteAddr := a\<rparr>) = buckets hx r" for hx by (simp add: buckets_def SessionId_addr)
  have t: "\<not> anyThrottled (sv_throttled S) (buckets (en_hx (sv_env S)) r)"
    using assms by (auto simp: a ThrottlingHandler_def b split: if_splits)
  then have p: "\<not> PCI_IsSensitiveRequest (sv_pci S) r"
    using assms by (auto simp: a ThrottlingHandler_def b PCIFilter_def PCI_addr split: if_splits)
  from t p have e: "NewServer S r w = CORSHandler (ServeMux S) (r\<lparr>rq_RemoteAddr := a\<rparr>) w"
    by (simp add: a ThrottlingHandler_def b PCIFilter_def PCI_addr)
  from assms t p show ?thesis
    unfolding e CORSHandler_def by (intro exI [of _ a]) (auto simp: Let_def split: if_splits)
qed

text \<open>The session a remote call is made for, read from the request as it came: \<open>session_id\<close> in the query or,
  without one there, in the form.\<close>

definition request_session :: "(string \<Rightarrow> string option) \<Rightarrow> request \<Rightarrow> string" where
  "request_session mime r =
     (let s = values_get (url_query r) ''session_id'' in
      if s = '''' then
        form_get (rq_Form (fst (parse_form mime (complete_content_type mime
          (if rq_Body r = BadBody then r\<lparr>rq_Body := NoBody\<rparr> else r))))) ''session_id''
      else s)"

lemma parse_form_get:
  assumes "fst (post_form mime x) = fst (post_form mime' y)" and "rq_Form x = rq_Form y"
    and "vals (url_query x) k = vals (url_query y) k"
  shows "form_get (rq_Form (fst (parse_form mime x))) k = form_get (rq_Form (fst (parse_form mime' y))) k"
proof -
  obtain pf e b where x: "post_form mime x = (pf, e, b)" by (cases "post_form mime x") auto
  obtain pf' e' b' where y: "post_form mime' y = (pf', e', b')" by (cases "post_form mime' y") auto
  have wf: "wf_map (query_of q)" for q using query_of_wf by (simp add: wf_values_def)
  show ?thesis
    using assms
    by (cases "rq_Form y") (simp_all add: parse_form_def full_form_def x y form_get_def values_get_def vals_copy_values [OF wf])
qed

lemma request_session_addr: "request_session mime (r\<lparr>rq_RemoteAddr := a\<rparr>) = request_session mime r"
proof -
  let ?c = "complete_content_type mime"
  have c: "?c (q\<lparr>rq_RemoteAddr := a\<rparr>) = (?c q)\<lparr>rq_RemoteAddr := a\<rparr>" for q by (simp add: complete_content_type_def)
  have "fst (post_form mime ((?c q)\<lparr>rq_RemoteAddr := a\<rparr>)) = fst (post_form mime (?c q))" for q
    by (simp add: post_form_def parse_post_form_def cong: if_cong option.case_cong body.case_cong)
  then have same: "form_get (rq_Form (fst (parse_form mime (?c (q\<lparr>rq_RemoteAddr := a\<rparr>))))) k =
      form_get (rq_Form (fst (parse_form mime (?c q)))) k" for q k
    unfolding c by (rule parse_form_get) simp_all
  have "r\<lparr>rq_RemoteAddr := a, rq_Body := NoBody\<rparr> = r\<lparr>rq_Body := NoBody\<rparr>\<lparr>rq_RemoteAddr := a\<rparr>" by simp
  from same [of "r\<lparr>rq_Body := NoBody\<rparr>", folded this] same [of r] show ?thesis
    by (simp add: request_session_def Let_def)
qed

lemma passed_query: "vals (url_query (passed_request mime hx r)) ''session_id'' = vals (url_query r) ''session_id''"
proof -
  have wf: "wf_map (values_add ''city'' code (url_query r))" for code
    using wf_values_add [OF query_of_wf] by (simp add: wf_values_def)
  show ?thesis by (simp add: passed_request_def Let_def parse_values_encode [OF wf] split: option.split)
qed

text \<open>The guard of the kernel looks at that session.\<close>

lemma passed_session:
  assumes "httpToH2Request E (rpc_fix_type E (passed_request (en_mime E) hx r)) = Inr (Inr names, r')"
  shows "rpc_session r' = request_session (en_mime E) r"
proof -
  let ?p = "passed_request (en_mime E) hx r" and ?c = "complete_content_type (en_mime E)"
  let ?f = "rpc_fix_type E ?p"
  have f: "rq_Body ?f = rq_Body ?p" "rq_RawQuery ?f = rq_RawQuery ?p" "rq_Form ?f = rq_Form ?p"
    "rq_PostForm ?f = rq_PostForm ?p" "rq_Method ?f = rq_Method ?p"
    by (simp_all add: rpc_fix_type_def split: option.split)
  obtain service endpoint pl where names: "names = (service, endpoint, pl)" by (cases names) auto
  from httpToH2Request_names [OF assms [unfolded names]]
  have par: "rpc_params E ?f = Inr (Inr (service, endpoint, pl), r')" by simp
  then have q: "rq_RawQuery r' = rq_RawQuery ?p"
    by (auto simp: rpc_params_def Let_def f parse_form_frame split: if_splits body.splits prod.splits)
  have form: "form_get (rq_Form r') ''session_id'' = form_get (rq_Form (fst (parse_form (en_mime E) (?c
      (if rq_Body r = BadBody then r\<lparr>rq_Body := NoBody\<rparr> else r))))) ''session_id''"
  proof (cases "rq_Body r = BadBody")
    case False
    obtain pf x b e where u: "parse_form (en_mime E) (?c r) = ((?c r)\<lparr>rq_PostForm := Some pf, rq_Form := Some x, rq_Body := b\<rparr>, e)"
      using parse_form_update by blast
    have p: "rq_Form ?p = Some x" "rq_PostForm ?p = Some pf"
      using False by (simp_all add: passed_request_def u Let_def split: option.split)
    have "parse_form (en_mime E) ?f = (?f, False)" by (rule parse_form_done) (simp_all add: f p)
    with par have "rq_Form r' = rq_Form ?p"
      by (auto simp: rpc_params_def Let_def f split: if_splits body.splits prod.splits)
    then show ?thesis using False by (simp add: p u)
  next
    case True
    have p: "rq_Body ?p = NoBody" "rq_Form ?p = rq_Form r" "rq_PostForm ?p = rq_PostForm r" "rq_Method ?p = rq_Method r"
      using True by (simp_all add: passed_request_def Let_def split: option.split)
    with par have r': "r' = fst (parse_form (en_mime E) ?f)"
      by (auto simp: rpc_params_def Let_def f split: if_splits prod.splits)
    let ?y = "?c (r\<lparr>rq_Body := NoBody\<rparr>)"
    have "fst (post_form (en_mime E) ?f) = fst (post_form (en_mime E) ?y)"
      by (simp add: post_form_def parse_post_form_def f p cong: option.case_cong)
    then have "form_get (rq_Form (fst (parse_form (en_mime E) ?f))) ''session_id'' =
        form_get (rq_Form (fst (parse_form (en_mime E) ?y))) ''session_id''"
      by (rule parse_form_get) (simp_all add: f p passed_query)
    with True show ?thesis by (simp add: r')
  qed
  have "values_get (url_query r') ''session_id'' = values_get (url_query r) ''session_id''"
    by (simp add: values_get_def q passed_query)
  then show ?thesis by (simp add: rpc_session_def request_session_def form Let_def)
qed

lemma rpc_handler_calls:
  assumes "c \<in> set (bus_calls (snd (rpc_handler E cfgs r w)))"
  shows "rq_Method r = ''POST'' \<and> bus_calls (snd (rpc_handler E cfgs r w)) = [c] \<and>
    (has_prefix (bc_Service c) ''com.HailoOSS.kernel.'' \<longrightarrow> en_admin E (request_session (en_mime E) r))"
proof -
  let ?R = "racing_router (en_mime E) (en_hx E) cfgs"
  obtain w1 e1 where p: "maybePinRequestToHostname ?R (newExtractor r, 0) w = (w1, e1)"
    by (cases "maybePinRequestToHostname ?R (newExtractor r, 0) w")
  have r1: "ri_request ?R e1 = passed_request (en_mime E) (en_hx E) r"
    using maybePin_passes [OF p] by (simp add: racing_request passed_extractor_request)
  have m: "rq_Method (passed_request (en_mime E) (en_hx E) r) = rq_Method r"
    by (simp add: passed_request_def Let_def split: option.split)
  have e: "bus_calls (snd (rpc_handler E cfgs r w)) = bus_calls (snd (rpcHandler E (passed_request (en_mime E) (en_hx E) r) w1))"
    by (auto simp: rpc_handler_def api_RpcHandler_def p r1 split: prod.split sum.split)
  from rpc_calls [of E "passed_request (en_mime E) (en_hx E) r" w1] assms m show ?thesis
    unfolding e using passed_session [of E "en_hx E" r] by (auto simp: authorisedFor_def h2_call_def split: if_splits)
qed

lemma quiet_handlers:
  "bus_calls (snd (version_handler r w)) = []" "bus_calls (snd (favicon_handler r w)) = []"
  "bus_calls (snd (endpoints_handler E cps nh r w)) = []"
  by (simp_all add: version_handler_def favicon_handler_def endpoints_handler_def)

lemma mux_patterns_rest:
  assumes "pat \<in> set mux_patterns" and "\<not> has_prefix pat ''/debug/pprof/''"
    and "pat \<notin> {''/version'', ''/favicon.ico'', ''/rpc'', ''/v2/h2/call'', ''/v2/az/status'', ''/status'', ''/endpoints''}"
  shows "pat = ''/''"
proof -
  have "list_all (\<lambda>q. has_prefix q ''/debug/pprof/'')
      [''/debug/pprof/'', ''/debug/pprof/cmdline'', ''/debug/pprof/profile'', ''/debug/pprof/symbol'']" by code_simp
  with assms show ?thesis unfolding mux_patterns_def by auto
qed

lemma pattern_rpc:
  assumes "pat \<in> {''/rpc'', ''/v2/h2/call''}"
  shows "pattern_handler S pat r w = rpc_handler (sv_env S) (loadedConfig \<circ> sv_control S) r w"
proof -
  have "\<not> has_prefix ''/rpc'' ''/debug/pprof/''" "\<not> has_prefix ''/v2/h2/call'' ''/debug/pprof/''" by code_simp+
  with assms show ?thesis unfolding pattern_handler_def Let_def by auto
qed

lemma pattern_calls:
  assumes "\<And>p r w. bus_calls (snd (sv_pprof S p r w)) = []" and "bus_calls (snd (pattern_handler S pat r w)) \<noteq> []"
    and "pat \<in> set mux_patterns" and "pat \<notin> {''/rpc'', ''/v2/h2/call''}"
  shows "pat = ''/'' \<and> snd (pattern_handler S pat r w) =
    snd (racing_handler (sv_env S) (sv_mappings S) (sv_upstream S) (loadedConfig \<circ> sv_control S) (sv_rolls S) r w)"
proof -
  have n: "\<not> has_prefix pat ''/debug/pprof/'' \<and> pat \<notin> {''/version'', ''/favicon.ico'', ''/v2/az/status'', ''/status'', ''/endpoints''}"
    using assms(1,2,4) unfolding pattern_handler_def Let_def by (simp add: quiet_handlers split: if_splits)
  then show ?thesis
    using mux_patterns_rest [OF assms(3)] assms(4) unfolding pattern_handler_def Let_def by simp
qed

text \<open>The statistics a request leaves behind; every event has the duration \<open>d\<close>.\<close>

definition count_event :: "int \<Rightarrow> event \<Rightarrow> stats_manager \<Rightarrow> stats_manager" where
  "count_event d e s = (case e of StatsRecord p b \<Rightarrow> Record p b d s | _ \<Rightarrow> s)"

definition count_events :: "int \<Rightarrow> event list \<Rightarrow> stats_manager \<Rightarrow> stats_manager" where
  "count_events d evs s = fold (count_event d) evs s"

lemma count_silent: "(\<And>p. records p evs = []) \<Longrightarrow> count_events d evs s = s"
proof (induction evs)
  case (Cons e evs)
  have "e \<noteq> StatsRecord q b" for q b using Cons.prems [of q] by auto
  moreover have "records p evs = []" for p using Cons.prems [of p] by (cases e) (auto split: if_splits)
  moreover from calculation(1) have "count_event d e s = s" by (cases e) (auto simp: count_event_def)
  ultimately show ?case using Cons.IH by (simp add: count_events_def)
qed (simp add: count_events_def)

lemma count_outcome:
  "count_events d (outcome_events az b ok p) s =
     stats_record p ok d (if p \<noteq> ''/'' then stats_record ''/'' ok d s else s)"
  by (simp add: outcome_events_def count_events_def count_event_def Let_def)

lemma count_append: "count_events d (evs @ evs') s = count_events d evs' (count_events d evs s)"
  by (simp add: count_events_def)

lemma main_stats_endpoints:
  "map_of (st_endpoints main_stats) p =
     (if p \<in> set main_endpoints then Some \<lparr>ep_name = p, ep_mean = defaultMean, ep_upper95 = defaultUpper95\<rparr> else None)"
  by (simp add: main_stats_def main_endpoints_def defaultManager_def newStatsManager_def stats_register_def Stats_Start_def Let_def)

lemma record_endpoints [simp]: "st_endpoints (stats_record p b d s) = st_endpoints s"
  by (simp add: stats_record_def split: option.split)

section \<open>Properties\<close>

text \<open>C1: What it takes for a request to reach a service. A call is made at most once, and then the session of
  the request was not throttled, the request was not sensitive, and not a CORS preflight of an allowed
  origin; on the two paths of remote calls it was posted, and a service of the kernel was called only if
  the session that this request names in its query, or in its form, is an administrator's; on any other path it was one for the default handler, and went to the endpoint of the
  path.\<close>

theorem server_calls_guarded:
  assumes "\<And>p r w. bus_calls (snd (sv_pprof S p r w)) = []" and "\<And>p r w. bus_calls (snd (sv_redirect S p r w)) = []"
    and "c \<in> set (bus_calls (snd (NewServer S r w)))"
  shows "bus_calls (snd (NewServer S r w)) = [c] \<and>
    (let id = SessionId (en_hx (sv_env S)) (Some r) in id = '''' \<or> ''sessId:'' @ id \<notin> set (sv_throttled S)) \<and>
    \<not> PCI_IsSensitiveRequest (sv_pci S) r \<and>
    \<not> (rq_Method r = ''OPTIONS'' \<and> header_get (rq_Header r) ''Origin'' \<noteq> '''' \<and>
       isAllowedCORSOrigin (header_get (rq_Header r) ''Origin'')) \<and>
    (if rq_Path r \<in> {''/rpc'', ''/v2/h2/call''}
     then rq_Method r = ''POST'' \<and> (has_prefix (bc_Service c) ''com.HailoOSS.kernel.'' \<longrightarrow> 
       en_admin (sv_env S) (request_session (en_mime (sv_env S)) r))
     else mux_match (rq_Path r) = Some ''/'' \<and> (bc_Service c, bc_Endpoint c) = pathToEndpoint (rq_Path r))"
proof -
  let ?evs = "snd (NewServer S r w)" and ?E = "sv_env S" and ?cfgs = "loadedConfig \<circ> sv_control S"
  obtain a w' where m: "?evs = snd (ServeMux S (r\<lparr>rq_RemoteAddr := a\<rparr>) w')"
    and guards: "\<not> anyThrottled (sv_throttled S) (buckets (en_hx ?E) r)" "\<not> PCI_IsSensitiveRequest (sv_pci S) r"
      "\<not> (rq_Method r = ''OPTIONS'' \<and> header_get (rq_Header r) ''Origin'' \<noteq> '''' \<and>
         isAllowedCORSOrigin (header_get (rq_Header r) ''Origin''))"
    using chain_calls [OF assms(3)] by blast
  let ?r = "r\<lparr>rq_RemoteAddr := a\<rparr>"
  from assms(3) obtain pat where pat: "mux_match (rq_Path r) = Some pat" and ev: "?evs = snd (pattern_handler S pat ?r w')"
    unfolding m using assms(2) by (auto simp: ServeMux_def split: if_splits option.splits)
  have id: "let id = SessionId (en_hx ?E) (Some r) in id = '''' \<or> ''sessId:'' @ id \<notin> set (sv_throttled S)"
    using guards(1) by (auto simp: anyThrottled_def buckets_def Let_def)
  show ?thesis
  proof (cases "pat \<in> {''/rpc'', ''/v2/h2/call''}")
    case True
    then have "?evs = snd (rpc_handler ?E ?cfgs ?r w')" unfolding ev by (simp add: pattern_rpc)
    with rpc_handler_calls [of c ?E ?cfgs ?r w'] assms(3) True mux_match_rpc [OF pat] id guards(2,3) show ?thesis
      by (simp add: request_session_addr)
  next
    case False
    have "bus_calls (snd (pattern_handler S pat ?r w')) \<noteq> []" using assms(3) by (auto simp: ev)
    moreover have "pat \<in> set mux_patterns" using mux_match_law [of "rq_Path r"] by (simp add: best_of_def pat)
    ultimately have "pat = ''/'' \<and> ?evs = snd (racing_handler ?E (sv_mappings S) (sv_upstream S) ?cfgs (sv_rolls S) ?r w')"
      unfolding ev using pattern_calls [OF assms(1) _ _ False, of ?r w'] by blast
    moreover obtain route e1
      where route: "ri_Route (racing_router (en_mime ?E) (en_hx ?E) ?cfgs) (sv_rolls S) (newExtractor ?r, 0) = (route, e1)"
      by (meson surj_pair)
    note racing.call_facts [OF route refl, of ?E "sv_mappings S" "sv_upstream S" w']
    ultimately have "length (bus_calls ?evs) \<le> 1" "(bc_Service c, bc_Endpoint c) = pathToEndpoint (rq_Path r)" "pat = ''/''"
      using assms(3) by (simp_all add: racing_handler_def newExtractor_def racing_request)
    moreover from this(1) assms(3) have "bus_calls ?evs = [c]" by (cases "bus_calls ?evs") auto
    ultimately show ?thesis using False mux_match_rpc [OF pat] pat id guards(2,3) by simp
  qed
qed

definition test_server :: "string server" where
  "test_server = \<lparr>sv_env = rpc_env, sv_mappings = [], sv_upstream = test_upstream [],
     sv_control = (\<lambda>_. \<lparr>cp_loaded = Some test_config, cp_fs = \<lparr>fs_target = None, fs_temps = []\<rparr>\<rparr>), sv_no_hobs = False,
     sv_monitor = test_monitor ''a'', sv_dial = (\<lambda>_. None), sv_throttled = [''sessId:full''], sv_pci = test_pci,
     sv_rolls = (\<lambda>_. 0), sv_pprof = (\<lambda>_ _ w. (w, [])), sv_redirect = (\<lambda>_ _ w. (w, []))\<rparr>"

theorem server_calls_guarded_witness:
  "let r = rpc_request ''service=com.HailoOSS.kernel.x&endpoint=y&session_id=root'' in
    map bc_Service (bus_calls (snd (NewServer test_server r new_rwriter))) = [''com.HailoOSS.kernel.x''] \<and>
    request_session (en_mime rpc_env) r = ''root'' \<and> en_admin rpc_env (request_session (en_mime rpc_env) r)"
proof -
  let ?r = "rpc_request ''service=com.HailoOSS.kernel.x&endpoint=y&session_id=root''"
  have map: "map bc_Service (bus_calls (snd (NewServer test_server ?r new_rwriter))) = [''com.HailoOSS.kernel.x'']"
    and root: "request_session (en_mime rpc_env) ?r = ''root''" by code_simp+
  then obtain c where c: "c \<in> set (bus_calls (snd (NewServer test_server ?r new_rwriter)))" "bc_Service c = ''com.HailoOSS.kernel.x''"
    by (auto simp: map_eq_Cons_conv)
  have s: "bus_calls (snd (sv_pprof test_server p r w)) = []" "bus_calls (snd (sv_redirect test_server p r w)) = []"
    "sv_env test_server = rpc_env" "rq_Path ?r = ''/rpc''" for p r w
    by (simp_all add: test_server_def rpc_request_def)
  have "has_prefix ''com.HailoOSS.kernel.x'' ''com.HailoOSS.kernel.''" by code_simp
  with server_calls_guarded [of test_server, OF s(1,2) c(1)] have "en_admin rpc_env (request_session (en_mime rpc_env) ?r)"
    by (simp add: s(3,4) c(2))
  with map root show ?thesis by (simp add: Let_def)
qed

text \<open>A path is served by the longest pattern that covers it, and every path with a leading slash is
  served.\<close>

theorem mux_longest:
  "(mux_match p = Some pat \<longleftrightarrow> pat \<in> set mux_patterns \<and> path_match pat p \<and>
      (\<forall>q\<in>set mux_patterns. path_match q p \<longrightarrow> length q < length pat \<or> q = pat)) \<and>
   (mux_match (CHR ''/'' # s) \<noteq> None)"
proof
  have same: "q = pat" if "path_match q p" "path_match pat p" "length q = length pat"
    "q \<in> set mux_patterns" "pat \<in> set mux_patterns" for q pat
    using that by (auto simp: path_match_def has_prefix_def split: if_splits)
  show "mux_match p = Some pat \<longleftrightarrow> pat \<in> set mux_patterns \<and> path_match pat p \<and>
      (\<forall>q\<in>set mux_patterns. path_match q p \<longrightarrow> length q < length pat \<or> q = pat)"
    using mux_match_law [of p] same unfolding best_of_def
    by (cases "mux_match p") (auto simp: le_less, (metis less_irrefl less_asym)+)
  have "path_match ''/'' (CHR ''/'' # s)" "''/'' \<in> set mux_patterns"
    by (simp_all add: path_match_def has_prefix_def mux_patterns_def)
  then show "mux_match (CHR ''/'' # s) \<noteq> None"
    using mux_match_law [of "CHR ''/'' # s"] by (auto simp: best_of_def split: option.splits)
qed

theorem mux_longest_witness:
  "mux_match ''/debug/pprof/heap'' = Some ''/debug/pprof/''"
proof -
  have "''/debug/pprof/'' \<in> set mux_patterns \<and> path_match ''/debug/pprof/'' ''/debug/pprof/heap'' \<and>
    (\<forall>q\<in>set mux_patterns. path_match q ''/debug/pprof/heap'' \<longrightarrow> length q < length ''/debug/pprof/'' \<or> q = ''/debug/pprof/'')"
    by code_simp
  with mux_longest [of "''/debug/pprof/heap''" "''/debug/pprof/''"] show ?thesis by blast
qed

text \<open>The health checks see the remote calls. Every request on one of the two paths of remote calls, also
  one that panics, leaves exactly two records with the statistics platform, one for \<open>/\<close> and one for the
  path, with the same outcome: both are endpoints that \<open>main\<close> registers.\<close>

theorem remote_calls_counted:
  assumes "rq_Path r \<in> {''/rpc'', ''/v2/h2/call''}"
  shows "\<exists>failed root ep. st_calls (count_events d (snd (rpc_handler E cfgs r w)) main_stats) =
      st_calls main_stats @ [RecordCall root failed d, RecordCall ep failed d] \<and>
    ep_name root = ''/'' \<and> ep_name ep = rq_Path r \<and> RegisterEndpoint root \<in> set (st_calls main_stats) \<and>
    RegisterEndpoint ep \<in> set (st_calls main_stats)"
proof -
  let ?R = "racing_router (en_mime E) (en_hx E) cfgs"
  obtain w1 e1 where p: "maybePinRequestToHostname ?R (newExtractor r, 0) w = (w1, e1)"
    by (cases "maybePinRequestToHostname ?R (newExtractor r, 0) w")
  have path: "rq_Path (ri_request ?R e1) = rq_Path r"
    using racing.maybePin_keeps [of "en_mime E" "en_hx E" cfgs "(newExtractor r, 0)" w] p
    by (simp add: call_data_def racing_request newExtractor_def)
  obtain res evs ok where run: "rpc_run E (ri_request ?R e1) w1 = (res, evs, ok)"
    by (cases "rpc_run E (ri_request ?R e1) w1") auto
  have sil: "count_events d evs s = s" for s by (rule count_silent) (rule rpc_run_records [OF run])
  have ab: "count_events d [Aborted x] s = s" for x s by (simp add: count_events_def count_event_def)
  have "count_events d (snd (rpc_handler E cfgs r w)) main_stats =
      stats_record (rq_Path r) ok d (stats_record ''/'' ok d main_stats)"
    using assms by (auto simp: rpc_handler_def api_RpcHandler_def p rpcHandler_def run path count_append sil ab count_outcome
        split: sum.split)
  moreover have "RegisterEndpoint \<lparr>ep_name = q, ep_mean = defaultMean, ep_upper95 = defaultUpper95\<rparr> \<in> set (st_calls main_stats)"
    if "q \<in> set main_endpoints" for q
    using that by (auto simp: main_stats_def main_endpoints_def defaultManager_def newStatsManager_def stats_register_def Stats_Start_def Let_def)
  moreover have "''/'' \<in> set main_endpoints" "rq_Path r \<in> set main_endpoints"
    using assms by (auto simp: main_endpoints_def)
  moreover have "st_calls (stats_record q ok d s) = st_calls s @
      [RecordCall \<lparr>ep_name = q, ep_mean = defaultMean, ep_upper95 = defaultUpper95\<rparr> (\<not> ok) d]"
    if "q \<in> set main_endpoints" "st_endpoints s = st_endpoints main_stats" for q s
    using that by (simp add: stats_record_def main_stats_endpoints)
  ultimately show ?thesis by auto
qed

theorem remote_calls_counted_witness:
  "\<exists>failed root ep. st_calls (count_events 3 (snd (rpc_handler rpc_env (\<lambda>_. test_config) (rpc_request '''') new_rwriter)) main_stats) =
      st_calls main_stats @ [RecordCall root failed 3, RecordCall ep failed 3] \<and> ep_name ep = ''/rpc''"
proof -
  have "rq_Path (rpc_request '''') = ''/rpc''" by (simp add: rpc_request_def)
  with remote_calls_counted [of "rpc_request ''''" 3 rpc_env "\<lambda>_. test_config" new_rwriter] show ?thesis by auto
qed

text \<open>C21: The load balancer sees the zone. A request for \<open>/v2/az/status\<close> that the middleware lets through is
  answered with 200 while the instance is in service and with 500 while the monitor has taken it out, whatever
  its origin and its headers, and whatever configuration is loaded.\<close>

theorem status_through_chain:
  assumes "rq_Method r = ''GET''" and "rq_Path r = ''/v2/az/status''" and "rw_Status w = None"
    and "\<not> anyThrottled (sv_throttled S) (buckets (en_hx (sv_env S)) r)" and "\<not> PCI_IsSensitiveRequest (sv_pci S) r"
  shows "rw_Status (fst (NewServer S r w)) = Some (if sm_IsHealthy (sv_monitor S) then 200 else 500) \<and>
    snd (NewServer S r w) = []"
proof -
  obtain a where a: "NewServer S r w = ThrottlingHandler (en_hx (sv_env S)) (sv_throttled S)
      (PCIFilter (sv_pci S) (CORSHandler (ServeMux S))) (r\<lparr>rq_RemoteAddr := a\<rparr>) w"
    using realip_shape unfolding NewServer_def by blast
  let ?r = "r\<lparr>rq_RemoteAddr := a\<rparr>"
  have b: "buckets hx ?r = buckets hx r" for hx by (simp add: buckets_def SessionId_addr)
  have e: "NewServer S r w = CORSHandler (ServeMux S) ?r w"
    using assms(4,5) by (simp add: a ThrottlingHandler_def b PCIFilter_def PCI_addr)
  have k: "cleanPath ''/v2/az/status'' = ''/v2/az/status''" "mux_match ''/v2/az/status'' = Some ''/v2/az/status''"
    "\<not> has_prefix ''/v2/az/status'' ''/debug/pprof/''" by code_simp+
  have m: "ServeMux S ?r x = (Status_Monitor.Handler (sv_monitor S) x, [])" for x
    using assms(2) k by (simp add: ServeMux_def pattern_handler_def Let_def)
  have s: "rw_Status (Status_Monitor.Handler mo x) = Some (if sm_IsHealthy mo then 200 else 500)" if "rw_Status x = None" for mo x
    using that by (simp add: Status_Monitor.Handler_def JsonResponse_String_def Let_def)
  show ?thesis
    using assms(1,3) s by (auto simp: e CORSHandler_def m Let_def)
qed

theorem status_through_chain_witness:
  "rw_Status (fst (NewServer (test_server\<lparr>sv_monitor := (test_monitor ''a'')\<lparr>sm_IsHealthy := False\<rparr>\<rparr>)
     (plain_request\<lparr>rq_Path := ''/v2/az/status''\<rparr>) new_rwriter)) = Some 500"
proof -
  let ?S = "test_server\<lparr>sv_monitor := (test_monitor ''a'')\<lparr>sm_IsHealthy := False\<rparr>\<rparr>"
  let ?r = "plain_request\<lparr>rq_Path := ''/v2/az/status''\<rparr>"
  have "rq_Method ?r = ''GET''" "rw_Status new_rwriter = None"
    "\<not> anyThrottled (sv_throttled ?S) (buckets (en_hx (sv_env ?S)) ?r)" "\<not> PCI_IsSensitiveRequest (sv_pci ?S) ?r"
    by code_simp+
  from status_through_chain [of ?r new_rwriter ?S, OF this(1) _ this(2-4)] show ?thesis by simp
qed

end
