(* ===== verification/Throttle_Progress.thy ===== *)
theory Throttle_Progress
  imports Throttling
begin

text \<open>
  Progress of the two goroutines of \<open>src/handler/throttling.go\<close>. A turn is the next atomic access of a
  goroutine that is not waiting in its \<open>select\<close>; everybody else may do whatever they like in between.
  The ingester's inner loop goes round again only when the synchroniser has swapped the buffer under it.
\<close>

section \<open>Turns\<close>

definition ing_turn :: "throttler \<Rightarrow> throttler" where
  "ing_turn s =
     (case th_ing s of
        IIdle \<Rightarrow> s
      | ILoad k \<Rightarrow> ing_load s
      | IAdd k a \<Rightarrow> ing_add s
      | ICopy k p \<Rightarrow> ing_cas s
      | IReload k \<Rightarrow> ing_reload s)"

definition sync_turn :: "((string \<times> 64 word) list \<Rightarrow> string list option) \<Rightarrow> throttler \<Rightarrow> throttler" where
  "sync_turn service s =
     (case th_sync s of
        SIdle \<Rightarrow> s
      | SReport m acc \<Rightarrow> (if m = [] then sync_call service s else sync_read s)
      | SStore tb \<Rightarrow> sync_store s)"

text \<open>A run while the ingester works on one name, with the number of its turns.\<close>

inductive ing_run :: "nat \<Rightarrow> throttler \<Rightarrow> throttler \<Rightarrow> bool" where
  refl: "ing_run 0 s s"
| turn: "ing_run n s s' \<Longrightarrow> th_ing s' \<noteq> IIdle \<Longrightarrow> ing_run (Suc n) s (ing_turn s')"
| arrive: "ing_run n s s' \<Longrightarrow> ing_run n s (serve_count hx r s')"
| swap: "ing_run n s s' \<Longrightarrow> ing_run n s (sync_swap reporting s')"
| sync: "ing_run n s s' \<Longrightarrow> ing_run n s (sync_turn service s')"

section \<open>Lemmas\<close>

text \<open>The turns left if the buffer is not swapped any more.\<close>

definition ing_left :: "throttler \<Rightarrow> nat" where
  "ing_left s =
     (case th_ing s of
        IIdle \<Rightarrow> 0
      | ILoad k \<Rightarrow> 2
      | IAdd k a \<Rightarrow> 1
      | ICopy k p \<Rightarrow> (if p = th_buf s then 1 else 3)
      | IReload k \<Rightarrow> 2)"

lemma ing_left_turn: "th_ing s \<noteq> IIdle \<Longrightarrow> Suc (ing_left (ing_turn s)) = ing_left s"
  by (auto simp: ing_left_def ing_turn_def ing_load_def ing_add_def ing_cas_def ing_reload_def Let_def
      split: ingester.split option.split)

lemma ing_left_swap: "ing_left (sync_swap b s) + 2 * tg_swaps s \<le> ing_left s + 2 * tg_swaps (sync_swap b s)"
  by (auto simp: ing_left_def sync_swap_def split: ingester.split synchroniser.split)

lemma ing_turn_swaps: "tg_swaps (ing_turn s) = tg_swaps s"
  by (simp add: ing_turn_def ing_load_def ing_add_def ing_cas_def ing_reload_def Let_def split: ingester.split option.split)

lemma serve_left: "ing_left (serve_count hx r s) = ing_left s" "tg_swaps (serve_count hx r s) = tg_swaps s"
  by (simp_all add: ing_left_def serve_count_def cong: ingester.case_cong)

lemma sync_turn_frame:
  "th_ing (sync_turn service s) = th_ing s" "th_buf (sync_turn service s) = th_buf s"
  "tg_swaps (sync_turn service s) = tg_swaps s"
  by (auto simp: sync_turn_def sync_call_def sync_read_def sync_store_def split: synchroniser.split list.split)

lemma sync_turn_left: "ing_left (sync_turn service s) = ing_left s"
  by (simp add: ing_left_def sync_turn_frame cong: ingester.case_cong)

lemma ing_left_idle: "ing_left s = 0 \<longleftrightarrow> th_ing s = IIdle"
  by (simp add: ing_left_def split: ingester.split)

lemma ing_run_left: "ing_run n s s' \<Longrightarrow> n + ing_left s' + 2 * tg_swaps s \<le> ing_left s + 2 * tg_swaps s'"
proof (induction rule: ing_run.induct)
  case (turn n s s')
  then show ?case using ing_left_turn [OF turn.hyps(2)] by (simp add: ing_turn_swaps)
next
  case (swap n s s' b)
  then show ?case using ing_left_swap [of b s'] by simp
qed (simp_all add: serve_left sync_turn_left sync_turn_frame)

text \<open>The synchroniser: a read for every bucket, the call and the store.\<close>

definition sync_left :: "throttler \<Rightarrow> nat" where
  "sync_left s = (case th_sync s of SIdle \<Rightarrow> 0 | SReport m acc \<Rightarrow> length m + 2 | SStore tb \<Rightarrow> 1)"

lemma sync_left_turn: "th_sync s \<noteq> SIdle \<Longrightarrow> Suc (sync_left (sync_turn service s)) = sync_left s"
  by (auto simp: sync_left_def sync_turn_def sync_call_def sync_read_def sync_store_def
      split: synchroniser.split list.split option.split)

lemma sync_left_idle: "sync_left s = 0 \<longleftrightarrow> th_sync s = SIdle"
  by (simp add: sync_left_def split: synchroniser.split)

lemma sync_turn_step: "throttle_step ar s (sync_turn service s) \<or> sync_turn service s = s"
  by (auto simp: sync_turn_def intro: throttle_step.intros split: synchroniser.split)

lemma ing_turn_step: "throttle_step ar s (ing_turn s) \<or> ing_turn s = s"
  by (auto simp: ing_turn_def intro: throttle_step.intros split: ingester.split)

section \<open>Properties\<close>

text \<open>C17: The loop that copies the map and tries to publish the copy comes to an end. Whatever requests come
  and whatever the synchroniser does, the ingester has counted the name it took from the channel after
  at most two turns, and two more for every swap of the buffer in the meantime; and none of its turns
  before that is without effect.\<close>

theorem ingester_retries:
  assumes "ing_run n s s'" and "th_ing s = ILoad k"
  shows "n \<le> 2 + 2 * (tg_swaps s' - tg_swaps s) \<and>
    (n = 2 + 2 * (tg_swaps s' - tg_swaps s) \<longrightarrow> th_ing s' = IIdle) \<and>
    (th_ing s' \<noteq> IIdle \<longrightarrow> ing_turn s' \<noteq> s')"
proof -
  have l: "n + ing_left s' + 2 * tg_swaps s \<le> 2 + 2 * tg_swaps s'"
    using ing_run_left [OF assms(1)] assms(2) by (simp add: ing_left_def)
  have "tg_swaps s \<le> tg_swaps s'"
    using assms(1)
    by (induction rule: ing_run.induct) (auto simp: ing_turn_swaps serve_left sync_turn_frame sync_swap_def split: synchroniser.split)
  with l have "n + ing_left s' \<le> 2 + 2 * (tg_swaps s' - tg_swaps s)" by arith
  moreover have "ing_turn s' \<noteq> s'" if "th_ing s' \<noteq> IIdle" using ing_left_turn [OF that] by auto
  ultimately show ?thesis using ing_left_idle [of s'] by auto
qed

definition contended :: throttler where
  "contended = ing_turn (ing_turn (ing_turn (sync_swap False (ing_turn (ing_receive (session_seen NewThrottlingHandler))))))"

theorem ingester_retries_witness:
  "ing_run 4 (ing_receive (session_seen NewThrottlingHandler)) contended \<and> th_ing contended = IIdle \<and>
   unat (th_heap contended 1) = 1"
proof -
  let ?s = "ing_receive (session_seen NewThrottlingHandler)"
  have b: "th_ing ?s \<noteq> IIdle" "th_ing (sync_swap False (ing_turn ?s)) \<noteq> IIdle"
    "th_ing (ing_turn (sync_swap False (ing_turn ?s))) \<noteq> IIdle"
    "th_ing (ing_turn (ing_turn (sync_swap False (ing_turn ?s)))) \<noteq> IIdle"
    and v: "th_ing ?s = ILoad ''sessId:abc''" "tg_swaps contended - tg_swaps ?s = 1" "unat (th_heap contended 1) = 1"
    unfolding contended_def session_seen_def by code_simp+
  have "ing_run (Suc (Suc (Suc (Suc 0)))) ?s contended"
    unfolding contended_def by (intro ing_run.turn ing_run.swap ing_run.refl b)
  then have r: "ing_run 4 ?s contended" by (simp add: numeral_eq_Suc)
  from ingester_retries [OF this v(1)] v(2,3) r show ?thesis by simp
qed

end
