(* ===== verification/Whole_System.thy ===== *)
theory Whole_System
  imports Server Throttle_Progress
begin

text \<open>
  The running process: the requests, and the goroutines that \<open>NewServer\<close> of \<open>src/handler/server.go\<close> starts,
  over one state. \<open>Config_Reloader\<close> is the loop of \<open>controlplane.New\<close>, \<open>PCI_Listener\<close> the loop of
  \<open>pcifilter.go\<close>, \<open>Ingester\<close> and \<open>Synchroniser\<close> are those of \<open>throttling.go\<close>, \<open>AZ_Monitor\<close> is the loop of
  \<open>statusmonitor/types.go\<close>; the loop of \<open>src/hostmapping/hostmapping.go\<close> never ends. Every goroutine is
  tracked by a tomb, and \<open>Kill\<close> kills the three tombs and awaits them.

  Requests are handled beside each other and beside the goroutines. A request in flight is admitted, which
  counts its session and reads the throttled ones, passes the filter for card data, loads the pointer to the
  configuration any number of times, and finishes; everything else may happen in between. What its
  handlers do is computed when it finishes, from all it has read: the configuration of the \<open>n\<close>-th load is
  the one found then. That a load finds a whole configuration, and a reload installs one, although both go
  field by field, is what \<open>Config_Store\<close> shows; here both are one step.

  A step is one of these, one turn of a goroutine (an atomic access for the two of \<open>throttling.go\<close>, one
  notification or one poll for the others), the return of a goroutine whose tomb is dying from its
  \<open>select\<close>, or the next operation of \<open>Kill\<close>. A panic of a goroutine ends the process.

  The tombs (\<open>gopkg.in/tomb.v2\<close>), ZooKeeper and the decoders are arguments, collected in a record
  \<open>platform\<close>; \<open>tomb_ok\<close> is the documented behaviour of a tomb. What varies from request to request
  (settings, replies of back ends) is part of the step.
\<close>

section \<open>Tombs\<close>

record 't tomb_lib =
  tb_new :: 't
  tb_Go :: "'t \<Rightarrow> 't"
  tb_Kill :: "'t \<Rightarrow> 't"
  tb_finish :: "'t \<Rightarrow> 't"
  tb_dying :: "'t \<Rightarrow> bool"
  tb_dead :: "'t \<Rightarrow> bool"

text \<open>A tomb tracks the goroutines started with \<open>Go\<close>; it is dying once it is killed or the last of them
  returns (\<open>finish\<close>, without an error), and dead, so that \<open>Wait\<close> returns, when the last one returns.\<close>

definition tomb_ok :: "'t tomb_lib \<Rightarrow> ('t \<Rightarrow> nat) \<Rightarrow> bool" where
  "tomb_ok T alive \<longleftrightarrow>
     alive (tb_new T) = 0 \<and> \<not> tb_dying T (tb_new T) \<and> \<not> tb_dead T (tb_new T) \<and>
     (\<forall>t. alive (tb_Go T t) = Suc (alive t) \<and> tb_dying T (tb_Go T t) = tb_dying T t \<and> tb_dead T (tb_Go T t) = tb_dead T t) \<and>
     (\<forall>t. alive (tb_Kill T t) = alive t \<and> tb_dying T (tb_Kill T t) \<and> tb_dead T (tb_Kill T t) = tb_dead T t) \<and>
     (\<forall>t. 0 < alive t \<longrightarrow> alive (tb_finish T t) = alive t - 1 \<and>
        tb_dying T (tb_finish T t) = (tb_dying T t \<or> alive t = 1) \<and> tb_dead T (tb_finish T t) = (tb_dead T t \<or> alive t = 1))"

record counting_tomb =
  ct_alive :: nat
  ct_dying :: bool
  ct_dead :: bool

definition counting_tombs :: "counting_tomb tomb_lib" where
  "counting_tombs =
     \<lparr>tb_new = \<lparr>ct_alive = 0, ct_dying = False, ct_dead = False\<rparr>,
      tb_Go = (\<lambda>t. t\<lparr>ct_alive := Suc (ct_alive t)\<rparr>), tb_Kill = (\<lambda>t. t\<lparr>ct_dying := True\<rparr>),
      tb_finish = (\<lambda>t. t\<lparr>ct_alive := ct_alive t - 1, ct_dying := ct_dying t \<or> ct_alive t = 1,
                        ct_dead := ct_dead t \<or> ct_alive t = 1\<rparr>),
      tb_dying = ct_dying, tb_dead = ct_dead\<rparr>"

lemma counting_tombs_ok: "tomb_ok counting_tombs ct_alive"
  by (simp add: tomb_ok_def counting_tombs_def)

section \<open>The state of the process\<close>

datatype tomb_id = Server_Tomb | Control_Tomb | Monitor_Tomb

datatype goroutine = Config_Reloader | PCI_Listener | Ingester | Synchroniser | AZ_Monitor

fun tomb_of :: "goroutine \<Rightarrow> tomb_id" where
  "tomb_of Config_Reloader = Control_Tomb"
| "tomb_of AZ_Monitor = Monitor_Tomb"
| "tomb_of _ = Server_Tomb"

datatype kill_op = Kill_Tomb tomb_id | Wait_Tomb tomb_id

record ('u, 'z, 't) platform =
  sp_zk :: "'z zk_client"
  sp_tombs :: "'t tomb_lib"
  sp_unmarshal :: "string \<Rightarrow> parsed_config option"
  sp_hash :: hasher
  sp_parse_url :: "string \<Rightarrow> 'u option"

text \<open>A request in flight: what has been read for it so far, in \<open>fl_seen\<close> the loads of the configuration.\<close>

record 'u flight =
  fl_request :: request
  fl_server :: "'u server"
  fl_filtered :: bool
  fl_seen :: "control_plane list"

record ('u, 'z, 't) system =
  sy_control :: control_plane
  sy_pci :: "'u pci_filter"
  sy_throttler :: throttler
  sy_monitor :: status_monitor
  sy_zk :: 'z
  sy_mappings :: mappings
  sy_stats :: stats_manager
  sy_running :: "goroutine list"
  sy_tombs :: "tomb_id \<Rightarrow> 't"
  sy_kill :: "kill_op list option"
  sy_flights :: "'u flight list"
  sg_served :: "(request \<times> event list) list"

text \<open>What \<open>NewServer\<close> finds: the first load of the configuration (over here before the goroutines run; that
  the reloading one has started by then, and what comes of it, is in \<open>Load_Race\<close>), the settings of the PCI filter, the zone
  (\<open>None\<close> when it cannot be told), the host mappings, the file system, the clock and ZooKeeper.\<close>

record 'z boot =
  bo_attempt :: attempt
  bo_pci_url :: string
  bo_pci_paths :: "string list"
  bo_az :: "string option"
  bo_mappings :: mappings
  bo_fs :: file_system
  bo_now :: int
  bo_zk :: 'z

definition started :: "('u, 'z, 't) platform \<Rightarrow> goroutine list \<Rightarrow> tomb_id \<Rightarrow> 't" where
  "started P gs t = fold (\<lambda>g. if tomb_of g = t then tb_Go (sp_tombs P) else id) gs (tb_new (sp_tombs P))"

definition process_start :: "('u, 'z, 't) platform \<Rightarrow> 'z boot \<Rightarrow> panic + ('u, 'z, 't) system" where
  "process_start P b =
     (case tryLoad (sp_unmarshal P) (sp_hash P) (bo_attempt b) (new_cp (bo_fs b)) of
        Inl e \<Rightarrow> Inl e
      | Inr (err, cp) \<Rightarrow>
        (case NewPCIFilter (sp_parse_url P) (bo_pci_url b) (bo_pci_paths b) of
           Inl e \<Rightarrow> Inl e
         | Inr pci \<Rightarrow>
           (case NewStatusMonitor (bo_az b) (bo_now b) of (m, monitored) \<Rightarrow>
              (let gs = [Config_Reloader] @ (if monitored then [AZ_Monitor] else []) @ [PCI_Listener, Ingester, Synchroniser]
               in Inr \<lparr>sy_control = cp, sy_pci = pci, sy_throttler = NewThrottlingHandler, sy_monitor = m, sy_zk = bo_zk b,
                       sy_mappings = bo_mappings b, sy_stats = main_stats, sy_running = gs, sy_tombs = started P gs,
                       sy_kill = None, sy_flights = [], sg_served = []\<rparr>))))"

section \<open>Steps\<close>

text \<open>A request comes in; \<open>X\<close> gives what its handlers find beside the shared state.\<close>

definition admit :: "'u server \<Rightarrow> request \<Rightarrow> ('u, 'z, 't) system \<Rightarrow> ('u, 'z, 't) system" where
  "admit X r s =
     s\<lparr>sy_throttler := serve_count (en_hx (sv_env X)) r (sy_throttler s),
       sy_flights := sy_flights s @ [\<lparr>fl_request = r, fl_server = X\<lparr>sv_throttled := th_throttled (sy_throttler s)\<rparr>,
         fl_filtered = False, fl_seen = []\<rparr>]\<rparr>"

definition pass_filter :: "nat \<Rightarrow> ('u, 'z, 't) system \<Rightarrow> ('u, 'z, 't) system" where
  "pass_filter i s =
     (let f = sy_flights s ! i in
      s\<lparr>sy_flights := (sy_flights s)[i := f\<lparr>fl_server := (fl_server f)\<lparr>sv_pci := sy_pci s\<rparr>, fl_filtered := True\<rparr>]\<rparr>)"

definition load_config :: "nat \<Rightarrow> ('u, 'z, 't) system \<Rightarrow> ('u, 'z, 't) system" where
  "load_config i s =
     (let f = sy_flights s ! i in
      s\<lparr>sy_flights := (sy_flights s)[i := f\<lparr>fl_seen := fl_seen f @ [sy_control s]\<rparr>]\<rparr>)"

text \<open>A load that was not made before is made when the request finishes.\<close>

definition flight_loads :: "'u flight \<Rightarrow> control_plane \<Rightarrow> nat \<Rightarrow> control_plane" where
  "flight_loads f cp n = (if n < length (fl_seen f) then fl_seen f ! n else cp)"

definition server_now :: "'u flight \<Rightarrow> ('u, 'z, 't) system \<Rightarrow> 'u server" where
  "server_now f s = (fl_server f)\<lparr>sv_mappings := sy_mappings s, sv_control := flight_loads f (sy_control s),
     sv_monitor := sy_monitor s\<rparr>"

definition finish :: "int \<Rightarrow> nat \<Rightarrow> ('u, 'z, 't) system \<Rightarrow> ('u, 'z, 't) system" where
  "finish d i s =
     (let f = sy_flights s ! i; evs = snd (NewServer (server_now f s) (fl_request f) new_rwriter)
      in s\<lparr>sy_stats := count_events d evs (sy_stats s), sg_served := sg_served s @ [(fl_request f, evs)],
           sy_flights := take i (sy_flights s) @ drop (Suc i) (sy_flights s)\<rparr>)"

inductive flight_step :: "('u, 'z, 't) system \<Rightarrow> ('u, 'z, 't) system \<Rightarrow> bool" where
  admitted: "flight_step s (admit X r s)"
| filtered: "i < length (sy_flights s) \<Longrightarrow> \<not> fl_filtered (sy_flights s ! i) \<Longrightarrow> flight_step s (pass_filter i s)"
| loaded: "i < length (sy_flights s) \<Longrightarrow> fl_filtered (sy_flights s ! i) \<Longrightarrow> flight_step s (load_config i s)"
| finished: "i < length (sy_flights s) \<Longrightarrow> fl_filtered (sy_flights s ! i) \<Longrightarrow> flight_step s (finish d i s)"

definition dying_of :: "('u, 'z, 't) platform \<Rightarrow> goroutine \<Rightarrow> ('u, 'z, 't) system \<Rightarrow> bool" where
  "dying_of P g s = tb_dying (sp_tombs P) (sy_tombs s (tomb_of g))"

inductive turn ::
    "('u, 'z, 't) platform \<Rightarrow> goroutine \<Rightarrow> ('u, 'z, 't) system \<Rightarrow> panic + ('u, 'z, 't) system \<Rightarrow> bool"
  for P :: "('u, 'z, 't) platform" where
  reload: "\<forall>a\<in>set as. at_dying a \<longrightarrow> dying_of P Config_Reloader s \<Longrightarrow>
    loadCycle (sp_unmarshal P) (sp_hash P) as (sy_control s) = Some (Inr cp) \<Longrightarrow>
    turn P Config_Reloader s (Inr (s\<lparr>sy_control := cp\<rparr>))"
| reload_panic: "\<forall>a\<in>set as. at_dying a \<longrightarrow> dying_of P Config_Reloader s \<Longrightarrow>
    loadCycle (sp_unmarshal P) (sp_hash P) as (sy_control s) = Some (Inl e) \<Longrightarrow>
    turn P Config_Reloader s (Inl e)"
| listen: "PCI_listenConfig (sp_parse_url P) [(url, paths)] (sy_pci s) = Inr f \<Longrightarrow>
    turn P PCI_Listener s (Inr (s\<lparr>sy_pci := f\<rparr>))"
| listen_panic: "PCI_listenConfig (sp_parse_url P) [(url, paths)] (sy_pci s) = Inl e \<Longrightarrow> turn P PCI_Listener s (Inl e)"
| receive: "turn P Ingester s (Inr (s\<lparr>sy_throttler := ing_receive (sy_throttler s)\<rparr>))"
| ingest: "turn P Ingester s (Inr (s\<lparr>sy_throttler := ing_turn (sy_throttler s)\<rparr>))"
| tick: "turn P Synchroniser s (Inr (s\<lparr>sy_throttler := sync_swap reporting (sy_throttler s)\<rparr>))"
| report: "turn P Synchroniser s (Inr (s\<lparr>sy_throttler := sync_turn service (sy_throttler s)\<rparr>))"
| poll: "monitor_turn (sp_zk P) p (sy_monitor s, sy_zk s) = (m, z) \<Longrightarrow>
    turn P AZ_Monitor s (Inr (s\<lparr>sy_monitor := m, sy_zk := z\<rparr>))"

text \<open>Whether a goroutine is at its \<open>select\<close>.\<close>

fun at_select :: "goroutine \<Rightarrow> ('u, 'z, 't) system \<Rightarrow> bool" where
  "at_select Ingester s = (th_ing (sy_throttler s) = IIdle)"
| "at_select Synchroniser s = (th_sync (sy_throttler s) = SIdle)"
| "at_select _ s = True"

definition goroutine_return :: "('u, 'z, 't) platform \<Rightarrow> goroutine \<Rightarrow> ('u, 'z, 't) system \<Rightarrow> ('u, 'z, 't) system" where
  "goroutine_return P g s =
     s\<lparr>sy_running := removeAll g (sy_running s),
       sy_tombs := (sy_tombs s)(tomb_of g := tb_finish (sp_tombs P) (sy_tombs s (tomb_of g)))\<rparr>"

definition Kill_ops :: "kill_op list" where
  "Kill_ops = map Kill_Tomb [Server_Tomb, Control_Tomb, Monitor_Tomb] @ map Wait_Tomb [Server_Tomb, Control_Tomb, Monitor_Tomb]"

inductive kill_step :: "('u, 'z, 't) platform \<Rightarrow> ('u, 'z, 't) system \<Rightarrow> ('u, 'z, 't) system \<Rightarrow> bool"
  for P :: "('u, 'z, 't) platform" where
  call: "sy_kill s = None \<Longrightarrow> kill_step P s (s\<lparr>sy_kill := Some Kill_ops\<rparr>)"
| kill: "sy_kill s = Some (Kill_Tomb t # ops) \<Longrightarrow>
    kill_step P s (s\<lparr>sy_tombs := (sy_tombs s)(t := tb_Kill (sp_tombs P) (sy_tombs s t)), sy_kill := Some ops\<rparr>)"
| wait: "sy_kill s = Some (Wait_Tomb t # ops) \<Longrightarrow> tb_dead (sp_tombs P) (sy_tombs s t) \<Longrightarrow>
    kill_step P s (s\<lparr>sy_kill := Some ops\<rparr>)"

text \<open>The loop of \<open>hostmapping.init\<close>: loading never fails, so every notification is one load.\<close>

definition mappings_reload :: "mappings \<Rightarrow> ('u, 'z, 't) system \<Rightarrow> ('u, 'z, 't) system" where
  "mappings_reload config s = s\<lparr>sy_mappings := loadMappings config (sy_mappings s)\<rparr>"

inductive sys_step ::
    "('u, 'z, 't) platform \<Rightarrow> ('u, 'z, 't) system \<Rightarrow> panic + ('u, 'z, 't) system \<Rightarrow> bool"
  for P :: "('u, 'z, 't) platform" where
  request: "flight_step s s' \<Longrightarrow> sys_step P s (Inr s')"
| turn: "g \<in> set (sy_running s) \<Longrightarrow> turn P g s res \<Longrightarrow> sys_step P s res"
| return: "g \<in> set (sy_running s) \<Longrightarrow> dying_of P g s \<Longrightarrow> at_select g s \<Longrightarrow> sys_step P s (Inr (goroutine_return P g s))"
| kill: "kill_step P s s' \<Longrightarrow> sys_step P s (Inr s')"
| mappings: "sys_step P s (Inr (mappings_reload config s))"
| fleet: "sys_step P s (Inr (s\<lparr>sy_zk := z\<rparr>))"

inductive sys_reachable :: "('u, 'z, 't) platform \<Rightarrow> 'z boot \<Rightarrow> ('u, 'z, 't) system \<Rightarrow> bool"
  for P :: "('u, 'z, 't) platform" and b :: "'z boot" where
  start: "process_start P b = Inr s \<Longrightarrow> sys_reachable P b s"
| step: "sys_reachable P b s \<Longrightarrow> sys_step P s (Inr s') \<Longrightarrow> sys_reachable P b s'"

inductive_cases turnE: "turn P g s res"
inductive_cases kill_stepE: "kill_step P s s'"
inductive_cases sys_stepE: "sys_step P s res"

section \<open>Lemmas\<close>

text \<open>What requests leave alone.\<close>

lemma flight_frame:
  assumes "flight_step s s'"
  shows "sy_control s' = sy_control s \<and> sy_pci s' = sy_pci s \<and> sy_monitor s' = sy_monitor s \<and>
    sy_running s' = sy_running s \<and> sy_tombs s' = sy_tombs s \<and> sy_kill s' = sy_kill s \<and>
    th_throttled (sy_throttler s') = th_throttled (sy_throttler s)"
  using assms
  by (cases rule: flight_step.cases)
    (simp_all add: admit_def pass_filter_def load_config_def finish_def serve_count_def Let_def)

text \<open>Tombs, and the goroutines they track.\<close>

definition tracked :: "goroutine list \<Rightarrow> tomb_id \<Rightarrow> nat" where
  "tracked gs t = length (filter (\<lambda>g. tomb_of g = t) gs)"

lemma started_tomb:
  assumes "tomb_ok (sp_tombs P) alive"
  shows "alive (started P gs t) = tracked gs t \<and> \<not> tb_dying (sp_tombs P) (started P gs t) \<and>
    \<not> tb_dead (sp_tombs P) (started P gs t)"
proof -
  let ?T = "sp_tombs P" and ?step = "\<lambda>g. if tomb_of g = t then tb_Go (sp_tombs P) else id"
  note ok = assms [unfolded tomb_ok_def]
  have "alive (fold ?step gs x) = alive x + tracked gs t \<and> tb_dying ?T (fold ?step gs x) = tb_dying ?T x \<and>
      tb_dead ?T (fold ?step gs x) = tb_dead ?T x" for x
    by (induction gs arbitrary: x) (simp_all add: tracked_def ok)
  then show ?thesis by (simp add: started_def ok)
qed

lemma tracked_removeAll:
  "distinct gs \<Longrightarrow> g \<in> set gs \<Longrightarrow> tracked (removeAll g gs) t = tracked gs t - (if tomb_of g = t then 1 else 0)"
proof (induction gs)
  case (Cons h gs)
  show ?case
  proof (cases "g = h")
    case False
    then have g: "g \<in> set gs" using Cons.prems by simp
    then have "0 < tracked gs (tomb_of g)" by (auto simp: tracked_def filter_empty_conv)
    with g Cons False show ?thesis by (auto simp: tracked_def)
  qed (use Cons.prems in \<open>simp add: tracked_def\<close>)
qed simp

lemma tracked_0: "tracked gs t = 0 \<longleftrightarrow> (\<forall>g\<in>set gs. tomb_of g \<noteq> t)"
  by (auto simp: tracked_def filter_empty_conv)

definition monitored :: "'z boot \<Rightarrow> bool" where
  "monitored b \<longleftrightarrow> bo_az b \<noteq> None"

definition initial_goroutines :: "'z boot \<Rightarrow> goroutine list" where
  "initial_goroutines b =
     [Config_Reloader] @ (if monitored b then [AZ_Monitor] else []) @ [PCI_Listener, Ingester, Synchroniser]"

text \<open>What is known of the tombs: each tracks its goroutines that run, is dead when the last one has
  returned, and a goroutine that has returned was told to; the operations of \<open>Kill\<close> are done in order.\<close>

definition kill_ok :: "'t tomb_lib \<Rightarrow> (tomb_id \<Rightarrow> 't) \<Rightarrow> kill_op list option \<Rightarrow> bool" where
  "kill_ok T tombs k \<longleftrightarrow>
     (\<exists>past. (case k of None \<Rightarrow> past = [] | Some ops \<Rightarrow> past @ ops = Kill_ops) \<and>
        (\<forall>t. tb_dying T (tombs t) \<longleftrightarrow> Kill_Tomb t \<in> set past) \<and>
        (\<forall>t. Wait_Tomb t \<in> set past \<longrightarrow> tb_dead T (tombs t)))"

definition tombs_inv :: "('u, 'z, 't) platform \<Rightarrow> ('t \<Rightarrow> nat) \<Rightarrow> 'z boot \<Rightarrow> ('u, 'z, 't) system \<Rightarrow> bool" where
  "tombs_inv P alive b s \<longleftrightarrow>
     distinct (sy_running s) \<and> set (sy_running s) \<subseteq> set (initial_goroutines b) \<and>
     (\<forall>t. alive (sy_tombs s t) = tracked (sy_running s) t \<and>
        tb_dead (sp_tombs P) (sy_tombs s t) = (tracked (sy_running s) t = 0 \<and> tracked (initial_goroutines b) t \<noteq> 0)) \<and>
     (\<forall>g\<in>set (initial_goroutines b). g \<in> set (sy_running s) \<or> dying_of P g s) \<and>
     kill_ok (sp_tombs P) (sy_tombs s) (sy_kill s)"

lemma turn_frame:
  assumes "turn P g s (Inr s')"
  shows "sy_running s' = sy_running s \<and> sy_tombs s' = sy_tombs s \<and> sy_kill s' = sy_kill s"
  using assms by (auto elim: turnE)

lemma tombs_inv_cong:
  assumes "tombs_inv P alive b s"
    and "sy_running s' = sy_running s" and "sy_tombs s' = sy_tombs s" and "sy_kill s' = sy_kill s"
  shows "tombs_inv P alive b s'"
  using assms by (simp add: tombs_inv_def dying_of_def)

lemma initial_tombs:
  assumes "tomb_ok (sp_tombs P) alive" and "process_start P b = Inr s"
  shows "tombs_inv P alive b s"
proof -
  have s: "sy_running s = initial_goroutines b \<and> sy_tombs s = started P (initial_goroutines b) \<and> sy_kill s = None"
    using assms(2)
    by (auto simp: process_start_def NewStatusMonitor_def initial_goroutines_def monitored_def Let_def
        split: sum.splits prod.splits)
  have "distinct (initial_goroutines b)" by (simp add: initial_goroutines_def)
  with s show ?thesis by (auto simp: tombs_inv_def kill_ok_def started_tomb [OF assms(1)])
qed

lemma return_tombs:
  assumes "tomb_ok (sp_tombs P) alive" and "tombs_inv P alive b s"
    and "g \<in> set (sy_running s)" and "dying_of P g s"
  shows "tombs_inv P alive b (goroutine_return P g s)"
proof -
  let ?T = "sp_tombs P"
  have inv: "distinct (sy_running s)" "alive (sy_tombs s t) = tracked (sy_running s) t"
    "tb_dead ?T (sy_tombs s t) = (tracked (sy_running s) t = 0 \<and> tracked (initial_goroutines b) t \<noteq> 0)" for t
    using assms(2) by (simp_all add: tombs_inv_def)
  have pos: "0 < tracked (sy_running s) (tomb_of g)" "0 < tracked (initial_goroutines b) (tomb_of g)"
    using assms(2,3) by (auto simp: tombs_inv_def tracked_def filter_empty_conv)
  have fin: "alive (tb_finish ?T t) = alive t - 1" "tb_dying ?T (tb_finish ?T t) = (tb_dying ?T t \<or> alive t = 1)"
    "tb_dead ?T (tb_finish ?T t) = (tb_dead ?T t \<or> alive t = 1)" if "0 < alive t" for t
    using assms(1) that by (simp_all add: tomb_ok_def)
  note f = fin [of "sy_tombs s (tomb_of g)", unfolded inv, OF pos(1)]
  have dy: "tb_dying ?T (sy_tombs (goroutine_return P g s) t) = tb_dying ?T (sy_tombs s t)" for t
    using assms(4) by (simp add: goroutine_return_def f dying_of_def)
  have de: "tb_dead ?T (sy_tombs s t) \<Longrightarrow> tb_dead ?T (sy_tombs (goroutine_return P g s) t)" for t
    using pos by (auto simp: goroutine_return_def f inv)
  have kill: "sy_kill (goroutine_return P g s) = sy_kill s" by (simp add: goroutine_return_def)
  have "alive (sy_tombs (goroutine_return P g s) t) = tracked (sy_running (goroutine_return P g s)) t \<and>
      tb_dead ?T (sy_tombs (goroutine_return P g s) t) =
        (tracked (sy_running (goroutine_return P g s)) t = 0 \<and> tracked (initial_goroutines b) t \<noteq> 0)" for t
    using pos by (auto simp: goroutine_return_def f inv tracked_removeAll [OF inv(1) assms(3)])
  moreover have "g' \<in> set (sy_running (goroutine_return P g s)) \<or> dying_of P g' (goroutine_return P g s)"
    if "g' \<in> set (initial_goroutines b)" for g'
    using assms(2,4) that by (auto simp: tombs_inv_def dying_of_def dy) (auto simp: goroutine_return_def)
  moreover have "distinct (sy_running (goroutine_return P g s))" "set (sy_running (goroutine_return P g s)) \<subseteq> set (initial_goroutines b)"
    using assms(2) by (auto simp: tombs_inv_def goroutine_return_def distinct_removeAll)
  moreover have "kill_ok ?T (sy_tombs (goroutine_return P g s)) (sy_kill (goroutine_return P g s))"
    using assms(2) de unfolding tombs_inv_def kill_ok_def kill dy by blast
  ultimately show ?thesis unfolding tombs_inv_def by blast
qed

lemma kill_tombs:
  assumes "tomb_ok (sp_tombs P) alive" and "tombs_inv P alive b s" and "kill_step P s s'"
  shows "tombs_inv P alive b s'"
  using assms(3)
proof (cases rule: kill_step.cases)
  case call
  then have "kill_ok (sp_tombs P) (sy_tombs s') (sy_kill s')"
    using assms(2) by (simp add: tombs_inv_def kill_ok_def)
  with assms(2) call show ?thesis by (simp add: tombs_inv_def dying_of_def)
next
  case (kill t ops)
  have K: "alive (tb_Kill (sp_tombs P) x) = alive x" "tb_dying (sp_tombs P) (tb_Kill (sp_tombs P) x)"
    "tb_dead (sp_tombs P) (tb_Kill (sp_tombs P) x) = tb_dead (sp_tombs P) x" for x
    using assms(1) by (simp_all add: tomb_ok_def)
  from assms(2) kill(2) obtain past where past: "past @ Kill_Tomb t # ops = Kill_ops"
    "\<forall>u. tb_dying (sp_tombs P) (sy_tombs s u) \<longleftrightarrow> Kill_Tomb u \<in> set past"
    "\<forall>u. Wait_Tomb u \<in> set past \<longrightarrow> tb_dead (sp_tombs P) (sy_tombs s u)"
    unfolding tombs_inv_def kill_ok_def by auto
  then have "kill_ok (sp_tombs P) (sy_tombs s') (sy_kill s')"
    unfolding kill_ok_def kill(1) by (intro exI [of _ "past @ [Kill_Tomb t]"]) (auto simp: K)
  with assms(2) show ?thesis by (auto simp: tombs_inv_def dying_of_def kill(1) K)
next
  case (wait t ops)
  from assms(2) wait(2) obtain past where past: "past @ Wait_Tomb t # ops = Kill_ops"
    "\<forall>u. tb_dying (sp_tombs P) (sy_tombs s u) \<longleftrightarrow> Kill_Tomb u \<in> set past"
    "\<forall>u. Wait_Tomb u \<in> set past \<longrightarrow> tb_dead (sp_tombs P) (sy_tombs s u)"
    unfolding tombs_inv_def kill_ok_def by auto
  then have "kill_ok (sp_tombs P) (sy_tombs s') (sy_kill s')"
    unfolding kill_ok_def wait(1) using wait(3) by (intro exI [of _ "past @ [Wait_Tomb t]"]) auto
  with assms(2) wait(1) show ?thesis by (simp add: tombs_inv_def dying_of_def)
qed

lemma step_tombs:
  assumes "tomb_ok (sp_tombs P) alive" and "tombs_inv P alive b s" and "sys_step P s (Inr s')"
  shows "tombs_inv P alive b s'"
  using assms(3)
proof (cases rule: sys_step.cases)
  case (turn g)
  with turn_frame assms(2) show ?thesis by (blast intro: tombs_inv_cong)
next
  case request
  with flight_frame assms(2) show ?thesis by (blast intro: tombs_inv_cong)
qed (use assms(1,2) return_tombs kill_tombs in \<open>auto simp: mappings_reload_def intro: tombs_inv_cong\<close>)

lemma reachable_tombs:
  assumes "tomb_ok (sp_tombs P) alive" and "sys_reachable P b s"
  shows "tombs_inv P alive b s"
  using assms(2) by (induction rule: sys_reachable.induct) (blast intro: initial_tombs step_tombs assms(1))+

text \<open>The components of the state keep their own invariants.\<close>

definition monitor_ok :: "status_monitor \<Rightarrow> bool" where
  "monitor_ok m \<longleftrightarrow> sm_lockHandle m = '''' \<or> (sm_lockHandle m = lockPath \<and> \<not> sm_IsHealthy m)"

lemma effect_monitor_ok: "effect holder (m, z) (m', z') \<Longrightarrow> monitor_ok m \<Longrightarrow> monitor_ok m'"
  by (auto simp: effect_def monitor_ok_def)

lemma turn_monitor_ok:
  assumes "zk_ok Z holder" and "monitor_ok m" and "monitor_turn Z p (m, z) = (m', z')"
  shows "monitor_ok m'"
proof -
  obtain m1 z1 where 1: "interpretRavenStatus Z (po_now p) (po_connected p) (m, z) = (m1, z1)"
    by (cases "interpretRavenStatus Z (po_now p) (po_connected p) (m, z)")
  have h: "sm_lockHandle x \<in> {'''', lockPath}" if "monitor_ok x" for x
    using that by (auto simp: monitor_ok_def)
  have m1: "monitor_ok m1"
    using effect_monitor_ok interpret_effect(1) [OF assms(1), of "(m, z)"] h assms(2) 1 by (metis fst_conv)
  then have "monitor_ok m2" if "interpretAZStatus Z (po_now p) c (m1, z1) = (m2, z2)" for c m2 z2
    using effect_monitor_ok interpret_effect(2) [OF assms(1), of "(m1, z1)"] h that by (metis fst_conv)
  with m1 monitor_turn_cases [of Z p "(m, z)"] 1 assms(3) show ?thesis by (metis prod.inject)
qed

text \<open>The outcomes the statistics were given for an endpoint, in order.\<close>

definition outcomes :: "string \<Rightarrow> pstats_call list \<Rightarrow> bool list" where
  "outcomes p cs = concat (map (\<lambda>c. case c of RecordCall e failed d \<Rightarrow> if ep_name e = p then [\<not> failed] else []
     | _ \<Rightarrow> []) cs)"

definition endpoints_registered :: "stats_manager \<Rightarrow> bool" where
  "endpoints_registered st \<longleftrightarrow> st_endpoints st = st_endpoints main_stats"

lemma record_outcomes:
  assumes "endpoints_registered st" and "p \<in> set main_endpoints"
  shows "outcomes p (st_calls (stats_record q ok d st)) = outcomes p (st_calls st) @ (if q = p then [ok] else [])"
  using assms
  by (auto simp: stats_record_def endpoints_registered_def main_stats_endpoints outcomes_def split: option.split)

lemma count_events_simps [simp]:
  "count_events d [] st = st" "count_events d (e # evs) st = count_events d evs (count_event d e st)"
  by (simp_all add: count_events_def)

lemma count_events_outcomes:
  assumes "endpoints_registered st" and "p \<in> set main_endpoints"
  shows "outcomes p (st_calls (count_events d evs st)) = outcomes p (st_calls st) @ records p evs"
  using assms(1)
proof (induction evs arbitrary: st)
  case (Cons e evs)
  show ?case
  proof (cases e)
    case (StatsRecord q ok)
    have "endpoints_registered (stats_record q ok d st)" using Cons.prems by (simp add: endpoints_registered_def)
    with Cons.IH record_outcomes [OF Cons.prems assms(2)] show ?thesis by (simp add: StatsRecord count_event_def)
  qed (use Cons in \<open>simp_all add: count_event_def\<close>)
qed simp

lemma count_events_stats: "stats_inv st \<Longrightarrow> endpoints_registered st \<Longrightarrow>
    stats_inv (count_events d evs st) \<and> endpoints_registered (count_events d evs st)"
proof (induction evs arbitrary: st)
  case (Cons e evs)
  show ?case
  proof (cases e)
    case (StatsRecord q ok)
    with Cons stats_inv_record show ?thesis by (simp add: count_event_def endpoints_registered_def)
  qed (use Cons in \<open>simp_all add: count_event_def\<close>)
qed simp

definition parts_inv :: "('u, 'z, 't) system \<Rightarrow> bool" where
  "parts_inv s \<longleftrightarrow>
     cp_valid (sy_control s) \<and> books_inv False (sy_throttler s) \<and> monitor_ok (sy_monitor s) \<and>
     stats_inv (sy_stats s) \<and> endpoints_registered (sy_stats s) \<and>
     (\<forall>p\<in>set main_endpoints. outcomes p (st_calls (sy_stats s)) = concat (map (records p \<circ> snd) (sg_served s)))"

lemma main_stats_inv: "stats_inv main_stats"
proof -
  have "stats_inv defaultManager" by (simp add: stats_inv_def defaultManager_def newStatsManager_def)
  then show ?thesis unfolding main_stats_def main_endpoints_def by (simp add: stats_inv_register stats_inv_start_stop)
qed

lemma main_stats_quiet: "outcomes p (st_calls main_stats) = []"
  by (simp add: main_stats_def main_endpoints_def defaultManager_def newStatsManager_def stats_register_def Stats_Start_def outcomes_def Let_def)

lemma initial_parts: "process_start P b = Inr s \<Longrightarrow> parts_inv s"
  using tryLoad_valid [of "new_cp (bo_fs b)"] books_init main_stats_inv
  by (auto simp: process_start_def parts_inv_def NewStatusMonitor_def monitor_ok_def endpoints_registered_def
      main_stats_quiet cp_valid_def new_cp_def Let_def split: sum.splits)

lemma throttler_books:
  assumes "books_inv False s"
  shows "books_inv False (ing_receive s)" and "books_inv False (ing_turn s)" and "books_inv False (sync_swap reporting s)"
    and "books_inv False (sync_turn service s)" and "books_inv False (serve_count hx r s)"
  using assms ing_turn_step [of False s] sync_turn_step [of False s service]
    throttle_step.swap [of False reporting s]
  by (auto intro: books_step throttle_step.intros)

lemma turn_parts:
  assumes "zk_ok (sp_zk P) holder" and "parts_inv s" and "turn P g s (Inr s')"
  shows "parts_inv s'"
  using assms(3)
proof (cases rule: turn.cases)
  case (reload as cp)
  with loadCycle_valid assms(2) show ?thesis by (auto simp: parts_inv_def)
next
  case (poll p m z)
  with turn_monitor_ok [OF assms(1)] assms(2) show ?thesis by (auto simp: parts_inv_def)
qed (use assms(2) throttler_books in \<open>auto simp: parts_inv_def\<close>)

lemma flight_parts:
  assumes "parts_inv s" and "flight_step s s'"
  shows "parts_inv s'"
  using assms(2)
  by (cases rule: flight_step.cases)
    (use assms(1) in \<open>simp_all add: parts_inv_def admit_def pass_filter_def load_config_def finish_def Let_def
      throttler_books count_events_stats count_events_outcomes\<close>)

lemma step_parts:
  assumes "zk_ok (sp_zk P) holder" and "parts_inv s" and "sys_step P s (Inr s')"
  shows "parts_inv s'"
  using assms(3)
proof (cases rule: sys_step.cases)
  case (turn g)
  with turn_parts [OF assms(1,2)] show ?thesis by blast
next
  case kill
  then show ?thesis using assms(2) by (auto simp: parts_inv_def elim: kill_stepE)
qed (use assms(2) flight_parts in \<open>auto simp: parts_inv_def goroutine_return_def mappings_reload_def\<close>)

lemma reachable_parts:
  assumes "zk_ok (sp_zk P) holder" and "sys_reachable P b s"
  shows "parts_inv s"
  using assms(2) by (induction rule: sys_reachable.induct) (blast intro: initial_parts step_parts assms(1))+

text \<open>What makes a goroutine panic.\<close>

lemma loadCycle_panics:
  "loadCycle unmarshal hash as cp = Some (Inl e) \<Longrightarrow> \<exists>raw p. raw \<noteq> '''' \<and> unmarshal raw = Some p \<and> null_rule p"
proof (induction as arbitrary: cp)
  case (Cons a as)
  then show ?case
    using tryLoad_panics [of unmarshal hash a cp] by (auto split: if_splits sum.splits)
qed simp

lemma listen_panics:
  "(\<exists>e. PCI_listenConfig parse_url [(url, paths)] f = Inl e) \<longleftrightarrow> parse_url url = None \<and> pf_currentProxyURL f \<noteq> None"
  by (auto simp: PCI_loadConfig_def Let_def split: option.splits sum.splits)

text \<open>Shutting down: the steps in which goroutines finish what they are at and take the way out.\<close>

inductive shutdown_step ::
    "('u, 'z, 't) platform \<Rightarrow> ('u, 'z, 't) system \<Rightarrow> ('u, 'z, 't) system \<Rightarrow> bool"
  for P :: "('u, 'z, 't) platform" where
  op: "sy_kill s \<noteq> None \<Longrightarrow> kill_step P s s' \<Longrightarrow> shutdown_step P s s'"
| return: "g \<in> set (sy_running s) \<Longrightarrow> dying_of P g s \<Longrightarrow> at_select g s \<Longrightarrow> shutdown_step P s (goroutine_return P g s)"
| ingest: "Ingester \<in> set (sy_running s) \<Longrightarrow> \<not> at_select Ingester s \<Longrightarrow>
    shutdown_step P s (s\<lparr>sy_throttler := ing_turn (sy_throttler s)\<rparr>)"
| report: "Synchroniser \<in> set (sy_running s) \<Longrightarrow> \<not> at_select Synchroniser s \<Longrightarrow>
    shutdown_step P s (s\<lparr>sy_throttler := sync_turn service (sy_throttler s)\<rparr>)"

definition shutdown_left :: "('u, 'z, 't) system \<Rightarrow> nat" where
  "shutdown_left s = ing_left (sy_throttler s) + sync_left (sy_throttler s) + length (sy_running s) +
     (case sy_kill s of None \<Rightarrow> 7 | Some ops \<Rightarrow> length ops)"

lemma shutdown_sys_step: "shutdown_step P s s' \<Longrightarrow> sys_step P s (Inr s')"
  by (induction rule: shutdown_step.induct) (auto intro: sys_step.intros turn.intros)

lemma ing_turn_sync: "sync_left (ing_turn s) = sync_left s"
  by (simp add: sync_left_def ing_turn_def ing_load_def ing_add_def ing_cas_def ing_reload_def Let_def
      split: ingester.split option.split)

lemma removeAll_shorter: "g \<in> set gs \<Longrightarrow> length (removeAll g gs) < length gs"
  by (simp add: length_removeAll_less)

lemma shutdown_decreases: "shutdown_step P s s' \<Longrightarrow> Suc (shutdown_left s') \<le> shutdown_left s"
proof (induction rule: shutdown_step.induct)
  case (op s s')
  from op(2,1) show ?case by (cases rule: kill_step.cases) (auto simp: shutdown_left_def)
next
  case (return g s)
  then show ?case using removeAll_shorter [of g "sy_running s"] by (simp add: shutdown_left_def goroutine_return_def)
next
  case (ingest s)
  then show ?case using ing_left_turn [of "sy_throttler s"] by (simp add: shutdown_left_def ing_turn_sync)
next
  case (report s service)
  then show ?case using sync_left_turn [of "sy_throttler s" service] by (simp add: shutdown_left_def sync_turn_left)
qed

lemma shutdown_reachable: "(shutdown_step P ^^ n) s s' \<Longrightarrow> sys_reachable P b s \<Longrightarrow> sys_reachable P b s'"
  by (induction n arbitrary: s') (auto intro: sys_reachable.step shutdown_sys_step)

lemma goroutine_progress:
  assumes "g \<in> set (sy_running s)" and "dying_of P g s"
  shows "\<exists>s'. shutdown_step P s s'"
proof (cases "at_select g s")
  case False
  then have "g = Ingester \<or> g = Synchroniser" by (cases g) simp_all
  with False assms(1) show ?thesis by (blast intro: shutdown_step.ingest shutdown_step.report)
qed (use assms in \<open>blast intro: shutdown_step.return\<close>)

text \<open>\<open>Kill\<close> awaits a tomb only when all are killed.\<close>

lemma waiting_dying:
  assumes "kill_ok T tombs (sy_kill s)" and "sy_kill s = Some (Wait_Tomb u # rest)"
  shows "tb_dying T (tombs t)"
proof -
  obtain past where past: "past @ Wait_Tomb u # rest = Kill_ops" "\<forall>t. tb_dying T (tombs t) \<longleftrightarrow> Kill_Tomb t \<in> set past"
    using assms by (auto simp: kill_ok_def)
  have "\<forall>n<3. \<forall>u. Kill_ops ! n \<noteq> Wait_Tomb u" by (simp add: Kill_ops_def All_less_Suc numeral_3_eq_3)
  then have "3 \<le> length past" using past(1) by (metis not_le nth_append_length)
  then have "set (take 3 Kill_ops) \<subseteq> set past" unfolding past(1) [symmetric] by (simp add: set_take_subset)
  moreover have "Kill_Tomb t \<in> set (take 3 Kill_ops)" by (cases t) (simp_all add: Kill_ops_def)
  ultimately show ?thesis using past(2) by blast
qed

section \<open>Concrete runs\<close>

text \<open>A scheduler that shuts an idle process down: the next operation of \<open>Kill\<close>, or else the return of a
  goroutine it waits for.\<close>

definition shutdown_next :: "('u, 'z, 't) platform \<Rightarrow> ('u, 'z, 't) system \<Rightarrow> ('u, 'z, 't) system option" where
  "shutdown_next P s =
     (case sy_kill s of
        Some (Kill_Tomb t # ops) \<Rightarrow>
          Some (s\<lparr>sy_tombs := (sy_tombs s)(t := tb_Kill (sp_tombs P) (sy_tombs s t)), sy_kill := Some ops\<rparr>)
      | Some (Wait_Tomb t # ops) \<Rightarrow>
          (if tb_dead (sp_tombs P) (sy_tombs s t) then Some (s\<lparr>sy_kill := Some ops\<rparr>)
           else map_option (\<lambda>g. goroutine_return P g s)
                  (find (\<lambda>g. tomb_of g = t \<and> dying_of P g s \<and> at_select g s) (sy_running s)))
      | _ \<Rightarrow> None)"

lemma shutdown_next_step: "shutdown_next P s = Some s' \<Longrightarrow> shutdown_step P s s'"
  by (auto simp: shutdown_next_def find_Some_iff dying_of_def split: option.splits list.splits kill_op.splits if_splits
      intro: shutdown_step.return shutdown_step.op kill_step.kill kill_step.wait)

fun shutdown_run :: "nat \<Rightarrow> ('u, 'z, 't) platform \<Rightarrow> ('u, 'z, 't) system \<Rightarrow> ('u, 'z, 't) system option" where
  "shutdown_run 0 P s = Some s"
| "shutdown_run (Suc n) P s = (case shutdown_next P s of None \<Rightarrow> None | Some s' \<Rightarrow> shutdown_run n P s')"

lemma shutdown_run_steps: "shutdown_run n P s = Some s' \<Longrightarrow> (shutdown_step P ^^ n) s s'"
proof (induction n arbitrary: s)
  case (Suc n)
  then obtain u where "shutdown_next P s = Some u" "shutdown_run n P u = Some s'" by (auto split: option.splits)
  with Suc.IH show ?case by (blast intro: relpowp_Suc_I2 shutdown_next_step)
qed simp

definition test_platform :: "(string, string option, counting_tomb) platform" where
  "test_platform = \<lparr>sp_zk = mem_zk, sp_tombs = counting_tombs, sp_unmarshal = test_unmarshal, sp_hash = test_hash,
     sp_parse_url = (\<lambda>u. if u = '':'' then None else Some u)\<rparr>"

definition test_boot :: "string option \<Rightarrow> string option boot" where
  "test_boot az = \<lparr>bo_attempt = test_attempt ''good'', bo_pci_url = ''https://pci'', bo_pci_paths = [], bo_az = az,
     bo_mappings = [], bo_fs = \<lparr>fs_target = None, fs_temps = []\<rparr>, bo_now = 0, bo_zk = None\<rparr>"

definition test_process :: "string option \<Rightarrow> (string, string option, counting_tomb) system" where
  "test_process az =
     \<lparr>sy_control = test_cp,
      sy_pci = \<lparr>pf_sensitivePaths = [], pf_currentProxyURL = Some ''https://pci'', pf_proxy = Some ''https://pci''\<rparr>,
      sy_throttler = NewThrottlingHandler, sy_monitor = fst (NewStatusMonitor az 0), sy_zk = None, sy_mappings = [],
      sy_stats = main_stats, sy_running = initial_goroutines (test_boot az),
      sy_tombs = started test_platform (initial_goroutines (test_boot az)), sy_kill = None, sy_flights = [], sg_served = []\<rparr>"

lemma test_platform_ok: "tomb_ok (sp_tombs test_platform) ct_alive" "zk_ok (sp_zk test_platform) (\<lambda>z. z)"
  by (simp_all add: test_platform_def counting_tombs_ok mem_zk_ok)

lemma test_process_start: "process_start test_platform (test_boot az) = Inr (test_process az)"
  by (simp add: process_start_def test_process_def test_platform_def test_boot_def test_cp_loaded(1) NewPCIFilter_def
      PCI_loadConfig_def NewStatusMonitor_def initial_goroutines_def monitored_def Let_def)

text \<open>A request that nothing comes between.\<close>

definition run_request :: "'u server \<Rightarrow> int \<Rightarrow> request \<Rightarrow> ('u, 'z, 't) system \<Rightarrow> ('u, 'z, 't) system" where
  "run_request X d r s = finish d (length (sy_flights s)) (pass_filter (length (sy_flights s)) (admit X r s))"

lemma run_request_steps: "(\<lambda>s s'. sys_step P s (Inr s'))\<^sup>*\<^sup>* s (run_request X d r s)"
proof -
  let ?n = "length (sy_flights s)"
  have "sys_step P s (Inr (admit X r s))" by (intro sys_step.request flight_step.admitted)
  moreover have "sys_step P (admit X r s) (Inr (pass_filter ?n (admit X r s)))"
    by (intro sys_step.request flight_step.filtered) (simp_all add: admit_def)
  moreover have "sys_step P (pass_filter ?n (admit X r s)) (Inr (run_request X d r s))"
    unfolding run_request_def
    by (intro sys_step.request flight_step.finished) (simp_all add: admit_def pass_filter_def Let_def)
  ultimately show ?thesis by (meson converse_rtranclp_into_rtranclp r_into_rtranclp)
qed

lemma steps_reachable: "(\<lambda>s s'. sys_step P s (Inr s'))\<^sup>*\<^sup>* s s' \<Longrightarrow> sys_reachable P b s \<Longrightarrow> sys_reachable P b s'"
  by (induction rule: rtranclp_induct) (auto intro: sys_reachable.step)

definition test_killed :: "string option \<Rightarrow> (string, string option, counting_tomb) system" where
  "test_killed az = (test_process az)\<lparr>sy_kill := Some Kill_ops\<rparr>"

lemma test_killed_reachable: "sys_reachable test_platform (test_boot az) (test_killed az)"
proof -
  have "sy_kill (test_process az) = None" by (simp add: test_process_def)
  from kill_step.call [OF this] show ?thesis unfolding test_killed_def
    by (intro sys_reachable.step [OF sys_reachable.start [OF test_process_start]] sys_step.kill)
qed

definition test_end :: "(string, string option, counting_tomb) system" where
  "test_end = the (shutdown_run 11 test_platform (test_killed (Some ''a'')))"

lemma test_end: "shutdown_run 11 test_platform (test_killed (Some ''a'')) = Some test_end" "sy_kill test_end = Some []"
proof -
  have "map_option sy_kill (shutdown_run 11 test_platform (test_killed (Some ''a''))) = Some (Some [])"
    by (simp add: numeral_eq_Suc shutdown_next_def test_killed_def test_process_def test_platform_def test_boot_def
        counting_tombs_def started_def initial_goroutines_def monitored_def Kill_ops_def goroutine_return_def dying_of_def
        NewThrottlingHandler_def)
  then show "shutdown_run 11 test_platform (test_killed (Some ''a'')) = Some test_end" "sy_kill test_end = Some []"
    by (auto simp: test_end_def)
qed

section \<open>Properties\<close>

text \<open>C2: Everything the process knows stays consistent, over any interleaving of requests, reloads, counting,
  reports, polls and shutdown. The configuration in use is none or a valid one; no session is counted more
  often than it was seen; a monitor that has a lock handle is out of service; and for each of the endpoints
  that \<open>main\<close> registers the statistics platform has been told exactly the outcomes of the requests
  served, in their order.\<close>

theorem process_invariant:
  assumes "zk_ok (sp_zk P) holder" and "sys_reachable P b s"
  shows "(\<forall>c. cp_loaded (sy_control s) = Some c \<longrightarrow> config_valid c) \<and>
    (\<forall>k. accounted (sy_throttler s) k \<le> count_list (tg_consumed (sy_throttler s)) k) \<and>
    (sm_lockHandle (sy_monitor s) \<noteq> '''' \<longrightarrow> \<not> sm_IsHealthy (sy_monitor s)) \<and>
    distinct (told (st_calls (sy_stats s))) \<and> set (told (st_calls (sy_stats s))) = set main_endpoints \<and>
    (\<forall>p\<in>set main_endpoints.
       outcomes p (st_calls (sy_stats s)) = concat (map (\<lambda>v. records p (snd v)) (sg_served s)))"
proof -
  have inv: "parts_inv s" by (rule reachable_parts [OF assms])
  have "told (st_calls (sy_stats s)) = map fst (st_endpoints main_stats)" "distinct (map fst (st_endpoints main_stats))"
    using inv by (auto simp: parts_inv_def stats_inv_def endpoints_registered_def)
  moreover have "set (map fst (st_endpoints main_stats)) = set main_endpoints"
    by (simp add: main_stats_def main_endpoints_def defaultManager_def newStatsManager_def stats_register_def Stats_Start_def Let_def)
  ultimately show ?thesis
    using inv by (auto simp: parts_inv_def cp_valid_def monitor_ok_def books_inv_def books_ok_def comp_def)
qed

theorem process_invariant_witness:
  "let s = run_request test_server 3 (rpc_request '''') (test_process (Some ''a'')) in
     outcomes ''/rpc'' (st_calls (sy_stats s)) = records ''/rpc'' (snd (hd (sg_served s))) \<and>
     (\<forall>c. cp_loaded (sy_control s) = Some c \<longrightarrow> config_valid c)"
proof -
  have "sys_reachable test_platform (test_boot (Some ''a'')) (run_request test_server 3 (rpc_request '''') (test_process (Some ''a'')))"
    by (rule steps_reachable [OF run_request_steps sys_reachable.start [OF test_process_start]])
  from process_invariant [OF test_platform_ok(2) this] show ?thesis
    by (simp add: Let_def run_request_def finish_def pass_filter_def admit_def test_process_def main_endpoints_def)
qed

text \<open>C14: The process goes down in two cases only: the control plane is notified and the configuration has a null
  rule beside another one, or the filter for card data is notified, had a proxy URL, and the new one
  cannot be parsed.\<close>

theorem process_crashes:
  "(\<exists>e. sys_step P s (Inl e)) \<longleftrightarrow>
     (Config_Reloader \<in> set (sy_running s) \<and> (\<exists>raw p. raw \<noteq> '''' \<and> sp_unmarshal P raw = Some p \<and> null_rule p)) \<or>
     (PCI_Listener \<in> set (sy_running s) \<and> pf_currentProxyURL (sy_pci s) \<noteq> None \<and> (\<exists>url. sp_parse_url P url = None))"
    (is "?crash \<longleftrightarrow> ?reload \<or> ?listen")
proof
  assume ?crash
  then obtain e g where "g \<in> set (sy_running s)" "turn P g s (Inl e)" by (auto elim: sys_stepE)
  from this(2,1) show "?reload \<or> ?listen"
  proof (cases rule: turn.cases)
    case (reload_panic as)
    with loadCycle_panics [OF reload_panic(3)] \<open>g \<in> _\<close> show ?thesis by blast
  next
    case (listen_panic url paths)
    with listen_panics [of "sp_parse_url P" url paths "sy_pci s"] \<open>g \<in> _\<close> show ?thesis by blast
  qed
next
  have ?crash if ?reload
  proof -
    from that obtain raw p where raw: "raw \<noteq> ''''" "sp_unmarshal P raw = Some p" "null_rule p" by auto
    define a where "a = \<lparr>at_dying = False, at_raw = raw, at_range = [], at_fails = (\<lambda>_. False), at_part = ''''\<rparr>"
    obtain e where "tryLoad (sp_unmarshal P) (sp_hash P) a (sy_control s) = Inl e"
      using tryLoad_panics [of "sp_unmarshal P" "sp_hash P" a "sy_control s"] raw by (auto simp: a_def)
    then have "loadCycle (sp_unmarshal P) (sp_hash P) [a] (sy_control s) = Some (Inl e)" by (simp add: a_def)
    then have "turn P Config_Reloader s (Inl e)" by (intro turn.reload_panic [of "[a]"]) (simp_all add: a_def)
    with that show ?thesis by (blast intro: sys_step.turn)
  qed
  moreover have ?crash if ?listen
    using that listen_panics [of "sp_parse_url P" _ _ "sy_pci s"] by (blast intro: sys_step.turn turn.listen_panic)
  ultimately show ?crash if "?reload \<or> ?listen" using that by blast
qed

theorem process_crashes_witness:
  "\<exists>e. sys_step test_platform (test_process (Some ''a'')) (Inl e)"
proof -
  have "null_rule \<lparr>pc_Rules = [(''a'', Some (test_rule '''' '''' 2)), (''b'', None)], pc_Regions = cf_regions test_config,
      pc_HobRegions = [], pc_ConfigVersion = 1, pc_HobModes = []\<rparr>"
    by (simp add: null_rule_def)
  then have "\<exists>raw p. raw \<noteq> '''' \<and> sp_unmarshal test_platform raw = Some p \<and> null_rule p"
    by (intro exI [of _ "''null''"]) (simp add: test_platform_def test_unmarshal_def)
  with process_crashes [of test_platform "test_process (Some ''a'')"] show ?thesis
    by (simp add: test_process_def initial_goroutines_def)
qed

text \<open>C13: \<open>Kill\<close> comes back, as long as the goroutines take the way out when they are at their \<open>select\<close>: from
  any reachable state in which it was called, on a host whose zone is known, no sequence of such steps is
  longer than \<open>shutdown_left\<close>, and one that cannot go on has brought \<open>Kill\<close> to its end.\<close>

theorem kill_returns:
  assumes "tomb_ok (sp_tombs P) alive" and "sys_reachable P b s" and "bo_az b \<noteq> None" and "sy_kill s \<noteq> None"
    and "(shutdown_step P ^^ n) s s'"
  shows "n \<le> shutdown_left s \<and> (sy_kill s' = Some [] \<or> (\<exists>s''. shutdown_step P s' s''))"
proof -
  have run: "n + shutdown_left s' \<le> shutdown_left s \<and> sys_reachable P b s' \<and> sy_kill s' \<noteq> None"
    using assms(5)
  proof (induction n arbitrary: s')
    case (Suc n)
    then obtain u where u: "(shutdown_step P ^^ n) s u" "shutdown_step P u s'" by auto
    have "sy_kill s' \<noteq> None"
      using u(2) Suc.IH [OF u(1)] by (cases rule: shutdown_step.cases) (auto simp: goroutine_return_def elim: kill_stepE)
    with Suc.IH [OF u(1)] shutdown_decreases [OF u(2)] shutdown_sys_step [OF u(2)] show ?case
      by (auto intro: sys_reachable.step)
  qed (use assms in simp)
  then obtain ops where ops: "sy_kill s' = Some ops" by auto
  have inv: "tombs_inv P alive b s'" using reachable_tombs [OF assms(1)] run by blast
  have "\<exists>s''. shutdown_step P s' s''" if op: "ops = op # rest" for op rest
  proof (cases op)
    case (Kill_Tomb t)
    with ops op show ?thesis by (blast intro: shutdown_step.op kill_step.kill)
  next
    case (Wait_Tomb t)
    show ?thesis
    proof (cases "tb_dead (sp_tombs P) (sy_tombs s' t)")
      case True
      with ops op Wait_Tomb show ?thesis by (blast intro: shutdown_step.op kill_step.wait)
    next
      case False
      have "tracked (initial_goroutines b) t \<noteq> 0"
        using assms(3) by (cases t) (simp_all add: tracked_def initial_goroutines_def monitored_def)
      with False inv obtain g where g: "g \<in> set (sy_running s')" "tomb_of g = t"
        by (auto simp: tombs_inv_def tracked_0)
      have "tb_dying (sp_tombs P) (sy_tombs s' t)"
        using inv waiting_dying [of "sp_tombs P" "sy_tombs s'" s' t rest] ops op Wait_Tomb by (simp add: tombs_inv_def)
      with g show ?thesis by (intro goroutine_progress [of g]) (simp_all add: dying_of_def)
    qed
  qed
  with ops run show ?thesis by (cases ops) auto
qed

theorem kill_returns_witness:
  "(shutdown_step test_platform ^^ 11) (test_killed (Some ''a'')) test_end \<and> sy_kill test_end = Some [] \<and>
   11 \<le> shutdown_left (test_killed (Some ''a''))"
  using kill_returns [OF test_platform_ok(1) test_killed_reachable _ _ shutdown_run_steps [OF test_end(1)]] test_end(2)
    shutdown_run_steps [OF test_end(1)]
  by (simp add: test_boot_def test_killed_def)

text \<open>When \<open>Kill\<close> has returned no goroutine is left. The server goes on serving, from then on always with
  the same configuration, the same filter, the same list of throttled sessions and the same health.\<close>

theorem killed_for_good:
  assumes "tomb_ok (sp_tombs P) alive" and "sys_reachable P b s" and "sy_kill s = Some []"
    and "(\<lambda>s s'. sys_step P s (Inr s'))\<^sup>*\<^sup>* s s'"
  shows "sy_running s' = [] \<and> sy_control s' = sy_control s \<and> sy_pci s' = sy_pci s \<and>
    th_throttled (sy_throttler s') = th_throttled (sy_throttler s) \<and> sy_monitor s' = sy_monitor s"
  using assms(4)
proof (induction rule: rtranclp_induct)
  case base
  have inv: "tombs_inv P alive b s" by (rule reachable_tombs [OF assms(1,2)])
  then have "tb_dead (sp_tombs P) (sy_tombs s t)" for t
    using assms(3) by (cases t) (auto simp: tombs_inv_def kill_ok_def Kill_ops_def)
  with inv have "g \<notin> set (sy_running s)" for g
    by (auto simp: tombs_inv_def tracked_0)
  then have "sy_running s = []" by (cases "sy_running s") auto
  then show ?case by simp
next
  case (step u v)
  from step(2) show ?case
  proof (cases rule: sys_step.cases)
    case request
    with flight_frame step.IH show ?thesis by metis
  qed (use step.IH in \<open>auto simp: mappings_reload_def elim!: kill_stepE\<close>)
qed

theorem killed_for_good_witness:
  "let s = run_request test_server 3 (rpc_request '''') test_end in sy_running s = [] \<and> sy_control s = sy_control test_end"
proof -
  have r: "sys_reachable test_platform (test_boot (Some ''a'')) test_end"
    by (rule shutdown_reachable [OF shutdown_run_steps [OF test_end(1)] test_killed_reachable])
  from killed_for_good [OF test_platform_ok(1) r test_end(2) run_request_steps] show ?thesis unfolding Let_def by blast
qed

text \<open>C40: On a host whose zone cannot be told no monitor is started, and its tomb, with no goroutine to end,
  never becomes dead: \<open>Kill\<close> waits for ever.\<close>

theorem kill_hangs_without_zone:
  assumes "tomb_ok (sp_tombs P) alive" and "sys_reachable P b s" and "bo_az b = None"
  shows "sy_kill s \<noteq> Some []"
proof
  assume k: "sy_kill s = Some []"
  have inv: "tombs_inv P alive b s" by (rule reachable_tombs [OF assms(1,2)])
  with k have "tb_dead (sp_tombs P) (sy_tombs s Monitor_Tomb)"
    by (auto simp: tombs_inv_def kill_ok_def Kill_ops_def)
  with inv assms(3) show False by (simp add: tombs_inv_def tracked_def initial_goroutines_def monitored_def)
qed

theorem kill_hangs_without_zone_witness:
  "sys_reachable test_platform (test_boot None) (test_killed None) \<and> sy_kill (test_killed None) \<noteq> Some []"
  using kill_hangs_without_zone [OF test_platform_ok(1) test_killed_reachable] test_killed_reachable
  by (simp add: test_boot_def)

end
