(* ===== verification/Load_Race.thy ===== *)
theory Load_Race
  imports Control_Plane
begin

text \<open>
  Loading beside loading. \<open>New\<close> of \<open>src/controlplane/controlplane.go\<close> starts the goroutine that reloads
  the configuration on every change, and then calls \<open>tryLoad\<close> itself, without the lock of \<open>loadCycle\<close>.
  Here \<open>tryLoad\<close> is cut into the accesses other goroutines can see: it reads the raw configuration,
  compares hashes, saves the copy (what others see of that is the renaming) and stores the pointer.

  The configuration service holds one raw configuration; publishing another one leaves a notification in
  the channel. \<open>First\<close> is the load of \<open>New\<close>, \<open>Reload\<close> the goroutine. With the argument \<open>serial\<close> the
  goroutine takes its first notification only when the first load is over; the code does not see to that.
\<close>

section \<open>One load\<close>

text \<open>The part of \<open>tryLoad\<close> that depends on the raw configuration and the order of the \<open>range\<close> only.\<close>

definition checked_config ::
    "(string \<Rightarrow> parsed_config option) \<Rightarrow> hasher \<Rightarrow> nat list \<Rightarrow> string \<Rightarrow> panic + load_error + cp_config" where
  "checked_config unmarshal hash ns raw =
     (if raw = '''' then Inr (Inl ZeroLength)
      else (case unmarshal raw of
        None \<Rightarrow> Inr (Inl BadJson)
      | Some p \<Rightarrow>
        (case Rules_Sort (range_order ns (pc_Rules p)) of
          Inl e \<Rightarrow> Inl e
        | Inr srt \<Rightarrow>
          (let version = int64_of_f64 (pc_ConfigVersion p)
           in if \<not> SortedRules_Validate srt then Inr (Inl NoRules)
              else if \<not> Regions_Validate (pc_Regions p) then Inr (Inl NoRegions)
              else Inr (Inr \<lparr>cf_rules = srt, cf_regions = pc_Regions p, cf_hobRegions = pc_HobRegions p,
                cf_hobModes = pc_HobModes p, cf_version = version,
                cf_hash = hash (srt, pc_Regions p, pc_HobRegions p, version, pc_HobModes p)\<rparr>)))))"

datatype loader =
    LRead | LCheck string | LSave string cp_config | LStore cp_config
  | LDone | LFailed | LStopped

text \<open>The next access of a load; \<open>raw\<close> is what the service holds, \<open>ns\<close> the order of the \<open>range\<close> over the
  rules, \<open>fails\<close> and \<open>part\<close> what the disk does.\<close>

definition loader_next ::
    "(string \<Rightarrow> parsed_config option) \<Rightarrow> hasher \<Rightarrow> nat list \<Rightarrow> (fs_op \<Rightarrow> bool) \<Rightarrow> string \<Rightarrow> string \<Rightarrow> loader \<times> control_plane
       \<Rightarrow> panic + loader \<times> control_plane" where
  "loader_next unmarshal hash ns fails part raw lc =
     (case lc of (l, cp) \<Rightarrow>
       (case l of
          LRead \<Rightarrow> Inr (LCheck raw, cp)
        | LCheck r \<Rightarrow>
            (case checked_config unmarshal hash ns r of
               Inl e \<Rightarrow> Inl e
             | Inr (Inl err) \<Rightarrow> Inr (LFailed, cp)
             | Inr (Inr c) \<Rightarrow> if cf_hash c = currentHash cp then Inr (LDone, cp) else Inr (LSave r c, cp))
        | LSave r c \<Rightarrow> Inr (LStore c, cp\<lparr>cp_fs := snd (saveConfigToFile fails part r (cp_fs cp))\<rparr>)
        | LStore c \<Rightarrow> Inr (LDone, cp\<lparr>cp_loaded := Some c\<rparr>)
        | _ \<Rightarrow> Inr (l, cp)))"

definition busy :: "loader \<Rightarrow> bool" where
  "busy l \<longleftrightarrow> l \<notin> {LDone, LFailed, LStopped}"

section \<open>Two of them\<close>

record load_state =
  ls_raw :: string
  ls_pending :: bool
  ls_cp :: control_plane
  ls_first :: loader
  ls_reload :: loader
  lg_published :: "string list"

definition load_start :: "string \<Rightarrow> file_system \<Rightarrow> load_state" where
  "load_start raw fs = \<lparr>ls_raw = raw, ls_pending = False, ls_cp = new_cp fs, ls_first = LRead, ls_reload = LDone,
     lg_published = [raw]\<rparr>"

inductive load_step ::
    "(string \<Rightarrow> parsed_config option) \<Rightarrow> hasher \<Rightarrow> bool \<Rightarrow> load_state \<Rightarrow> panic + load_state \<Rightarrow> bool"
  for unmarshal :: "string \<Rightarrow> parsed_config option" and hash :: hasher and serial :: bool where
  publish: "load_step unmarshal hash serial s
    (Inr (s\<lparr>ls_raw := raw, ls_pending := True, lg_published := lg_published s @ [raw]\<rparr>))"
| first: "busy (ls_first s) \<Longrightarrow> loader_next unmarshal hash ns fails part (ls_raw s) (ls_first s, ls_cp s) = Inr (l, cp) \<Longrightarrow>
    load_step unmarshal hash serial s (Inr (s\<lparr>ls_first := l, ls_cp := cp\<rparr>))"
| first_panic: "busy (ls_first s) \<Longrightarrow> loader_next unmarshal hash ns fails part (ls_raw s) (ls_first s, ls_cp s) = Inl e \<Longrightarrow>
    load_step unmarshal hash serial s (Inl e)"
| notified: "ls_reload s = LDone \<Longrightarrow> ls_pending s \<Longrightarrow> serial \<longrightarrow> \<not> busy (ls_first s) \<Longrightarrow>
    load_step unmarshal hash serial s (Inr (s\<lparr>ls_reload := LRead, ls_pending := False\<rparr>))"
| retry: "ls_reload s = LFailed \<Longrightarrow> load_step unmarshal hash serial s (Inr (s\<lparr>ls_reload := LRead\<rparr>))"
| dying: "ls_reload s \<in> {LDone, LFailed} \<Longrightarrow> load_step unmarshal hash serial s (Inr (s\<lparr>ls_reload := LStopped\<rparr>))"
| reload: "busy (ls_reload s) \<Longrightarrow> loader_next unmarshal hash ns fails part (ls_raw s) (ls_reload s, ls_cp s) = Inr (l, cp) \<Longrightarrow>
    load_step unmarshal hash serial s (Inr (s\<lparr>ls_reload := l, ls_cp := cp\<rparr>))"
| reload_panic: "busy (ls_reload s) \<Longrightarrow> loader_next unmarshal hash ns fails part (ls_raw s) (ls_reload s, ls_cp s) = Inl e \<Longrightarrow>
    load_step unmarshal hash serial s (Inl e)"

inductive load_reachable ::
    "(string \<Rightarrow> parsed_config option) \<Rightarrow> hasher \<Rightarrow> bool \<Rightarrow> load_state \<Rightarrow> load_state \<Rightarrow> bool"
  for unmarshal :: "string \<Rightarrow> parsed_config option" and hash :: hasher and serial :: bool and s0 :: load_state where
  start: "load_reachable unmarshal hash serial s0 s0"
| step: "load_reachable unmarshal hash serial s0 s \<Longrightarrow> load_step unmarshal hash serial s (Inr s') \<Longrightarrow>
    load_reachable unmarshal hash serial s0 s'"

definition settled :: "load_state \<Rightarrow> bool" where
  "settled s \<longleftrightarrow> \<not> busy (ls_first s) \<and> ls_reload s = LDone \<and> \<not> ls_pending s"

section \<open>Lemmas\<close>

lemma busy_simps [simp]:
  "busy LRead" "busy (LCheck r)" "busy (LSave r c)" "busy (LStore c)"
  "\<not> busy LDone" "\<not> busy LFailed" "\<not> busy LStopped"
  by (simp_all add: busy_def)

text \<open>A load that nobody disturbs is \<open>tryLoad\<close>.\<close>

lemma checked_loadable: "(\<exists>c. checked_config unmarshal hash ns raw = Inr (Inr c)) \<longleftrightarrow> loadable unmarshal raw"
proof -
  have "(\<exists>c. checked_config unmarshal hash ns raw = Inr (Inr c)) \<longleftrightarrow>
      (\<exists>cp'. tryLoad unmarshal hash \<lparr>at_dying = False, at_raw = raw, at_range = ns, at_fails = (\<lambda>_. False), at_part = ''''\<rparr>
        (new_cp \<lparr>fs_target = None, fs_temps = []\<rparr>) = Inr (None, cp'))"
    by (auto simp: tryLoad_def checked_config_def Let_def split: option.splits sum.splits)
  then show ?thesis
    using tryLoad_installs [of unmarshal "\<lparr>at_dying = False, at_raw = raw, at_range = ns, at_fails = (\<lambda>_. False), at_part = ''''\<rparr>"
        hash "new_cp \<lparr>fs_target = None, fs_temps = []\<rparr>"] by simp
qed

text \<open>A configuration some load of the text can give: which one depends on the order of tied rules only.\<close>

definition config_of :: "(string \<Rightarrow> parsed_config option) \<Rightarrow> hasher \<Rightarrow> string \<Rightarrow> cp_config \<Rightarrow> bool" where
  "config_of unmarshal hash raw c \<longleftrightarrow> (\<exists>ns. checked_config unmarshal hash ns raw = Inr (Inr c))"

definition hashes :: "hasher \<Rightarrow> bool" where
  "hashes hash \<longleftrightarrow> (\<forall>x. hash x \<noteq> '''')"

lemma config_of_loadable: "config_of unmarshal hash raw c \<Longrightarrow> loadable unmarshal raw"
  using checked_loadable unfolding config_of_def by blast

lemma config_of_parts:
  assumes "config_of unmarshal hash raw c"
  obtains p ns where "unmarshal raw = Some p" and "Rules_Sort (range_order ns (pc_Rules p)) = Inr (cf_rules c)"
    and "cf_regions c = pc_Regions p" and "cf_hobRegions c = pc_HobRegions p" and "cf_hobModes c = pc_HobModes p"
    and "cf_version c = int64_of_f64 (pc_ConfigVersion p)"
    and "cf_hash c = hash (cf_rules c, cf_regions c, cf_hobRegions c, cf_version c, cf_hobModes c)"
  using assms unfolding config_of_def checked_config_def
  by (auto simp: Let_def split: if_splits option.splits sum.splits)

lemma config_of_hash: "hashes hash \<Longrightarrow> config_of unmarshal hash raw c \<Longrightarrow> cf_hash c \<noteq> ''''"
  by (erule config_of_parts) (simp add: hashes_def)

text \<open>Two loads of one text differ in the order of rules of the same rank only.\<close>

definition same_up_to_ties :: "cp_config \<Rightarrow> cp_config \<Rightarrow> bool" where
  "same_up_to_ties c d \<longleftrightarrow>
     mset (cf_rules c) = mset (cf_rules d) \<and> cf_regions c = cf_regions d \<and> cf_hobRegions c = cf_hobRegions d \<and>
     cf_hobModes c = cf_hobModes d \<and> cf_version c = cf_version d"

lemma config_of_same:
  assumes "config_of unmarshal hash raw c" and "config_of unmarshal hash raw d"
  shows "same_up_to_ties c d"
    and "(\<And>p. unmarshal raw = Some p \<Longrightarrow> ranks_differ (pc_Rules p)) \<Longrightarrow> d = c"
proof -
  obtain p ns where c: "unmarshal raw = Some p" "Rules_Sort (range_order ns (pc_Rules p)) = Inr (cf_rules c)"
    "cf_regions c = pc_Regions p" "cf_hobRegions c = pc_HobRegions p" "cf_hobModes c = pc_HobModes p"
    "cf_version c = int64_of_f64 (pc_ConfigVersion p)"
    "cf_hash c = hash (cf_rules c, cf_regions c, cf_hobRegions c, cf_version c, cf_hobModes c)"
    using assms(1) by (rule config_of_parts)
  obtain q ms where d: "unmarshal raw = Some q" "Rules_Sort (range_order ms (pc_Rules q)) = Inr (cf_rules d)"
    "cf_regions d = pc_Regions q" "cf_hobRegions d = pc_HobRegions q" "cf_hobModes d = pc_HobModes q"
    "cf_version d = int64_of_f64 (pc_ConfigVersion q)"
    "cf_hash d = hash (cf_rules d, cf_regions d, cf_hobRegions d, cf_version d, cf_hobModes d)"
    using assms(2) by (rule config_of_parts)
  have q: "q = p" using c(1) d(1) by simp
  show same: "same_up_to_ties c d"
    using Rules_Sort_order(2) [OF c(2), of ms] d(2) by (simp add: same_up_to_ties_def c(3-6) d(3-6) q)
  show "d = c" if "\<And>p. unmarshal raw = Some p \<Longrightarrow> ranks_differ (pc_Rules p)"
  proof -
    have "cf_rules d = cf_rules c" using Rules_Sort_unique [OF that [OF c(1)] c(2)] d(2) q by blast
    with same c(7) d(7) show ?thesis by (intro cp_config.equality) (simp_all add: same_up_to_ties_def)
  qed
qed

text \<open>The other way round: rules of the same rank can change places.\<close>

lemma Rules_Sort_reaches:
  assumes "map snd rs = map Some qs" and "mset zs = mset qs" and "rules_ordered zs"
  shows "\<exists>ns. Rules_Sort (range_order ns rs) = Inr (map Some zs)"
proof -
  have "mset (map Some zs) = mset (map snd rs)" unfolding assms(1) using assms(2) by simp
  then obtain rs' where rs': "mset rs' = mset rs" "map snd rs' = map Some zs" using mset_map_lift by metis
  obtain ns where "range_order ns rs = rs'" using range_order_any [OF rs'(1)] ..
  with rs'(2) sort_rules_ordered [of "[]" zs] assms(3) show ?thesis
    by (intro exI [of _ ns]) (simp add: Rules_Sort_insertion)
qed

lemma ordered_ranks:
  assumes "rules_ordered zs" and "i < length zs" and "j < length zs"
    and "\<not> rule_less (zs ! i) (zs ! j)" and "\<not> rule_less (zs ! j) (zs ! i)"
  shows "rules_ordered (zs[i := zs ! j, j := zs ! i])"
proof -
  define rank where "rank r = (r_Weight r, Specificity (Some r))" for r
  have less: "rule_less a b \<longleftrightarrow> (fst (rank a) > fst (rank b) \<or> fst (rank a) = fst (rank b) \<and> snd (rank a) > snd (rank b))" for a b
    by (auto simp: rule_less_def rank_def)
  have same: "rank (zs ! i) = rank (zs ! j)"
    using assms(4,5) by (auto simp: less intro!: prod_eqI)
  have map: "map rank (zs[i := zs ! j, j := zs ! i]) = map rank zs"
    using assms(2,3) same by (auto simp: map_update intro!: nth_equalityI simp: nth_list_update)
  have ord: "rules_ordered xs \<longleftrightarrow>
      sorted_wrt (\<lambda>a b. \<not> (fst b > fst a \<or> fst b = fst a \<and> snd b > snd a)) (map rank xs)" for xs
    by (simp add: sorted_wrt_map less)
  show ?thesis unfolding ord map by (rule assms(1) [unfolded ord])
qed

lemma tied_orders:
  assumes "map snd rs = map Some qs" and "\<not> ranks_differ rs"
  shows "\<exists>ns ms zs zs'. Rules_Sort (range_order ns rs) = Inr zs \<and> Rules_Sort (range_order ms rs) = Inr zs' \<and> zs \<noteq> zs'"
proof -
  have "snd ` set rs = Some ` set qs" by (metis assms(1) set_map)
  then obtain x y where xy: "x \<in> set qs" "y \<in> set qs" "x \<noteq> y" "\<not> rule_less x y" "\<not> rule_less y x"
    using assms(2) by (auto simp: ranks_differ_def)
  obtain zs where zs: "mset zs = mset qs" "rules_ordered zs"
    using Rules_Sort_Some [OF assms(1)] by blast
  then have "x \<in> set zs" "y \<in> set zs" using xy by (metis set_mset_mset)+
  then obtain i j where ij: "i < length zs" "zs ! i = x" "j < length zs" "zs ! j = y" by (metis in_set_conv_nth)
  let ?zs = "zs[i := zs ! j, j := zs ! i]"
  have "mset ?zs = mset qs" using mset_swap [OF ij(3,1)] zs(1) by simp
  moreover have "rules_ordered ?zs" by (rule ordered_ranks [OF zs(2) ij(1,3)]) (use xy ij in auto)
  ultimately obtain ms where "Rules_Sort (range_order ms rs) = Inr (map Some ?zs)"
    using Rules_Sort_reaches [OF assms(1)] by blast
  moreover obtain ns where "Rules_Sort (range_order ns rs) = Inr (map Some zs)"
    using Rules_Sort_reaches [OF assms(1) zs] by blast
  moreover have "i \<noteq> j" using ij xy(3) by auto
  then have "?zs ! i \<noteq> zs ! i" using ij xy(3) by simp
  then have "map Some zs \<noteq> map Some ?zs" using ij(1) by (metis map_injective [OF _ inj_Some])
  ultimately show ?thesis by blast
qed

lemma config_of_valid: "config_of unmarshal hash raw c \<Longrightarrow> config_valid c"
proof -
  assume c: "config_of unmarshal hash raw c"
  then obtain p ns where p: "unmarshal raw = Some p" "Rules_Sort (range_order ns (pc_Rules p)) = Inr (cf_rules c)"
    "cf_regions c = pc_Regions p" by (rule config_of_parts)
  have "pc_Rules p \<noteq> [] \<and> pc_Regions p \<noteq> []" using config_of_loadable [OF c] p(1) by (simp add: loadable_def)
  moreover have "length (cf_rules c) = length (pc_Rules p)"
    using mset_eq_length [OF Rules_Sort_order(1) [OF p(2)]] by simp
  ultimately show ?thesis using Rules_Sort_cases [OF p(2)] p(3) by (auto simp: config_valid_def)
qed

lemma config_of_rules:
  assumes "loadable unmarshal raw" and "unmarshal raw = Some p" and "Rules_Sort (range_order ns (pc_Rules p)) = Inr srt"
  shows "\<exists>c. config_of unmarshal hash raw c \<and> cf_rules c = srt"
proof -
  obtain c where c: "checked_config unmarshal hash ns raw = Inr (Inr c)" using checked_loadable assms(1) by blast
  then have "cf_rules c = srt"
    using assms(2,3) by (auto simp: checked_config_def Let_def split: if_splits)
  with c show ?thesis unfolding config_of_def by blast
qed

lemma tryLoad_checked:
  "tryLoad unmarshal hash a cp =
     (case checked_config unmarshal hash (at_range a) (at_raw a) of
        Inl e \<Rightarrow> Inl e
      | Inr (Inl err) \<Rightarrow> Inr (Some err, cp)
      | Inr (Inr c) \<Rightarrow>
          if cf_hash c = currentHash cp then Inr (None, cp)
          else Inr (None, cp\<lparr>cp_loaded := Some c,
            cp_fs := snd (saveConfigToFile (at_fails a) (at_part a) (at_raw a) (cp_fs cp))\<rparr>))"
  by (simp add: tryLoad_def checked_config_def Let_def split: option.split sum.split)

fun loader_run ::
    "nat \<Rightarrow> (string \<Rightarrow> parsed_config option) \<Rightarrow> hasher \<Rightarrow> nat list \<Rightarrow> (fs_op \<Rightarrow> bool) \<Rightarrow> string \<Rightarrow> string \<Rightarrow> loader \<times> control_plane
       \<Rightarrow> panic + loader \<times> control_plane" where
  "loader_run 0 unmarshal hash ns fails part raw lc = Inr lc"
| "loader_run (Suc n) unmarshal hash ns fails part raw lc =
     (case loader_next unmarshal hash ns fails part raw lc of
        Inl e \<Rightarrow> Inl e
      | Inr lc' \<Rightarrow> loader_run n unmarshal hash ns fails part raw lc')"

lemma loader_alone:
  "loader_run 4 unmarshal hash (at_range a) (at_fails a) (at_part a) (at_raw a) (LRead, cp) =
     (case tryLoad unmarshal hash a cp of
        Inl e \<Rightarrow> Inl e
      | Inr (err, cp') \<Rightarrow> Inr (if err = None then LDone else LFailed, cp'))"
  by (auto simp: numeral_eq_Suc loader_next_def tryLoad_checked split: sum.split)

text \<open>Everything that is being loaded, is loaded or is on disk was published and checked.\<close>

definition published_config :: "(string \<Rightarrow> parsed_config option) \<Rightarrow> hasher \<Rightarrow> string list \<Rightarrow> cp_config \<Rightarrow> bool" where
  "published_config unmarshal hash rs c \<longleftrightarrow> (\<exists>r\<in>set rs. config_of unmarshal hash r c)"

definition loader_ok :: "(string \<Rightarrow> parsed_config option) \<Rightarrow> hasher \<Rightarrow> string list \<Rightarrow> loader \<Rightarrow> bool" where
  "loader_ok unmarshal hash rs l =
     (case l of
        LCheck r \<Rightarrow> r \<in> set rs
      | LSave r c \<Rightarrow> r \<in> set rs \<and> config_of unmarshal hash r c
      | LStore c \<Rightarrow> published_config unmarshal hash rs c
      | _ \<Rightarrow> True)"

definition plane_ok ::
    "(string \<Rightarrow> parsed_config option) \<Rightarrow> hasher \<Rightarrow> string option \<Rightarrow> string list \<Rightarrow> control_plane \<Rightarrow> bool" where
  "plane_ok unmarshal hash disk rs cp \<longleftrightarrow>
     (\<forall>c. cp_loaded cp = Some c \<longrightarrow> published_config unmarshal hash rs c) \<and>
     (fs_target (cp_fs cp) = disk \<or>
      (\<exists>r\<in>set rs. fs_target (cp_fs cp) = Some r \<and> loadable unmarshal r))"

lemma ok_mono:
  assumes "set rs \<subseteq> set rs'"
  shows "loader_ok unmarshal hash rs l \<Longrightarrow> loader_ok unmarshal hash rs' l"
    and "plane_ok unmarshal hash disk rs cp \<Longrightarrow> plane_ok unmarshal hash disk rs' cp"
  using assms unfolding loader_ok_def plane_ok_def published_config_def by (auto split: loader.splits) blast+

lemma loader_next_ok:
  assumes "loader_next unmarshal hash ns fails part raw (l, cp) = Inr (l', cp')" and "raw \<in> set rs"
    and "loader_ok unmarshal hash rs l" and "plane_ok unmarshal hash disk rs cp"
  shows "loader_ok unmarshal hash rs l' \<and> plane_ok unmarshal hash disk rs cp'"
proof (cases l)
  case (LCheck r)
  have "config_of unmarshal hash r c" if "checked_config unmarshal hash ns r = Inr (Inr c)" for c
    using that unfolding config_of_def by blast
  with LCheck assms show ?thesis
    by (auto simp: loader_next_def loader_ok_def split: sum.splits if_splits)
next
  case (LSave r c)
  have "fs_target (snd (saveConfigToFile fails part r (cp_fs cp))) \<in> {fs_target (cp_fs cp), Some r}"
    using save_atomic [of fails part r "cp_fs cp"] by (metis insertI1 insertI2 prod.collapse)
  with LSave assms config_of_loadable [of unmarshal hash r c] show ?thesis
    by (auto simp: loader_next_def loader_ok_def plane_ok_def published_config_def)
qed (use assms in \<open>auto simp: loader_next_def loader_ok_def plane_ok_def published_config_def
    split: sum.splits if_splits\<close>)

definition load_inv :: "(string \<Rightarrow> parsed_config option) \<Rightarrow> hasher \<Rightarrow> string \<Rightarrow> string option \<Rightarrow> load_state \<Rightarrow> bool" where
  "load_inv unmarshal hash raw disk s \<longleftrightarrow>
     lg_published s \<noteq> [] \<and> ls_raw s = last (lg_published s) \<and> hd (lg_published s) = raw \<and>
     loader_ok unmarshal hash (lg_published s) (ls_first s) \<and> loader_ok unmarshal hash (lg_published s) (ls_reload s) \<and>
     plane_ok unmarshal hash disk (lg_published s) (ls_cp s)"

lemma load_inv_raw: "load_inv unmarshal hash raw disk s \<Longrightarrow> ls_raw s \<in> set (lg_published s)"
  by (simp add: load_inv_def)

lemma load_inv_step:
  assumes "load_inv unmarshal hash raw disk s" and "load_step unmarshal hash serial s (Inr s')"
  shows "load_inv unmarshal hash raw disk s'"
  using assms(2)
proof (cases rule: load_step.cases)
  case (publish new)
  have "set (lg_published s) \<subseteq> set (lg_published s @ [new])" by auto
  from ok_mono [OF this] assms(1) show ?thesis by (simp add: publish load_inv_def)
next
  case (first ns fails part l cp)
  from loader_next_ok [OF first(3) load_inv_raw [OF assms(1)], of disk] assms(1) first(1)
  show ?thesis unfolding load_inv_def by simp
next
  case (reload ns fails part l cp)
  from loader_next_ok [OF reload(3) load_inv_raw [OF assms(1)], of disk] assms(1) reload(1)
  show ?thesis unfolding load_inv_def by simp
qed (use assms(1) in \<open>simp_all add: load_inv_def loader_ok_def\<close>)

lemma load_start_inv: "load_inv unmarshal hash raw (fs_target fs) (load_start raw fs)"
  by (simp add: load_inv_def load_start_def loader_ok_def plane_ok_def new_cp_def)

text \<open>A load that is not late: what it works on is what the service holds now; once it is over, the
  configuration in use has the hash of that one, or it has failed on it.\<close>

definition on_time :: "(string \<Rightarrow> parsed_config option) \<Rightarrow> hasher \<Rightarrow> string \<Rightarrow> control_plane \<Rightarrow> loader \<Rightarrow> bool" where
  "on_time unmarshal hash raw cp l =
     (case l of
        LRead \<Rightarrow> True
      | LCheck r \<Rightarrow> r = raw
      | LSave r c \<Rightarrow> config_of unmarshal hash raw c
      | LStore c \<Rightarrow> config_of unmarshal hash raw c
      | LDone \<Rightarrow> \<exists>c. config_of unmarshal hash raw c \<and> currentHash cp = cf_hash c
      | LFailed \<Rightarrow> \<not> loadable unmarshal raw
      | LStopped \<Rightarrow> True)"

lemma on_time_next:
  assumes "loader_next unmarshal hash ns fails part raw (l, cp) = Inr (l', cp')" and "busy l"
    and "on_time unmarshal hash raw cp l"
  shows "on_time unmarshal hash raw cp' l'"
proof (cases l)
  case (LCheck r)
  with assms(3) have r: "r = raw" by (simp add: on_time_def)
  have c: "config_of unmarshal hash raw c" if "checked_config unmarshal hash ns raw = Inr (Inr c)" for c
    using that unfolding config_of_def by blast
  have f: "\<not> loadable unmarshal raw" if "checked_config unmarshal hash ns raw = Inr (Inl e)" for e
    using that checked_loadable [of unmarshal hash ns raw] by auto
  show ?thesis
    using assms(1) c f
    by (auto simp: LCheck r loader_next_def on_time_def split: sum.splits if_splits)
qed (use assms in \<open>auto simp: loader_next_def on_time_def currentHash_def loadedConfig_def\<close>)

lemma loader_next_end:
  assumes "loader_next unmarshal hash ns fails part raw (l, cp) = Inr (l', cp')" and "busy l"
  shows "l' \<noteq> LStopped" and "busy l' \<or> l' = LFailed \<Longrightarrow> cp_loaded cp' = cp_loaded cp"
  using assms by (cases l; auto simp: loader_next_def split: sum.splits if_splits)+

text \<open>With the goroutine held back, it is on time, or a notification is waiting; at first nothing is loaded.\<close>

definition first_failed :: "(string \<Rightarrow> parsed_config option) \<Rightarrow> load_state \<Rightarrow> bool" where
  "first_failed unmarshal s \<longleftrightarrow>
     lg_published s = [ls_raw s] \<and> \<not> loadable unmarshal (ls_raw s) \<and> cp_loaded (ls_cp s) = None"

definition conv_inv :: "(string \<Rightarrow> parsed_config option) \<Rightarrow> hasher \<Rightarrow> load_state \<Rightarrow> bool" where
  "conv_inv unmarshal hash s \<longleftrightarrow>
     (if busy (ls_first s)
      then ls_reload s \<in> {LDone, LStopped} \<and> cp_loaded (ls_cp s) = None \<and>
        (ls_pending s \<or> lg_published s = [ls_raw s] \<and> on_time unmarshal hash (ls_raw s) (ls_cp s) (ls_first s))
      else ls_reload s = LStopped \<or> ls_pending s \<or>
        on_time unmarshal hash (ls_raw s) (ls_cp s) (ls_reload s) \<or>
        (ls_reload s = LDone \<and> first_failed unmarshal s))"

lemma conv_inv_first:
  assumes "conv_inv unmarshal hash s" and "busy (ls_first s)"
    and "loader_next unmarshal hash ns fails part (ls_raw s) (ls_first s, ls_cp s) = Inr (l, cp)"
  shows "conv_inv unmarshal hash (s\<lparr>ls_first := l, ls_cp := cp\<rparr>)"
proof -
  note e = loader_next_end [OF assms(3,2)]
  have t: "on_time unmarshal hash (ls_raw s) cp l" if "\<not> ls_pending s"
    using on_time_next [OF assms(3,2)] assms(1,2) that by (auto simp: conv_inv_def)
  consider "busy l" | "l = LDone" | "l = LFailed" using e(1) by (cases l) auto
  then show ?thesis
  proof cases
    case 1
    with e(2) t assms(1,2) show ?thesis by (auto simp: conv_inv_def)
  next
    case 2
    with t assms(1,2) show ?thesis by (auto simp: conv_inv_def)
  next
    case 3
    with e(2) t assms(1,2) show ?thesis by (auto simp: conv_inv_def first_failed_def on_time_def)
  qed
qed

lemma conv_inv_step:
  assumes "conv_inv unmarshal hash s" and "load_step unmarshal hash True s (Inr s')"
  shows "conv_inv unmarshal hash s'"
  using assms(2)
proof (cases rule: load_step.cases)
  case (first ns fails part l cp)
  with assms(1) conv_inv_first show ?thesis by blast
next
  case (reload ns fails part l cp)
  then have "\<not> busy (ls_first s)" using assms(1) by (auto simp: conv_inv_def split: if_splits)
  with reload assms(1) on_time_next [OF reload(3,2)] show ?thesis by (auto simp: conv_inv_def)
qed (use assms(1) in \<open>auto simp: conv_inv_def on_time_def [of _ _ _ _ LRead]\<close>)

lemma load_reachable_inv:
  assumes "load_reachable unmarshal hash serial (load_start raw fs) s"
  shows "load_inv unmarshal hash raw (fs_target fs) s"
    and "serial \<Longrightarrow> conv_inv unmarshal hash s"
  using assms
proof (induction rule: load_reachable.induct)
  case start
  { case 1 show ?case by (rule load_start_inv) next
    case 2 show ?case by (simp add: conv_inv_def load_start_def on_time_def new_cp_def) }
next
  case (step s s')
  { case 1 show ?case by (rule load_inv_step [OF step.IH(1) step.hyps(2)]) next
    case 2
    with step.hyps(2) have "load_step unmarshal hash True s (Inr s')" by simp
    from conv_inv_step [OF step.IH(2) [OF 2] this] show ?case . }
qed

text \<open>Chains of steps of one load, when every file operation succeeds.\<close>

lemma first_steps:
  assumes "load_reachable unmarshal hash serial s0 s" and "ls_first s = l" and "busy l"
    and "loader_next unmarshal hash ns (\<lambda>_. False) '''' (ls_raw s) (l, ls_cp s) = Inr (l', cp)"
  shows "load_reachable unmarshal hash serial s0 (s\<lparr>ls_first := l', ls_cp := cp\<rparr>)"
  by (rule load_reachable.step [OF assms(1)], rule load_step.first [where ns = ns and fails = "\<lambda>_. False" and part = "''''"])
    (use assms in simp_all)

lemma reload_steps:
  assumes "load_reachable unmarshal hash serial s0 s" and "ls_reload s = l" and "busy l"
    and "loader_next unmarshal hash ns (\<lambda>_. False) '''' (ls_raw s) (l, ls_cp s) = Inr (l', cp)"
  shows "load_reachable unmarshal hash serial s0 (s\<lparr>ls_reload := l', ls_cp := cp\<rparr>)"
  by (rule load_reachable.step [OF assms(1)], rule load_step.reload [where ns = ns and fails = "\<lambda>_. False" and part = "''''"])
    (use assms in simp_all)

definition stored :: "string \<Rightarrow> cp_config \<Rightarrow> control_plane \<Rightarrow> control_plane" where
  "stored raw c cp = cp\<lparr>cp_fs := (cp_fs cp)\<lparr>fs_target := Some raw\<rparr>, cp_loaded := Some c\<rparr>"

text \<open>From its check on, a load runs to its end undisturbed.\<close>

lemma first_finishes:
  assumes "load_reachable unmarshal hash serial s0 s" and "ls_first s = LCheck r"
    and "config_of unmarshal hash r c" and "cf_hash c \<noteq> currentHash (ls_cp s)"
  shows "load_reachable unmarshal hash serial s0 (s\<lparr>ls_first := LDone, ls_cp := stored r c (ls_cp s)\<rparr>)"
proof -
  from assms(3) obtain ns where ns: "checked_config unmarshal hash ns r = Inr (Inr c)" unfolding config_of_def ..
  have 1: "load_reachable unmarshal hash serial s0 (s\<lparr>ls_first := LSave r c, ls_cp := ls_cp s\<rparr>)"
    by (rule first_steps [OF assms(1,2), of ns]) (use assms ns in \<open>simp_all add: loader_next_def\<close>)
  let ?cp = "(ls_cp s)\<lparr>cp_fs := (cp_fs (ls_cp s))\<lparr>fs_target := Some r\<rparr>\<rparr>"
  have 2: "load_reachable unmarshal hash serial s0 (s\<lparr>ls_first := LStore c, ls_cp := ?cp\<rparr>)"
    using first_steps [OF 1, of "LSave r c" ns "LStore c" ?cp]
    by (simp add: loader_next_def saveConfigToFile_def)
  show ?thesis
    using first_steps [OF 2, of "LStore c" ns LDone "?cp\<lparr>cp_loaded := Some c\<rparr>"]
    by (simp add: loader_next_def stored_def)
qed

lemma reload_finishes:
  assumes "load_reachable unmarshal hash serial s0 s" and "ls_reload s = LRead"
    and "config_of unmarshal hash (ls_raw s) c" and "cf_hash c \<noteq> currentHash (ls_cp s)"
  shows "load_reachable unmarshal hash serial s0 (s\<lparr>ls_reload := LDone, ls_cp := stored (ls_raw s) c (ls_cp s)\<rparr>)"
proof -
  let ?r = "ls_raw s"
  from assms(3) obtain ns where ns: "checked_config unmarshal hash ns ?r = Inr (Inr c)" unfolding config_of_def ..
  have 0: "load_reachable unmarshal hash serial s0 (s\<lparr>ls_reload := LCheck ?r, ls_cp := ls_cp s\<rparr>)"
    by (rule reload_steps [OF assms(1,2), of ns]) (simp_all add: loader_next_def)
  have 1: "load_reachable unmarshal hash serial s0 (s\<lparr>ls_reload := LSave ?r c, ls_cp := ls_cp s\<rparr>)"
    using reload_steps [OF 0, of "LCheck ?r" ns "LSave ?r c" "ls_cp s"] ns assms(4) by (simp add: loader_next_def)
  let ?cp = "(ls_cp s)\<lparr>cp_fs := (cp_fs (ls_cp s))\<lparr>fs_target := Some ?r\<rparr>\<rparr>"
  have 2: "load_reachable unmarshal hash serial s0 (s\<lparr>ls_reload := LStore c, ls_cp := ?cp\<rparr>)"
    using reload_steps [OF 1, of "LSave ?r c" ns "LStore c" ?cp]
    by (simp add: loader_next_def saveConfigToFile_def)
  show ?thesis
    using reload_steps [OF 2, of "LStore c" ns LDone "?cp\<lparr>cp_loaded := Some c\<rparr>"]
    by (simp add: loader_next_def stored_def)
qed

lemma first_read:
  "load_reachable unmarshal hash serial (load_start raw fs) ((load_start raw fs)\<lparr>ls_first := LCheck raw\<rparr>)"
  using first_steps [OF load_reachable.start, of "load_start raw fs" LRead unmarshal hash "[]" "LCheck raw" "new_cp fs" serial]
  by (simp add: loader_next_def load_start_def)

lemma currentHash_new [simp]: "currentHash (new_cp fs) = ''''"
  by (simp add: currentHash_def loadedConfig_def new_cp_def empty_config_def)

lemma currentHash_stored [simp]: "currentHash (stored r c cp) = cf_hash c"
  by (simp add: currentHash_def loadedConfig_def stored_def)

text \<open>Publications whose configurations the hash tells apart.\<close>

definition told_apart :: "(string \<Rightarrow> parsed_config option) \<Rightarrow> hasher \<Rightarrow> string list \<Rightarrow> bool" where
  "told_apart unmarshal hash rs \<longleftrightarrow>
     (\<forall>c d. published_config unmarshal hash rs c \<longrightarrow> published_config unmarshal hash rs d \<longrightarrow>
        cf_hash c = cf_hash d \<longrightarrow> c = d)"

lemma settled_loaded:
  assumes "load_inv unmarshal hash raw disk s" and "hashes hash" and "told_apart unmarshal hash (lg_published s)"
    and "on_time unmarshal hash (ls_raw s) (ls_cp s) LDone"
  shows "\<exists>c. config_of unmarshal hash (ls_raw s) c \<and> cp_loaded (ls_cp s) = Some c"
proof -
  obtain c where c: "config_of unmarshal hash (ls_raw s) c" "currentHash (ls_cp s) = cf_hash c"
    using assms(4) by (auto simp: on_time_def)
  have "cf_hash c \<noteq> ''''" by (rule config_of_hash [OF assms(2) c(1)])
  with c(2) obtain d where d: "cp_loaded (ls_cp s) = Some d" "cf_hash d = cf_hash c"
    by (cases "cp_loaded (ls_cp s)") (simp_all add: currentHash_def loadedConfig_def empty_config_def)
  have "published_config unmarshal hash (lg_published s) d"
    using assms(1) d(1) by (simp add: load_inv_def plane_ok_def)
  moreover have "published_config unmarshal hash (lg_published s) c"
    using load_inv_raw [OF assms(1)] c(1) unfolding published_config_def by blast
  ultimately have "d = c" using assms(3) d(2) unfolding told_apart_def by blast
  with c(1) d(1) show ?thesis by blast
qed

section \<open>Properties\<close>

text \<open>Whatever is published while loads are running, and however the first load and the reloading
  goroutine interleave, with or without the lock: the configuration in use is none at all or one that was
  published as a whole and passed every check, and the copy on disk is the one found at the start or the
  whole text of a published configuration that can be loaded.\<close>

theorem loads_published:
  assumes "load_reachable unmarshal hash serial (load_start raw fs) s"
  shows "(\<forall>c. cp_loaded (ls_cp s) = Some c \<longrightarrow>
      (\<exists>r\<in>set (lg_published s). config_of unmarshal hash r c)) \<and>
    (fs_target (cp_fs (ls_cp s)) = fs_target fs \<or>
      (\<exists>r\<in>set (lg_published s). fs_target (cp_fs (ls_cp s)) = Some r \<and> loadable unmarshal r))"
  using load_reachable_inv(1) [OF assms] by (simp add: load_inv_def plane_ok_def published_config_def)

text \<open>C27: a text is a configuration only up to the order of rules of the same rank. All loads of it give the very
  same configuration exactly if no two different rules of it have the same weight and specificity; as soon as
  two have, which of them is tried first can change with every load, and with it the hash.\<close>

theorem load_deterministic:
  assumes "loadable unmarshal raw" and "unmarshal raw = Some p"
  shows "(\<forall>c d. config_of unmarshal hash raw c \<and> config_of unmarshal hash raw d \<longrightarrow> d = c) \<longleftrightarrow>
    ranks_differ (pc_Rules p)"
proof
  assume "ranks_differ (pc_Rules p)"
  with assms(2) show "\<forall>c d. config_of unmarshal hash raw c \<and> config_of unmarshal hash raw d \<longrightarrow> d = c"
    by (auto intro: config_of_same(2))
next
  assume same: "\<forall>c d. config_of unmarshal hash raw c \<and> config_of unmarshal hash raw d \<longrightarrow> d = c"
  show "ranks_differ (pc_Rules p)"
  proof (rule ccontr)
    assume tied: "\<not> ranks_differ (pc_Rules p)"
    then have "None \<notin> snd ` set (pc_Rules p)"
      using assms by (cases "pc_Rules p") (auto simp: loadable_def ranks_differ_def)
    then obtain qs where qs: "map snd (pc_Rules p) = map Some qs" by (metis ex_map_conv image_set not_None_eq)
    from tied_orders [OF this tied] same show False
      using config_of_rules [OF assms] by metis
  qed
qed

text \<open>C7: with the loads one after the other the proxy catches up. Once the first load is over, no
  notification is waiting and the goroutine is back at its channel, the configuration in use is the one
  published last, rules of the same rank in the order of its load, whatever was published in between and
  whichever loads or file operations failed. The one exception: nothing was published since the start,
  what was there then cannot be loaded, and nothing is in use. Assumed of the hash: it is not empty and
  tells the published configurations apart.\<close>

theorem loads_converge:
  assumes "load_reachable unmarshal hash True (load_start raw fs) s" and "settled s"
    and "hashes hash" and "told_apart unmarshal hash (lg_published s)"
  shows "if loadable unmarshal (last (lg_published s))
    then \<exists>c. config_of unmarshal hash (last (lg_published s)) c \<and> cp_loaded (ls_cp s) = Some c
    else lg_published s = [raw] \<and> cp_loaded (ls_cp s) = None"
proof -
  note inv = load_reachable_inv(1) [OF assms(1)]
  then have raw: "last (lg_published s) = ls_raw s" and hd: "hd (lg_published s) = raw" by (simp_all add: load_inv_def)
  from load_reachable_inv(2) [OF assms(1)] assms(2)
  consider "on_time unmarshal hash (ls_raw s) (ls_cp s) LDone" | "first_failed unmarshal s"
    by (auto simp: conv_inv_def settled_def)
  then show ?thesis
  proof cases
    case 1
    from settled_loaded [OF inv assms(3,4) 1] show ?thesis by (auto simp: raw dest: config_of_loadable)
  next
    case 2
    with hd show ?thesis by (auto simp: raw first_failed_def)
  qed
qed

text \<open>C8: the code does not order them. \<open>New\<close> calls \<open>tryLoad\<close> without the lock while its goroutine is
  already running: for any two configurations that can be loaded there is a run in which the newer one
  is published, loaded and overwritten by the older one, in memory and on disk, and nothing is left that
  would load it again.\<close>

theorem first_load_race:
  assumes "config_of unmarshal hash old c" and "config_of unmarshal hash new d"
    and "cf_hash c \<noteq> cf_hash d" and "cf_hash c \<noteq> ''''" and "cf_hash d \<noteq> ''''"
  shows "\<exists>s. load_reachable unmarshal hash False (load_start old fs) s \<and> settled s \<and> ls_raw s = new \<and>
    lg_published s = [old, new] \<and> cp_loaded (ls_cp s) = Some c \<and> fs_target (cp_fs (ls_cp s)) = Some old"
proof -
  let ?s = "\<lambda>r l cp. \<lparr>ls_raw = new, ls_pending = False, ls_cp = cp, ls_first = l, ls_reload = r,
    lg_published = [old, new]\<rparr>"
  let ?reach = "load_reachable unmarshal hash False (load_start old fs)"
  have "?reach ((?s LDone (LCheck old) (new_cp fs))\<lparr>ls_pending := True\<rparr>)"
    using load_reachable.step [OF first_read load_step.publish [where raw = new]] by (simp add: load_start_def)
  from load_reachable.step [OF this load_step.notified]
  have "?reach (?s LRead (LCheck old) (new_cp fs))" by simp
  from reload_finishes [OF this] assms
  have "?reach (?s LDone (LCheck old) (stored new d (new_cp fs)))" by simp
  from first_finishes [OF this] assms
  have "?reach (?s LDone LDone (stored old c (stored new d (new_cp fs))))" by simp
  then show ?thesis
    by (intro exI [of _ "?s LDone LDone (stored old c (stored new d (new_cp fs)))"] conjI)
      (simp_all add: settled_def stored_def)
qed

definition race_unmarshal :: "string \<Rightarrow> parsed_config option" where
  "race_unmarshal raw =
     (if raw = ''v1'' \<or> raw = ''v2'' then
        Some \<lparr>pc_Rules = [(''a'', Some (test_rule '''' '''' 2))], pc_Regions = cf_regions test_config,
          pc_HobRegions = [], pc_ConfigVersion = (if raw = ''v1'' then 1 else 2), pc_HobModes = []\<rparr>
      else None)"

definition race_config :: "string \<Rightarrow> cp_config" where
  "race_config raw = (case checked_config race_unmarshal test_hash [] raw of Inr (Inr c) \<Rightarrow> c | _ \<Rightarrow> empty_config)"

lemma race_checked:
  "checked_config race_unmarshal test_hash [] ''v1'' = Inr (Inr (race_config ''v1''))"
  "checked_config race_unmarshal test_hash [] ''v2'' = Inr (Inr (race_config ''v2''))"
  "cf_hash (race_config ''v1'') = ''1''" "cf_hash (race_config ''v2'') = ''2''"
  by code_simp+

lemma race_ranks: "race_unmarshal raw = Some p \<Longrightarrow> ranks_differ (pc_Rules p)"
  by (auto simp: race_unmarshal_def ranks_differ_def split: if_splits)

lemma race_config_of:
  "config_of race_unmarshal test_hash ''v1'' c \<longleftrightarrow> c = race_config ''v1''"
  "config_of race_unmarshal test_hash ''v2'' c \<longleftrightarrow> c = race_config ''v2''"
proof -
  have "config_of race_unmarshal test_hash ''v1'' (race_config ''v1'')"
    "config_of race_unmarshal test_hash ''v2'' (race_config ''v2'')"
    using race_checked(1,2) unfolding config_of_def by blast+
  then show "config_of race_unmarshal test_hash ''v1'' c \<longleftrightarrow> c = race_config ''v1''"
    "config_of race_unmarshal test_hash ''v2'' c \<longleftrightarrow> c = race_config ''v2''"
    using config_of_same(2) race_ranks by blast+
qed

lemma show_nat_not_Nil: "show_nat n \<noteq> ''''"
  by (subst show_nat.simps) simp

lemma test_hashes: "hashes test_hash"
  by (simp add: hashes_def test_hash_def show_int_def show_nat_not_Nil split: prod.split)

theorem first_load_race_witness:
  "\<exists>s. load_reachable race_unmarshal test_hash False
      (load_start ''v1'' \<lparr>fs_target = None, fs_temps = []\<rparr>) s \<and>
    settled s \<and> ls_raw s = ''v2'' \<and> currentHash (ls_cp s) = ''1''"
proof -
  have "config_of race_unmarshal test_hash ''v1'' (race_config ''v1'')"
    "config_of race_unmarshal test_hash ''v2'' (race_config ''v2'')" by (simp_all add: race_config_of)
  from first_load_race [OF this, of "\<lparr>fs_target = None, fs_temps = []\<rparr>"] race_checked(3,4)
  show ?thesis by (auto simp: currentHash_def loadedConfig_def)
qed

text \<open>A start with one configuration, and then another one.\<close>

abbreviation race_state :: "string list \<Rightarrow> control_plane \<Rightarrow> load_state" where
  "race_state rs cp \<equiv> \<lparr>ls_raw = last rs, ls_pending = False, ls_cp = cp, ls_first = LDone, ls_reload = LDone, lg_published = rs\<rparr>"

lemma race_run:
  "load_reachable race_unmarshal test_hash serial (load_start ''v1'' \<lparr>fs_target = None, fs_temps = []\<rparr>)
     (race_state [''v1''] (stored ''v1'' (race_config ''v1'') (new_cp \<lparr>fs_target = None, fs_temps = []\<rparr>)))"
  using first_finishes [OF first_read [of race_unmarshal test_hash serial "''v1''"], of "\<lparr>fs_target = None, fs_temps = []\<rparr>"
      "''v1''" "race_config ''v1''"] race_checked(3)
  by (simp add: load_start_def race_config_of)

lemma race_run2:
  "load_reachable race_unmarshal test_hash serial (load_start ''v1'' \<lparr>fs_target = None, fs_temps = []\<rparr>)
     (race_state [''v1'', ''v2''] (stored ''v2'' (race_config ''v2'')
        (stored ''v1'' (race_config ''v1'') (new_cp \<lparr>fs_target = None, fs_temps = []\<rparr>))))"
proof -
  let ?cp = "stored ''v1'' (race_config ''v1'') (new_cp \<lparr>fs_target = None, fs_temps = []\<rparr>)"
  let ?reach = "load_reachable race_unmarshal test_hash serial (load_start ''v1'' \<lparr>fs_target = None, fs_temps = []\<rparr>)"
  have "?reach ((race_state [''v1'', ''v2''] ?cp)\<lparr>ls_pending := True\<rparr>)"
    using load_reachable.step [OF race_run load_step.publish [where raw = "''v2''"]] by simp
  from load_reachable.step [OF this load_step.notified]
  have "?reach ((race_state [''v1'', ''v2''] ?cp)\<lparr>ls_reload := LRead\<rparr>)" by simp
  from reload_finishes [OF this, of "race_config ''v2''"] race_checked(3,4)
  show ?thesis by (simp add: race_config_of)
qed

theorem loads_converge_witness:
  "cp_loaded (stored ''v2'' (race_config ''v2'') (stored ''v1'' (race_config ''v1'')
     (new_cp \<lparr>fs_target = None, fs_temps = []\<rparr>))) = Some (race_config ''v2'')"
proof -
  have "told_apart race_unmarshal test_hash [''v1'', ''v2'']"
    using race_checked(3,4) by (auto simp: told_apart_def published_config_def race_config_of)
  moreover have "loadable race_unmarshal ''v2''"
    by (rule config_of_loadable [of _ test_hash _ "race_config ''v2''"]) (simp add: race_config_of)
  ultimately show ?thesis
    using loads_converge [OF race_run2 _ test_hashes] by (auto simp: settled_def race_config_of)
qed

definition tied_unmarshal :: "string \<Rightarrow> parsed_config option" where
  "tied_unmarshal raw = Some \<lparr>pc_Rules = [(''a'', Some (test_rule '''' '''' 2)), (''b'', Some (test_rule '''' '''' 1))],
     pc_Regions = cf_regions test_config, pc_HobRegions = [], pc_ConfigVersion = 1, pc_HobModes = []\<rparr>"

theorem load_deterministic_witness:
  "\<exists>c d. config_of tied_unmarshal test_hash ''v1'' c \<and> config_of tied_unmarshal test_hash ''v1'' d \<and> d \<noteq> c"
proof -
  let ?p = "the (tied_unmarshal ''v1'')"
  have "loadable tied_unmarshal ''v1''" "tied_unmarshal ''v1'' = Some ?p"
    by (simp_all add: loadable_def tied_unmarshal_def test_config_def)
  moreover have "\<not> ranks_differ (pc_Rules ?p)"
    by (auto simp: tied_unmarshal_def ranks_differ_def test_rule_def rule_less_def Specificity_def)
  ultimately show ?thesis using load_deterministic [of tied_unmarshal "''v1''" ?p test_hash] by blast
qed

theorem loads_published_witness:
  "\<exists>r\<in>{''v1''}. config_of race_unmarshal test_hash r (race_config ''v1'')"
  using loads_published [OF race_run [of False]] by (simp add: stored_def)

end
