(* ===== verification/Start_Up.thy ===== *)
theory Start_Up
  imports Whole_System Load_Race
begin

text \<open>
  The life of a process from \<open>init\<close> and \<open>main\<close> of \<open>src/main.go\<close> on, and the lives that follow it on the
  same disk. \<open>LoadLastGoodConfig\<close> of \<open>src/controlplane/controlplane.go\<close> hands the copy on disk to the
  configuration library; \<open>main\<close> waits for the configuration service, opens the access log, sets up the
  statistics, builds the server, registers the health checks and listens.

  The configuration library (\<open>github.com/HailoOSS/service/config\<close>) is an argument, with its state; so are
  the platform's initialisation and what the service delivers while \<open>main\<close> waits. \<open>config_ok\<close> is what
  the code relies on. Flags and listening are I/O.
\<close>

section \<open>The configuration library\<close>

text \<open>\<open>cl_Load\<close> gets what can be read from the file, \<open>None\<close> when reading fails, as it does from the nil file
  a failed \<open>os.Open\<close> leaves; its first result tells whether it returns an error.\<close>

record 'c config_lib =
  cl_Load :: "string option \<Rightarrow> 'c \<Rightarrow> bool \<times> 'c"
  cl_Raw :: "'c \<Rightarrow> string"
  cl_AsString :: "'c \<Rightarrow> string list \<Rightarrow> string \<Rightarrow> string"
  cl_AsStringArray :: "'c \<Rightarrow> string list \<Rightarrow> string list"

text \<open>A text that is JSON is loaded as a whole and can be read back.\<close>

definition config_ok :: "'c config_lib \<Rightarrow> (string \<Rightarrow> parsed_config option) \<Rightarrow> bool" where
  "config_ok L unmarshal \<longleftrightarrow>
     (\<forall>c. cl_Load L None c = (True, c)) \<and>
     (\<forall>t c. unmarshal t \<noteq> None \<longrightarrow> fst (cl_Load L (Some t) c) = False \<and> cl_Raw L (snd (cl_Load L (Some t) c)) = t)"

text \<open>The number of errors logged, and the library afterwards.\<close>

definition LoadLastGoodConfig :: "'c config_lib \<Rightarrow> bool \<Rightarrow> file_system \<Rightarrow> 'c \<Rightarrow> nat \<times> 'c" where
  "LoadLastGoodConfig L unopened fs c =
     (let f = (if unopened then None else fs_target fs);
          logged = (if f = None then 1 else 0)
      in case cl_Load L f c of (err, c') \<Rightarrow> (if err then logged + 1 else logged, c'))"

section \<open>init and main\<close>

text \<open>What one launch meets, beside the disk.\<close>

record ('z, 'c) launch =
  la_unopened :: bool
  la_Init :: "'c \<Rightarrow> 'c"
  la_wait :: "'c \<Rightarrow> 'c"
  la_log_fails :: bool
  la_range :: "nat list"
  la_fails :: "fs_op \<Rightarrow> bool"
  la_part :: string
  la_az :: "string option"
  la_mappings :: mappings
  la_now :: int
  la_zk :: 'z
  la_get_endpoint :: pstats
  la_InstanceID :: string
  la_Hostname :: string
  la_format :: "int \<Rightarrow> string"

definition service_init :: "'c config_lib \<Rightarrow> ('z, 'c) launch \<Rightarrow> file_system \<Rightarrow> 'c \<Rightarrow> 'c" where
  "service_init L la fs c = la_Init la (snd (LoadLastGoodConfig L (la_unopened la) fs c))"

text \<open>What \<open>init\<close> says of the service.\<close>

record service_info =
  sv_Name :: string
  sv_Description :: string
  sv_Version :: int
  sv_Source :: string
  sv_OwnerEmail :: string
  sv_OwnerMobile :: string
  sv_OwnerTeam :: string

definition service_fields :: service_info where
  "service_fields = \<lparr>sv_Name = service_Name,
     sv_Description = ''Routing layer that handles all inbound client requests, routing them to H1, H2, or '' @
       ''throttling them.'',
     sv_Version = ServiceVersion, sv_Source = ''github.com/HailoOSS/api-proxy'',
     sv_OwnerEmail = ''oliver.beattie@HailoOSS.com'', sv_OwnerMobile = ''+447584048620'', sv_OwnerTeam = ''h2o''\<rparr>"

text \<open>\<open>stats.Init\<close>.\<close>

record stats_identity =
  si_ServiceName :: string
  si_ServiceVersion :: int
  si_ServiceType :: string
  si_InstanceID :: string

definition stats_Init :: "string \<Rightarrow> int \<Rightarrow> string \<Rightarrow> stats_identity" where
  "stats_Init n version i = \<lparr>si_ServiceName = n, si_ServiceVersion = version, si_ServiceType = ''h2.proxy'', si_InstanceID = i\<rparr>"

definition launch_identity :: "('z, 'c) launch \<Rightarrow> identity" where
  "launch_identity la = \<lparr>id_Name = sv_Name service_fields, id_Version = sv_Version service_fields, id_InstanceID = la_InstanceID la,
     id_Hostname = la_Hostname la\<rparr>"

text \<open>\<open>http.Server\<close> as \<open>NewServer\<close> fills it in; times in nanoseconds.\<close>

record http_server =
  hs_Addr :: string
  hs_ReadTimeout :: int
  hs_WriteTimeout :: int
  hs_MaxHeaderBytes :: int

definition listenPort :: int where "listenPort = 8080"

definition http_settings :: http_server where
  "http_settings = \<lparr>hs_Addr = '':'' @ show_int listenPort, hs_ReadTimeout = 30000000000, hs_WriteTimeout = 30000000000,
     hs_MaxHeaderBytes = 1048576\<rparr>"

record ('u, 'z, 't) up =
  up_system :: "('u, 'z, 't) system"
  up_http :: http_server
  up_az :: string
  up_proxy :: proxy_transport
  up_service :: service_info
  up_stats :: stats_identity
  up_az_checks :: "(status_monitor \<Rightarrow> check_result) health_check list"
  up_checks :: "checker health_check list"

datatype ('u, 'z, 't) launched = Exited int | Crashed panic | Listening "('u, 'z, 't) up"

definition launch_boot :: "'c config_lib \<Rightarrow> ('z, 'c) launch \<Rightarrow> file_system \<Rightarrow> 'c \<Rightarrow> 'z boot" where
  "launch_boot L la fs c =
     \<lparr>bo_attempt = \<lparr>at_dying = False, at_raw = cl_Raw L c, at_range = la_range la, at_fails = la_fails la, at_part = la_part la\<rparr>,
      bo_pci_url = cl_AsString L c [''pci'', ''encryptionProxyUrl''] '''',
      bo_pci_paths = cl_AsStringArray L c [''pci'', ''sensitivePaths''],
      bo_az = la_az la, bo_mappings = la_mappings la, bo_fs = fs, bo_now = la_now la, bo_zk = la_zk la\<rparr>"

definition service_main ::
    "('u, 'z, 't) platform \<Rightarrow> 'c config_lib \<Rightarrow> ('z, 'c) launch \<Rightarrow> file_system \<Rightarrow> 'c \<Rightarrow> ('u, 'z, 't) launched" where
  "service_main P L la fs c =
     (let c' = la_wait la c; srv = launch_identity la
      in if la_log_fails la then Exited 6
         else (case process_start P (launch_boot L la fs c') of
                 Inl e \<Rightarrow> Crashed e
               | Inr s \<Rightarrow> Listening \<lparr>up_system = s, up_http = http_settings, up_az = handler_az (la_az la),
                   up_proxy = setupProxy, up_service = service_fields,
        up_stats = stats_Init (sv_Name service_fields) ServiceVersion (la_InstanceID la),
                   up_az_checks = hc_Init srv (la_format la) [], up_checks = main_checks (la_get_endpoint la) srv\<rparr>))"

definition launch ::
    "('u, 'z, 't) platform \<Rightarrow> 'c config_lib \<Rightarrow> 'c \<Rightarrow> ('z, 'c) launch \<Rightarrow> file_system \<Rightarrow> ('u, 'z, 't) launched" where
  "launch P L c0 la fs = service_main P L la fs (service_init L la fs c0)"

section \<open>Lives on one disk\<close>

text \<open>The disk as the lives of processes leave it; a life may end anywhere.\<close>

inductive disk_reachable :: "('u, 'z, 't) platform \<Rightarrow> 'c config_lib \<Rightarrow> 'c \<Rightarrow> file_system \<Rightarrow> bool"
  for P :: "('u, 'z, 't) platform" and L :: "'c config_lib" and c0 :: 'c where
  fresh: "fs_target fs = None \<Longrightarrow> disk_reachable P L c0 fs"
| life: "disk_reachable P L c0 fs \<Longrightarrow> launch P L c0 la fs = Listening up \<Longrightarrow>
    (\<lambda>s s'. sys_step P s (Inr s'))\<^sup>*\<^sup>* (up_system up) s \<Longrightarrow> disk_reachable P L c0 (cp_fs (sy_control s))"

section \<open>Lemmas\<close>

lemma http_Addr: "hs_Addr http_settings = '':8080''"
  by (simp add: http_settings_def listenPort_def show_int_def show_nat.simps char_of_def bit_iff_odd)

lemma NewPCIFilter_total: "\<exists>f. NewPCIFilter parse_url url paths = Inr f"
  by (simp add: NewPCIFilter_def PCI_loadConfig_def Let_def split: option.split)

text \<open>The first load of a process, which visits the rules in the order \<open>ns\<close>.\<close>

definition first_config :: "(string \<Rightarrow> parsed_config option) \<Rightarrow> hasher \<Rightarrow> nat list \<Rightarrow> string \<Rightarrow> cp_config option" where
  "first_config unmarshal hash ns raw =
     (case checked_config unmarshal hash ns raw of
        Inr (Inr c) \<Rightarrow> if cf_hash c = '''' then None else Some c
      | _ \<Rightarrow> None)"

lemma first_load:
  assumes "tryLoad unmarshal hash a (new_cp fs) = Inr (err, cp)"
  shows "cp_loaded cp = first_config unmarshal hash (at_range a) (at_raw a)"
proof -
  have "cp_loaded (new_cp fs) = None" by (simp add: new_cp_def)
  with assms show ?thesis by (auto simp: tryLoad_checked first_config_def split: sum.splits if_splits)
qed

lemma process_start_cases:
  "process_start P b =
     (case tryLoad (sp_unmarshal P) (sp_hash P) (bo_attempt b) (new_cp (bo_fs b)) of
        Inl e \<Rightarrow> Inl e
      | Inr (err, cp) \<Rightarrow> Inr \<lparr>sy_control = cp,
          sy_pci = projr (NewPCIFilter (sp_parse_url P) (bo_pci_url b) (bo_pci_paths b)),
          sy_throttler = NewThrottlingHandler, sy_monitor = fst (NewStatusMonitor (bo_az b) (bo_now b)), sy_zk = bo_zk b,
          sy_mappings = bo_mappings b, sy_stats = main_stats, sy_running = initial_goroutines b,
          sy_tombs = started P (initial_goroutines b), sy_kill = None, sy_flights = [], sg_served = []\<rparr>)"
proof -
  obtain f where f: "NewPCIFilter (sp_parse_url P) (bo_pci_url b) (bo_pci_paths b) = Inr f"
    using NewPCIFilter_total by blast
  show ?thesis
    by (simp add: process_start_def f initial_goroutines_def monitored_def NewStatusMonitor_def Let_def split: sum.split)
qed

lemma process_start_fresh:
  assumes "process_start P b = Inr s"
  shows "sy_running s = initial_goroutines b \<and> sm_IsHealthy (sy_monitor s) \<and> sg_served s = [] \<and> sy_stats s = main_stats"
  using assms by (auto simp: process_start_cases NewStatusMonitor_def split: sum.splits)

definition launch_raw :: "'c config_lib \<Rightarrow> 'c \<Rightarrow> ('z, 'c) launch \<Rightarrow> file_system \<Rightarrow> string" where
  "launch_raw L c0 la fs = cl_Raw L (la_wait la (service_init L la fs c0))"

text \<open>An environment that delivers nothing beside the copy on disk.\<close>

definition quiet :: "'c config_lib \<Rightarrow> ('z, 'c) launch \<Rightarrow> bool" where
  "quiet L la \<longleftrightarrow> (\<forall>c. cl_Raw L (la_Init la c) = cl_Raw L c \<and> cl_Raw L (la_wait la c) = cl_Raw L c) \<and>
     \<not> la_unopened la \<and> \<not> la_log_fails la"

lemma quiet_raw:
  assumes "config_ok L unmarshal" and "quiet L la"
  shows "fs_target fs = None \<Longrightarrow> launch_raw L c0 la fs = cl_Raw L c0"
    and "fs_target fs = Some t \<Longrightarrow> unmarshal t \<noteq> None \<Longrightarrow> launch_raw L c0 la fs = t"
  using assms
  by (auto simp: launch_raw_def service_init_def LoadLastGoodConfig_def quiet_def config_ok_def Let_def split: prod.splits)
    (metis snd_conv)+

text \<open>What a launch does: nothing but the raw configuration and the access log matters.\<close>

lemma launch_cases:
  "launch P L c0 la fs =
     (if la_log_fails la then Exited 6
      else case tryLoad (sp_unmarshal P) (sp_hash P)
          \<lparr>at_dying = False, at_raw = launch_raw L c0 la fs, at_range = la_range la, at_fails = la_fails la, at_part = la_part la\<rparr> (new_cp fs) of
        Inl e \<Rightarrow> Crashed e
      | Inr (err, cp) \<Rightarrow> Listening
          \<lparr>up_system = projr (process_start P (launch_boot L la fs (la_wait la (service_init L la fs c0)))),
           up_http = http_settings, up_az = handler_az (la_az la), up_proxy = setupProxy, up_service = service_fields,
        up_stats = stats_Init (sv_Name service_fields) ServiceVersion (la_InstanceID la),
           up_az_checks = hc_Init (launch_identity la) (la_format la) [],
           up_checks = main_checks (la_get_endpoint la) (launch_identity la)\<rparr>)"
  by (simp add: launch_def service_main_def process_start_cases launch_boot_def launch_raw_def Let_def split: sum.split)

lemma launch_listens:
  assumes "\<not> la_log_fails la" and "\<not> fatal_raw (sp_unmarshal P) (launch_raw L c0 la fs)"
  obtains up where "launch P L c0 la fs = Listening up"
    and "process_start P (launch_boot L la fs (la_wait la (service_init L la fs c0))) = Inr (up_system up)"
    and "cp_loaded (sy_control (up_system up)) = first_config (sp_unmarshal P) (sp_hash P) (la_range la) (launch_raw L c0 la fs)"
    and "up_http up = http_settings"
    and "up_checks up = main_checks (la_get_endpoint la) (launch_identity la)"
proof -
  let ?a = "\<lparr>at_dying = False, at_raw = launch_raw L c0 la fs, at_range = la_range la, at_fails = la_fails la, at_part = la_part la\<rparr>"
  obtain err cp where t: "tryLoad (sp_unmarshal P) (sp_hash P) ?a (new_cp fs) = Inr (err, cp)"
    using tryLoad_fatal [of "sp_unmarshal P" "sp_hash P" ?a "new_cp fs"] assms(2)
    by (cases "tryLoad (sp_unmarshal P) (sp_hash P) ?a (new_cp fs)") auto
  let ?b = "launch_boot L la fs (la_wait la (service_init L la fs c0))"
  have b: "bo_attempt ?b = ?a" "bo_fs ?b = fs" by (simp_all add: launch_boot_def launch_raw_def)
  obtain s where s: "process_start P ?b = Inr s" "sy_control s = cp"
    by (simp add: process_start_cases b t)
  show ?thesis
  proof (rule that)
    show "launch P L c0 la fs = Listening \<lparr>up_system = s, up_http = http_settings, up_az = handler_az (la_az la), up_proxy = setupProxy,
        up_service = service_fields,
        up_stats = stats_Init (sv_Name service_fields) ServiceVersion (la_InstanceID la),
        up_az_checks = hc_Init (launch_identity la) (la_format la) [],
        up_checks = main_checks (la_get_endpoint la) (launch_identity la)\<rparr>"
      by (simp add: launch_cases assms(1) t s)
  qed (use s first_load [OF t] in simp_all)
qed

text \<open>What the disk holds: the old copy, or one that can be loaded.\<close>

definition disk_good :: "(string \<Rightarrow> parsed_config option) \<Rightarrow> file_system \<Rightarrow> bool" where
  "disk_good unmarshal fs \<longleftrightarrow>
     (\<forall>t. fs_target fs = Some t \<longrightarrow> loadable unmarshal t)"

lemma save_target:
  "fs_target (snd (saveConfigToFile fails part r fs)) = (if fst (saveConfigToFile fails part r fs) then fs_target fs else Some r)"
  by (simp add: saveConfigToFile_def)

lemma tryLoad_disk:
  assumes "disk_good unmarshal (cp_fs cp)" and "tryLoad unmarshal hash a cp = Inr (err, cp')"
  shows "disk_good unmarshal (cp_fs cp')"
proof (cases "loadable unmarshal (at_raw a)")
  case True
  with assms show ?thesis
    by (auto simp: tryLoad_checked disk_good_def save_target split: sum.splits if_splits)
next
  case False
  then have "err \<noteq> None" using assms(2) tryLoad_installs [of unmarshal a hash cp] by auto
  with assms tryLoad_error_keeps [of unmarshal hash a cp] show ?thesis by auto
qed

lemma loadCycle_disk:
  "disk_good unmarshal (cp_fs cp) \<Longrightarrow> loadCycle unmarshal hash as cp = Some (Inr cp') \<Longrightarrow>
     disk_good unmarshal (cp_fs cp')"
  using tryLoad_disk [of unmarshal cp hash]
  by (auto simp: loadCycle_first map_sum_def split: option.splits if_splits sum.splits)

lemma sys_step_disk:
  assumes "disk_good (sp_unmarshal P) (cp_fs (sy_control s))" and "sys_step P s (Inr s')"
  shows "disk_good (sp_unmarshal P) (cp_fs (sy_control s'))"
  using assms(2)
proof (cases rule: sys_step.cases)
  case (turn g)
  from turn(2) show ?thesis
    by (cases rule: turn.cases) (use assms(1) loadCycle_disk in auto)
next
  case kill
  then show ?thesis using assms(1) by (auto elim: kill_stepE)
next
  case request
  with flight_frame assms(1) show ?thesis by metis
qed (use assms(1) in \<open>simp_all add: goroutine_return_def mappings_reload_def\<close>)

lemma launch_disk:
  assumes "disk_good (sp_unmarshal P) fs" and "launch P L c0 la fs = Listening up"
  shows "disk_good (sp_unmarshal P) (cp_fs (sy_control (up_system up)))"
proof -
  let ?a = "\<lparr>at_dying = False, at_raw = launch_raw L c0 la fs, at_range = la_range la, at_fails = la_fails la, at_part = la_part la\<rparr>"
  from assms(2) obtain err cp where t: "tryLoad (sp_unmarshal P) (sp_hash P) ?a (new_cp fs) = Inr (err, cp)"
    by (auto simp: launch_cases split: if_splits sum.splits)
  have "sy_control (up_system up) = cp"
    using assms(2) t
    by (auto simp: launch_cases process_start_cases launch_boot_def launch_raw_def split: if_splits)
  with tryLoad_disk [OF _ t] assms(1) show ?thesis by (simp add: new_cp_def)
qed

lemma disk_reachable_good: "disk_reachable P L c0 fs \<Longrightarrow> disk_good (sp_unmarshal P) fs"
proof (induction rule: disk_reachable.induct)
  case (fresh fs)
  then show ?case by (simp add: disk_good_def)
next
  case (life fs la up s)
  from life.hyps(3) show ?case
    by (induction rule: rtranclp_induct) (use launch_disk [OF life.IH life.hyps(2)] sys_step_disk in auto)
qed

lemma loadable_parses: "loadable unmarshal t \<Longrightarrow> unmarshal t \<noteq> None"
  by (cases "unmarshal t") (simp_all add: loadable_def)

text \<open>A restart from a copy that can be loaded.\<close>

lemma restart_loads:
  assumes "config_ok L (sp_unmarshal P)" and "quiet L la" and "hashes (sp_hash P)" and "fs_target fs = Some t"
    and "loadable (sp_unmarshal P) t"
  obtains up c where "launch P L c0 la fs = Listening up" and "cp_loaded (sy_control (up_system up)) = Some c"
    and "checked_config (sp_unmarshal P) (sp_hash P) (la_range la) t = Inr (Inr c)"
proof -
  obtain c where c: "checked_config (sp_unmarshal P) (sp_hash P) (la_range la) t = Inr (Inr c)"
    using checked_loadable assms(5) by blast
  then have "cf_hash c \<noteq> ''''" using config_of_hash [OF assms(3), of "sp_unmarshal P" t c] unfolding config_of_def by blast
  have raw: "launch_raw L c0 la fs = t"
    by (rule quiet_raw(2) [OF assms(1,2,4) loadable_parses [OF assms(5)]])
  have "\<not> la_log_fails la" using assms(2) by (simp add: quiet_def)
  moreover have "\<not> fatal_raw (sp_unmarshal P) (launch_raw L c0 la fs)"
    using loadable_fatal [OF assms(5)] by (simp add: raw)
  ultimately obtain up where "launch P L c0 la fs = Listening up"
    "cp_loaded (sy_control (up_system up)) = first_config (sp_unmarshal P) (sp_hash P) (la_range la) (launch_raw L c0 la fs)"
    by (rule launch_listens)
  with c \<open>cf_hash c \<noteq> ''''\<close> show ?thesis by (intro that [of up c]) (simp_all add: raw first_config_def)
qed

text \<open>What a load that installs something has done.\<close>

lemma tryLoad_new:
  assumes "tryLoad unmarshal hash a cp = Inr (None, cp')" and "currentHash cp' \<noteq> currentHash cp"
  obtains c where "checked_config unmarshal hash (at_range a) (at_raw a) = Inr (Inr c)" and "cp_loaded cp' = Some c"
    and "cp_fs cp' = snd (saveConfigToFile (at_fails a) (at_part a) (at_raw a) (cp_fs cp))"
  using assms by (auto simp: tryLoad_checked split: sum.splits if_splits)

text \<open>A library that holds one text, and launches from the disk alone.\<close>

definition text_lib :: "string config_lib" where
  "text_lib = \<lparr>cl_Load = (\<lambda>t c. case t of None \<Rightarrow> (True, c) | Some t \<Rightarrow> (False, t)), cl_Raw = (\<lambda>c. c),
     cl_AsString = (\<lambda>c path def. def), cl_AsStringArray = (\<lambda>c path. [])\<rparr>"

definition test_launch :: "string option \<Rightarrow> (string option, string) launch" where
  "test_launch delivered =
     \<lparr>la_unopened = False, la_Init = (\<lambda>c. c), la_wait = (\<lambda>c. case delivered of None \<Rightarrow> c | Some t \<Rightarrow> t),
      la_log_fails = False, la_range = [], la_fails = (\<lambda>_. False), la_part = '''', la_az = Some ''a'', la_mappings = [], la_now = 0,
      la_zk = None, la_get_endpoint = (\<lambda>_. None), la_InstanceID = ''i'', la_Hostname = ''h'', la_format = (\<lambda>_. '''')\<rparr>"

definition race_platform :: "(string, string option, counting_tomb) platform" where
  "race_platform = test_platform\<lparr>sp_unmarshal := race_unmarshal\<rparr>"

lemma text_lib_ok: "config_ok text_lib unmarshal" "quiet text_lib (test_launch None)"
  by (simp_all add: config_ok_def quiet_def text_lib_def test_launch_def)

lemma race_platform_simps:
  "sp_unmarshal race_platform = race_unmarshal" "sp_hash race_platform = test_hash"
  by (simp_all add: race_platform_def test_platform_def)

lemma race_load:
  "tryLoad race_unmarshal test_hash (test_attempt ''v1'') (new_cp \<lparr>fs_target = None, fs_temps = []\<rparr>) =
     Inr (None, stored ''v1'' (race_config ''v1'') (new_cp \<lparr>fs_target = None, fs_temps = []\<rparr>))"
  using race_checked(1,3)
  by (simp add: tryLoad_checked test_attempt_def stored_def saveConfigToFile_def)

text \<open>One life, to which the service delivered a configuration.\<close>

lemma disk_after_life: "disk_reachable race_platform text_lib '''' \<lparr>fs_target = Some ''v1'', fs_temps = []\<rparr>"
proof -
  let ?fs = "\<lparr>fs_target = None, fs_temps = []\<rparr>" and ?la = "test_launch (Some ''v1'')"
  have a: "\<lparr>at_dying = False, at_raw = launch_raw text_lib '''' ?la ?fs, at_range = la_range ?la, at_fails = la_fails ?la, at_part = la_part ?la\<rparr> =
      test_attempt ''v1''"
    by (simp add: launch_raw_def test_launch_def text_lib_def test_attempt_def)
  let ?b = "launch_boot text_lib ?la ?fs (la_wait ?la (service_init text_lib ?la ?fs ''''))"
  have b: "bo_attempt ?b = test_attempt ''v1''" "bo_fs ?b = ?fs"
    using a by (simp_all add: launch_boot_def launch_raw_def)
  obtain up where up: "launch race_platform text_lib '''' ?la ?fs = Listening up" "up_system up = projr (process_start race_platform ?b)"
    unfolding launch_cases a race_platform_simps race_load by (simp add: test_launch_def)
  have "sy_control (up_system up) = stored ''v1'' (race_config ''v1'') (new_cp ?fs)"
    unfolding up(2) process_start_cases b race_platform_simps race_load by simp
  moreover have "disk_reachable race_platform text_lib '''' (cp_fs (sy_control (up_system up)))"
    by (rule disk_reachable.life [OF disk_reachable.fresh up(1)]) simp_all
  ultimately show ?thesis by (simp add: stored_def new_cp_def)
qed

section \<open>Properties\<close>

text \<open>C19: what becomes of a launch. It ends with status 6 exactly when the access log cannot be opened, and
  with a panic exactly when the configuration at hand then has a null rule beside another one; otherwise it
  comes up: port 8080, the goroutines running, the instance in service, no request served, every health check
  on an endpoint the statistics count, and the configuration loaded if it passes the checks, none otherwise.\<close>

theorem launch_outcome:
  "(launch P L c0 la fs = Exited 6 \<longleftrightarrow> la_log_fails la) \<and>
   (launch P L c0 la fs = Crashed e \<longleftrightarrow>
      \<not> la_log_fails la \<and> fatal_raw (sp_unmarshal P) (launch_raw L c0 la fs) \<and> e = NilDeref) \<and>
   ((\<exists>up. launch P L c0 la fs = Listening up) \<longleftrightarrow>
      \<not> la_log_fails la \<and> \<not> fatal_raw (sp_unmarshal P) (launch_raw L c0 la fs)) \<and>
   (launch P L c0 la fs = Listening up \<longrightarrow>
      hs_Addr (up_http up) = '':8080'' \<and>
      sy_running (up_system up) =
        [Config_Reloader] @ (if la_az la = None then [] else [AZ_Monitor]) @ [PCI_Listener, Ingester, Synchroniser] \<and>
      sm_IsHealthy (sy_monitor (up_system up)) \<and> sg_served (up_system up) = [] \<and>
      map hk_Id (up_checks up) = map (\<lambda>n. service_Name @ ''.http.'' @ n)
        [''root'', ''v2-h2-call'', ''rpc'', ''v1-point-batch'', ''root.request-rate''] \<and>
      (\<forall>(i, ep, rate)\<in>set main_error_checks. ep \<in> set (told (st_calls (sy_stats (up_system up))))) \<and>
      cp_loaded (sy_control (up_system up)) = first_config (sp_unmarshal P) (sp_hash P) (la_range la) (launch_raw L c0 la fs))"
    (is "?exit \<and> ?crash \<and> ?listen \<and> (_ \<longrightarrow> ?up)")
proof -
  let ?a = "\<lparr>at_dying = False, at_raw = launch_raw L c0 la fs, at_range = la_range la, at_fails = la_fails la, at_part = la_part la\<rparr>"
  let ?t = "tryLoad (sp_unmarshal P) (sp_hash P) ?a (new_cp fs)"
  have "?exit \<and> ?crash \<and> ?listen"
  proof (cases ?t)
    case (Inl e')
    then have "fatal_raw (sp_unmarshal P) (launch_raw L c0 la fs)" "e' = NilDeref"
      using tryLoad_fatal [of "sp_unmarshal P" "sp_hash P" ?a "new_cp fs" e'] by simp_all
    with Inl show ?thesis by (auto simp: launch_cases)
  next
    case (Inr r)
    then have "\<not> fatal_raw (sp_unmarshal P) (launch_raw L c0 la fs)"
      using tryLoad_fatal [of "sp_unmarshal P" "sp_hash P" ?a "new_cp fs" NilDeref] by simp
    with Inr show ?thesis by (cases r) (simp add: launch_cases)
  qed
  then have 1: ?exit and 2: ?crash and 3: ?listen by blast+
  have ?up if up: "launch P L c0 la fs = Listening up"
  proof -
    obtain v where v: "launch P L c0 la fs = Listening v"
      "process_start P (launch_boot L la fs (la_wait la (service_init L la fs c0))) = Inr (up_system v)"
      "cp_loaded (sy_control (up_system v)) = first_config (sp_unmarshal P) (sp_hash P) (la_range la) (launch_raw L c0 la fs)"
      "up_http v = http_settings" "up_checks v = main_checks (la_get_endpoint la) (launch_identity la)"
      using launch_listens [of la P L c0 fs] up 3 by metis
    have "v = up" using up v(1) by simp
    moreover have "hs_Addr http_settings = '':8080''" by (rule http_Addr)
    moreover have "map hk_Id (main_checks g srv) = map (\<lambda>n. service_Name @ ''.http.'' @ n)
        [''root'', ''v2-h2-call'', ''rpc'', ''v1-point-batch'', ''root.request-rate'']" for g srv
      by (simp add: main_checks_def main_error_checks_def RegisterDropOffCheck_def RegisterErrorRateCheck_def hc_Register_def)
    moreover have "told (st_calls main_stats) = main_endpoints"
      by (simp add: main_stats_def main_endpoints_def defaultManager_def newStatsManager_def stats_register_def Stats_Start_def Let_def)
    moreover have "ep \<in> set main_endpoints" if "(i, ep, rate) \<in> set main_error_checks" for i ep rate
      using that by (auto simp: main_error_checks_def main_endpoints_def)
    moreover have "sy_running (up_system v) = initial_goroutines (launch_boot L la fs (la_wait la (service_init L la fs c0))) \<and>
        sm_IsHealthy (sy_monitor (up_system v)) \<and> sg_served (up_system v) = [] \<and> sy_stats (up_system v) = main_stats"
      by (rule process_start_fresh [OF v(2)])
    ultimately show ?thesis using v
      by (auto simp: initial_goroutines_def monitored_def launch_boot_def)
  qed
  with 1 2 3 show ?thesis by blast
qed

theorem launch_outcome_witness:
  "launch test_platform text_lib '''' (test_launch (Some ''null'')) \<lparr>fs_target = Some ''good'', fs_temps = []\<rparr> = Crashed NilDeref"
proof -
  have raw: "launch_raw text_lib '''' (test_launch (Some ''null'')) \<lparr>fs_target = Some ''good'', fs_temps = []\<rparr> = ''null''"
    by (simp add: launch_raw_def test_launch_def text_lib_def)
  have "fatal_raw (sp_unmarshal test_platform) ''null''"
    by (simp add: fatal_raw_def test_platform_def test_unmarshal_def null_rule_def)
  with launch_outcome [of test_platform text_lib "''''" "test_launch (Some ''null'')" "\<lparr>fs_target = Some ''good'', fs_temps = []\<rparr>" NilDeref]
  show ?thesis by (simp add: raw) (simp add: test_launch_def)
qed

text \<open>C5: the copy on disk always brings a proxy up. However many processes lived on the disk before, whatever
  they were sent and however they ended: a process started from the copy alone, with no configuration
  service, comes up with the very configuration the copy holds, its rules visited in the order of this start,
  and with none if there is no copy.\<close>

theorem last_good_boots:
  assumes "hashes (sp_hash P)" and "config_ok L (sp_unmarshal P)" and "cl_Raw L c0 = ''''" and "quiet L la"
    and "disk_reachable P L c0 fs"
  shows "\<exists>up. launch P L c0 la fs = Listening up \<and>
    (case fs_target fs of
       None \<Rightarrow> cp_loaded (sy_control (up_system up)) = None
     | Some t \<Rightarrow> (\<exists>c. checked_config (sp_unmarshal P) (sp_hash P) (la_range la) t = Inr (Inr c) \<and>
         cp_loaded (sy_control (up_system up)) = Some c))"
proof (cases "fs_target fs")
  case None
  have raw: "launch_raw L c0 la fs = ''''" using quiet_raw(1) [OF assms(2,4) None, of c0] assms(3) by simp
  have "\<not> la_log_fails la" using assms(4) by (simp add: quiet_def)
  moreover have "\<not> fatal_raw (sp_unmarshal P) (launch_raw L c0 la fs)" by (simp add: raw fatal_raw_def)
  ultimately obtain up where "launch P L c0 la fs = Listening up"
    "cp_loaded (sy_control (up_system up)) = first_config (sp_unmarshal P) (sp_hash P) (la_range la) (launch_raw L c0 la fs)"
    by (rule launch_listens)
  then show ?thesis by (intro exI [of _ up]) (simp add: None raw first_config_def checked_config_def)
next
  case (Some t)
  have "loadable (sp_unmarshal P) t" using disk_reachable_good [OF assms(5)] Some by (simp add: disk_good_def)
  with assms(2,4,1) Some obtain up c where "launch P L c0 la fs = Listening up" "cp_loaded (sy_control (up_system up)) = Some c"
    "checked_config (sp_unmarshal P) (sp_hash P) (la_range la) t = Inr (Inr c)"
    by (rule restart_loads)
  with Some show ?thesis by auto
qed

theorem last_good_boots_witness:
  "\<exists>up. launch race_platform text_lib '''' (test_launch None) \<lparr>fs_target = Some ''v1'', fs_temps = []\<rparr> = Listening up \<and>
     cp_loaded (sy_control (up_system up)) = Some (race_config ''v1'')"
  using last_good_boots [OF _ _ _ text_lib_ok(2) disk_after_life] race_checked(1)
  by (simp add: race_platform_simps test_hashes text_lib_ok) (simp add: text_lib_def test_launch_def)

text \<open>C23: save and restart is a round trip, up to ties. When \<open>tryLoad\<close> installed a new configuration and no file
  operation failed, a process that starts from the disk alone comes up with a valid configuration that has the
  same rules, regions, hobs, modes and version; only rules of the same rank may have changed places, since
  every load visits the rules in an order of its own. If no two different rules have the same rank, it is
  exactly the configuration that was installed.\<close>

theorem restart_roundtrip:
  assumes "config_ok L (sp_unmarshal P)" and "quiet L la" and "hashes (sp_hash P)"
    and "tryLoad (sp_unmarshal P) (sp_hash P) a cp = Inr (None, cp')" and "currentHash cp' \<noteq> currentHash cp"
    and "\<forall>op. \<not> at_fails a op"
  shows "\<exists>up c c'. launch P L c0 la (cp_fs cp') = Listening up \<and>
    cp_loaded cp' = Some c \<and> cp_loaded (sy_control (up_system up)) = Some c' \<and>
    same_up_to_ties c c' \<and> config_valid c' \<and>
    ((\<exists>p. sp_unmarshal P (at_raw a) = Some p \<and> ranks_differ (pc_Rules p)) \<longrightarrow> c' = c)"
proof -
  obtain c where c: "checked_config (sp_unmarshal P) (sp_hash P) (at_range a) (at_raw a) = Inr (Inr c)"
    "cp_loaded cp' = Some c" "cp_fs cp' = snd (saveConfigToFile (at_fails a) (at_part a) (at_raw a) (cp_fs cp))"
    using assms(4,5) by (rule tryLoad_new)
  have of_c: "config_of (sp_unmarshal P) (sp_hash P) (at_raw a) c" using c(1) unfolding config_of_def by blast
  have "fs_target (cp_fs cp') = Some (at_raw a)" using assms(6) by (simp add: c(3) saveConfigToFile_def)
  then obtain up c' where up: "launch P L c0 la (cp_fs cp') = Listening up" "cp_loaded (sy_control (up_system up)) = Some c'"
    "checked_config (sp_unmarshal P) (sp_hash P) (la_range la) (at_raw a) = Inr (Inr c')"
    using restart_loads [OF assms(1,2,3) _ config_of_loadable [OF of_c]] by metis
  have of_c': "config_of (sp_unmarshal P) (sp_hash P) (at_raw a) c'" using up(3) unfolding config_of_def by blast
  have "c' = c" if "sp_unmarshal P (at_raw a) = Some p" "ranks_differ (pc_Rules p)" for p
    by (rule config_of_same(2) [OF of_c of_c']) (use that in simp)
  with up(1,2) c(2) config_of_same(1) [OF of_c of_c'] config_of_valid [OF of_c'] show ?thesis by blast
qed

theorem restart_roundtrip_witness:
  "\<exists>up. launch race_platform text_lib '''' (test_launch None) \<lparr>fs_target = Some ''v1'', fs_temps = []\<rparr> = Listening up \<and>
     cp_loaded (sy_control (up_system up)) = Some (race_config ''v1'')"
proof -
  let ?cp = "stored ''v1'' (race_config ''v1'') (new_cp \<lparr>fs_target = None, fs_temps = []\<rparr>)"
  have p: "race_unmarshal ''v1'' = Some (the (race_unmarshal ''v1''))" by (simp add: race_unmarshal_def)
  have "\<exists>p. sp_unmarshal race_platform (at_raw (test_attempt ''v1'')) = Some p \<and> ranks_differ (pc_Rules p)"
    using p race_ranks [OF p] unfolding race_platform_simps test_attempt_def by auto
  moreover have "cp_loaded ?cp = Some (race_config ''v1'')" "cp_fs ?cp = \<lparr>fs_target = Some ''v1'', fs_temps = []\<rparr>"
    by (simp_all add: stored_def new_cp_def)
  moreover have "currentHash ?cp \<noteq> currentHash (new_cp \<lparr>fs_target = None, fs_temps = []\<rparr>)" by (simp add: race_checked(3))
  ultimately show ?thesis
    using restart_roundtrip [OF _ text_lib_ok(2) _ race_load [folded race_platform_simps], of "''''"]
    by (auto simp: race_platform_simps text_lib_ok(1) test_hashes) (auto simp: test_attempt_def)
qed

text \<open>C24: a copy that could not be written is not written later. When one file operation fails while a new
  configuration is installed whose rules differ in rank, reloads of the same configuration find its hash unchanged
  and return before they save, even if the disk works again: after a restart the proxy is back at the older
  configuration. (With rules of the same rank a reload may take them in another order, find another hash, and
  save after all.)\<close>

theorem failed_save_stays:
  assumes "config_ok L (sp_unmarshal P)" and "quiet L la" and "hashes (sp_hash P)"
    and "tryLoad (sp_unmarshal P) (sp_hash P) a cp = Inr (None, cp')" and "currentHash cp' \<noteq> currentHash cp"
    and "sp_unmarshal P (at_raw a) = Some p" and "ranks_differ (pc_Rules p)"
    and "\<exists>op. at_fails a op" and "\<forall>b\<in>set as. at_raw b = at_raw a"
    and "loadCycle (sp_unmarshal P) (sp_hash P) as cp' = Some (Inr cp'')"
    and "fs_target (cp_fs cp) = Some t" and "loadable (sp_unmarshal P) t"
  shows "cp'' = cp' \<and>
    (\<exists>up old. launch P L c0 la (cp_fs cp'') = Listening up \<and> cp_loaded (sy_control (up_system up)) = Some old \<and>
       checked_config (sp_unmarshal P) (sp_hash P) (la_range la) t = Inr (Inr old))"
proof -
  obtain c where c: "checked_config (sp_unmarshal P) (sp_hash P) (at_range a) (at_raw a) = Inr (Inr c)"
    "cp_loaded cp' = Some c" "cp_fs cp' = snd (saveConfigToFile (at_fails a) (at_part a) (at_raw a) (cp_fs cp))"
    using assms(4,5) by (rule tryLoad_new)
  have of_c: "config_of (sp_unmarshal P) (sp_hash P) (at_raw a) c" using c(1) unfolding config_of_def by blast
  have again: "checked_config (sp_unmarshal P) (sp_hash P) ns (at_raw a) = Inr (Inr c)" for ns
  proof -
    obtain d where d: "checked_config (sp_unmarshal P) (sp_hash P) ns (at_raw a) = Inr (Inr d)"
      using checked_loadable config_of_loadable [OF of_c] by blast
    have "d = c" by (rule config_of_same(2) [OF of_c]) (use d assms(6,7) in \<open>auto simp: config_of_def\<close>)
    with d show ?thesis by simp
  qed
  have "at_fails a MkdirAll \<or> at_fails a TempFile \<or> at_fails a WriteFile \<or> at_fails a Rename"
    using assms(8) by (metis fs_op.exhaust)
  then have "fs_target (cp_fs cp') = Some t"
    using assms(11) by (auto simp: c(3) saveConfigToFile_def)
  moreover have "cp'' = cp'"
    using assms(9,10) again c(2) by (cases as) (auto simp: tryLoad_checked currentHash_def loadedConfig_def split: if_splits)
  ultimately show ?thesis using restart_loads [OF assms(1,2,3) _ assms(12), of "cp_fs cp'" c0] by metis
qed

theorem failed_save_stays_witness:
  "let full = (test_attempt ''v2'')\<lparr>at_fails := \<lambda>op. op = WriteFile\<rparr>;
       cp = stored ''v1'' (race_config ''v1'') (new_cp \<lparr>fs_target = None, fs_temps = []\<rparr>);
       cp' = cp\<lparr>cp_loaded := Some (race_config ''v2''), cp_fs := (cp_fs cp)\<lparr>fs_temps := [''''] \<rparr>\<rparr>
   in tryLoad race_unmarshal test_hash full cp = Inr (None, cp') \<and>
      (\<exists>up. launch race_platform text_lib '''' (test_launch None) (cp_fs cp') = Listening up \<and>
         cp_loaded (sy_control (up_system up)) = Some (race_config ''v1''))"
proof -
  let ?full = "(test_attempt ''v2'')\<lparr>at_fails := \<lambda>op. op = WriteFile\<rparr>"
  let ?cp = "stored ''v1'' (race_config ''v1'') (new_cp \<lparr>fs_target = None, fs_temps = []\<rparr>)"
  let ?cp' = "?cp\<lparr>cp_loaded := Some (race_config ''v2''), cp_fs := (cp_fs ?cp)\<lparr>fs_temps := [''''] \<rparr>\<rparr>"
  have hash': "currentHash ?cp' = ''2''" using race_checked(4) by (simp add: currentHash_def loadedConfig_def)
  have t: "tryLoad race_unmarshal test_hash ?full ?cp = Inr (None, ?cp')"
    using race_checked(2,3,4)
    by (simp add: tryLoad_checked test_attempt_def saveConfigToFile_def) (simp add: stored_def new_cp_def)
  have again: "loadCycle race_unmarshal test_hash [test_attempt ''v2''] ?cp' = Some (Inr ?cp')"
    using race_checked(2,4) hash' by (simp add: tryLoad_checked test_attempt_def)
  let ?p = "the (race_unmarshal ''v2'')"
  have p: "race_unmarshal ''v2'' = Some ?p" by (simp add: race_unmarshal_def)
  have v1: "loadable race_unmarshal ''v1''"
    by (rule config_of_loadable [of _ test_hash _ "race_config ''v1''"]) (simp add: race_config_of)
  have "\<exists>up old. launch race_platform text_lib '''' (test_launch None) (cp_fs ?cp') = Listening up \<and>
      cp_loaded (sy_control (up_system up)) = Some old \<and>
      checked_config race_unmarshal test_hash (la_range (test_launch None)) ''v1'' = Inr (Inr old)"
    using failed_save_stays [of text_lib race_platform "test_launch None" ?full ?cp ?cp' ?p "[test_attempt ''v2'']" ?cp' "''v1''" "''''"]
      t again hash' p race_ranks [OF p] v1 race_checked(3)
    by (simp add: race_platform_simps text_lib_ok test_hashes test_attempt_def) (simp add: stored_def)
  then have "\<exists>up. launch race_platform text_lib '''' (test_launch None) (cp_fs ?cp') = Listening up \<and>
      cp_loaded (sy_control (up_system up)) = Some (race_config ''v1'')"
    using race_checked(1) by (auto simp: test_launch_def)
  with t show ?thesis unfolding Let_def by blast
qed

end
