(* ===== verification/Routing_Spec.thy ===== *)
theory Routing_Spec
  imports Reload_Race
begin

text \<open>
  What \<open>Handler\<close> of \<open>src/handler/handler.go\<close> decides, as a function. The code finds out in passing: the
  router reads the request through an extractor that parses it at the first need, completes its header,
  restores its body, may write a hob into its query, and loads the configuration anew in each operation.
  Here the decision is a value computed from what the request says (\<open>req_view\<close>), its forced route and host
  name, and the configurations that the three operations find: the back end, the mode announced, and the URLs
  the client is pinned to. \<open>perform\<close> carries a decision out, on the request as the router leaves it
  (\<open>passed_request\<close>). All of this is specification; the code is in \<open>Dispatch\<close>, \<open>Router\<close> and \<open>Extractor\<close>.
\<close>

section \<open>The decision\<close>

text \<open>The rule is needed only where its payload is: to turn a request away.\<close>

datatype back_end = To_H1 | To_H2 action | Throttled rule | Deprecated rule

record decision =
  de_back_end :: back_end
  de_pin :: "(urls option \<times> int) option"
  de_mode :: string

definition first_rule :: "(nat \<Rightarrow> f32) \<Rightarrow> sorted_rules \<Rightarrow> req_view \<Rightarrow> rule option" where
  "first_rule rolls rs v =
     (case find (\<lambda>j. rule_view (rolls j) (rs ! j) v) [0..<length rs] of None \<Rightarrow> None | Some j \<Rightarrow> rs ! j)"

definition decide_rule :: "cp_config \<Rightarrow> (nat \<Rightarrow> f32) \<Rightarrow> string \<Rightarrow> req_view \<Rightarrow> rule option" where
  "decide_rule cfg rolls route v =
     (case forceRoute route of Some r \<Rightarrow> Some r | None \<Rightarrow> first_rule rolls (cf_rules cfg) v)"

definition back_end_of :: "rule option \<Rightarrow> back_end" where
  "back_end_of r =
     (case r of
        None \<Rightarrow> To_H2 ActionSendToH2
      | Some rule \<Rightarrow>
          if r_Action rule = ActionProxyToH1 then To_H1
          else if r_Action rule = ActionThrottle then Throttled rule
          else if r_Action rule = ActionDeprecate then Deprecated rule
          else To_H2 (r_Action rule))"

fun back_end_action :: "back_end \<Rightarrow> action" where
  "back_end_action To_H1 = ActionProxyToH1"
| "back_end_action (To_H2 a) = a"
| "back_end_action (Throttled _) = ActionThrottle"
| "back_end_action (Deprecated _) = ActionDeprecate"

definition decide_pin :: "cp_config \<Rightarrow> string \<Rightarrow> header \<Rightarrow> req_view \<Rightarrow> (urls option \<times> int) option" where
  "decide_pin cfg host rwh v =
     (if rv_hob v = '''' \<and> header_get rwh ''X-H-HOB'' = '''' then None
      else (case select_region cfg (rv_hob v) of
        None \<Rightarrow> None
      | Some g \<Rightarrow> (let us = Region_Urls g (rv_source v)
          in if host = api_url us then None else Some (us, cf_version cfg))))"

definition decide_mode :: "cp_config \<Rightarrow> string \<Rightarrow> req_view \<Rightarrow> string" where
  "decide_mode cfg route v =
     (if route = ''H1'' then ''h1'' else if route = ''H2'' then ''h2''
      else HobModes_Find (cf_hobModes cfg) (rv_hob v))"

definition decide :: "(nat \<Rightarrow> cp_config) \<Rightarrow> (nat \<Rightarrow> f32) \<Rightarrow> request \<Rightarrow> header \<Rightarrow> req_view \<Rightarrow> decision" where
  "decide cfgs rolls r rwh v =
     \<lparr>de_back_end = back_end_of (decide_rule (cfgs 0) rolls (forced_header r) v), de_pin = decide_pin (cfgs 1) (rq_Host r) rwh v,
      de_mode = decide_mode (cfgs 2) (forced_header r) v\<rparr>"

section \<open>Carrying it out\<close>

definition announce :: "decision \<Rightarrow> rwriter \<Rightarrow> rwriter" where
  "announce d w =
     set_hdr ''X-Hailo-Route'' (Action_String (back_end_action (de_back_end d)))
       (set_mode (de_mode d) (case de_pin d of None \<Rightarrow> w | Some (us, v) \<Rightarrow> pinRequestToHostname v us w))"

text \<open>\<open>r\<close> is the request for the back end. The handler of H2 asks a router again when a service answers that the
  hob belongs elsewhere, so it gets the router too.\<close>

definition perform ::
    "env \<Rightarrow> mappings \<Rightarrow> upstream \<Rightarrow> 'r router_if \<Rightarrow> 'r \<Rightarrow> request \<Rightarrow> decision \<Rightarrow> rwriter \<Rightarrow> rwriter \<times> event list" where
  "perform E m up R rs r d w =
     (let w' = announce d w in
      case de_back_end d of
        To_H1 \<Rightarrow> h1Handler (en_az E) m up r w'
      | To_H2 a \<Rightarrow> h2Handler E R rs w'
      | Throttled rule \<Rightarrow> throttleHandler rule r w'
      | Deprecated rule \<Rightarrow> deprecateHandler rule r w')"

section \<open>One refinement lemma per operation\<close>

lemma first_rule_loop:
  "route_loop (request_extractor mime hx) rolls 0 rs e = (res, e') \<Longrightarrow>
     res = first_rule rolls rs (request_view mime hx e) \<and> request_view mime hx e' = request_view mime hx e"
proof -
  assume loop: "route_loop (request_extractor mime hx) rolls 0 rs e = (res, e')"
  let ?m = "\<lambda>j. rule_view (rolls j) (rs ! j) (request_view mime hx e)"
  note law = rx.route_loop_law [OF loop]
  have "res = first_rule rolls rs (request_view mime hx e)"
  proof (cases res)
    case None
    with law have "find ?m [0..<length rs] = None" by (auto simp: find_None_iff)
    with None show ?thesis by (simp add: first_rule_def)
  next
    case (Some r)
    with law obtain j where j: "j < length rs" "rs ! j = Some r" "?m j" "\<forall>k<j. \<not> ?m k" by auto
    have "find ?m [0..<length rs] = Some j"
      using j by (auto simp: find_Some_iff intro!: exI [of _ j])
    with j Some show ?thesis by (simp add: first_rule_def)
  qed
  with law show ?thesis by blast
qed

lemma route_decides:
  assumes "Route (request_extractor mime hx) cfg rolls e = (res, e')"
  shows "res = decide_rule cfg rolls (forced_header (ex_req e)) (request_view mime hx e) \<and>
    request_view mime hx e' = request_view mime hx e"
proof -
  have "forced_route (request_extractor mime hx) e = forceRoute (forced_header (ex_req e))"
    by (simp add: forced_route_def request_extractor_def ex_Header_def forced_header_def forceRoute_def to_upper_def Let_def)
  with assms first_rule_loop [of mime hx rolls "cf_rules cfg" e] show ?thesis
    by (auto simp: Route_def decide_rule_def split: option.splits)
qed

lemma pin_decides:
  assumes "CorrectHostname (request_extractor mime hx) cfg rwh e = (c, e')"
  shows "decide_pin cfg (rq_Host (ex_req e)) rwh (request_view mime hx e) =
      (if hc_err c = None \<and> \<not> hc_correct c then Some (hc_urls c, hc_version c) else None) \<and>
    request_view mime hx e' = request_view mime hx e"
proof -
  have "c = fst (CorrectHostname (request_extractor mime hx) cfg rwh e)" using assms by simp
  with rx.CorrectHostname_law(4) [OF assms] show ?thesis
    by (auto simp: CorrectHostname_eq decide_pin_def Let_def split: option.split)
qed

lemma mode_decides:
  assumes "GetHobMode (request_extractor mime hx) cfg e = (m, e')"
  shows "m = decide_mode cfg (forced_header (ex_req e)) (request_view mime hx e) \<and>
    request_view mime hx e' = request_view mime hx e"
  using assms rx.hob_law [of mime hx e]
  by (auto simp: GetHobMode_def decide_mode_def forced_header_def request_extractor_def ex_Header_def Let_def
      split: prod.splits if_splits)

lemma back_end_of_action: "back_end_action (back_end_of x) = (case x of None \<Rightarrow> ActionSendToH2 | Some r \<Rightarrow> r_Action r)"
  by (simp add: back_end_of_def split: option.split)

lemma api_Handler_performs:
  assumes "ri_Route R rolls rs = (x, rs1)" and "de_back_end d = back_end_of x"
    and "maybePinRequestToHostname R rs1 w =
      ((case de_pin d of None \<Rightarrow> w | Some (us, v) \<Rightarrow> pinRequestToHostname v us w), rs2)"
    and "ri_GetHobMode R rs2 = (de_mode d, rs3)"
  shows "api_Handler E m up R rolls rs w = perform E m up R rs3 (ri_request R rs3) d w"
  by (cases x) (simp_all add: api_Handler_def assms perform_def announce_def back_end_of_action Let_def,
    simp_all add: back_end_of_def)

text \<open>The values extracted from a request do not depend on the host name it came in under.\<close>

lemma complete_host: "complete_content_type mime (r\<lparr>rq_Host := h\<rparr>) = (complete_content_type mime r)\<lparr>rq_Host := h\<rparr>"
  by (simp add: complete_content_type_def)

lemma parse_post_host: "parse_post_form mime (r\<lparr>rq_Host := h\<rparr>) = parse_post_form mime r"
  by (simp add: parse_post_form_def cong: if_cong option.case_cong body.case_cong)

lemma parse_form_host:
  "parse_form mime (r\<lparr>rq_Host := h\<rparr>) = map_prod (\<lambda>r. r\<lparr>rq_Host := h\<rparr>) id (parse_form mime r)"
proof -
  have 1: "post_form mime (r\<lparr>rq_Host := h\<rparr>) = post_form mime r"
    by (simp add: post_form_def parse_post_host cong: if_cong option.case_cong)
  have 2: "full_form (r\<lparr>rq_Host := h\<rparr>) pf e = full_form r pf e" for pf e
    by (simp add: full_form_def cong: if_cong option.case_cong)
  show ?thesis by (simp add: parse_form_def 1 2 split: prod.split)
qed

lemma SessionId_host: "SessionId hx (Some (r\<lparr>rq_Host := h\<rparr>)) = SessionId hx (Some r)"
  by (simp add: SessionId_def Let_def cong: if_cong)

lemma doExtraction_host:
  "ex_values (doExtraction mime hx (newExtractor (r\<lparr>rq_Host := h\<rparr>))) = ex_values (doExtraction mime hx (newExtractor r))"
proof -
  have c: "r\<lparr>rq_Host := h, rq_Body := b\<rparr> = (r\<lparr>rq_Body := b\<rparr>)\<lparr>rq_Host := h\<rparr>" for b by simp
  show ?thesis
    unfolding doExtraction_def newExtractor_def Let_def
    by (simp add: c complete_host parse_form_host SessionId_host drainBody_def split: prod.split body.split)
qed

text \<open>A client that repeats its request where it was told to.\<close>

definition hostname_check ::
    "(string \<Rightarrow> string option) \<Rightarrow> (string, header_extractor) gomap \<Rightarrow> cp_config \<Rightarrow> header \<Rightarrow> request \<Rightarrow> hostname_check" where
  "hostname_check mime hx cfg rwh r = fst (CorrectHostname (request_extractor mime hx) cfg rwh (newExtractor r))"

definition wrong_host :: "hostname_check \<Rightarrow> bool" where
  "wrong_host c \<longleftrightarrow> hc_err c = None \<and> \<not> hc_correct c"

definition follow_pin ::
    "(string \<Rightarrow> string option) \<Rightarrow> (string, header_extractor) gomap \<Rightarrow> cp_config \<Rightarrow> header \<Rightarrow> request \<Rightarrow> request" where
  "follow_pin mime hx cfg rwh r =
     (let c = hostname_check mime hx cfg rwh r in if wrong_host c then r\<lparr>rq_Host := api_url (hc_urls c)\<rparr> else r)"

lemma hostname_check_eq:
  "hostname_check mime hx cfg rwh r =
     (let v = request_view mime hx (newExtractor r) in
      if rv_hob v = '''' \<and> header_get rwh ''X-H-HOB'' = '''' then
        \<lparr>hc_err = Some NoHob, hc_correct = False, hc_urls = None, hc_version = 0\<rparr>
      else (case select_region cfg (rv_hob v) of
          None \<Rightarrow> \<lparr>hc_err = Some NoRegion, hc_correct = False, hc_urls = None, hc_version = cf_version cfg\<rparr>
        | Some g \<Rightarrow> \<lparr>hc_err = None, hc_correct = (rq_Host r = api_url (Region_Urls g (rv_source v))),
            hc_urls = Region_Urls g (rv_source v), hc_version = cf_version cfg\<rparr>))"
proof -
  have new: "ex_req (newExtractor r) = r" by (simp add: newExtractor_def)
  show ?thesis unfolding hostname_check_def CorrectHostname_eq new ..
qed

lemma other_host_view:
  assumes "names_hob mime hx r"
  shows "rv_hob (request_view mime hx (newExtractor (r\<lparr>rq_Host := h\<rparr>))) = rv_hob (request_view mime hx (newExtractor r))"
proof -
  have "ex_get (settle mime hx (newExtractor (r\<lparr>rq_Host := h\<rparr>))) n = ex_get (settle mime hx (newExtractor r)) n" for n
    using doExtraction_host [of mime hx h r] by (simp add: ex_get_def settle_def) (simp add: newExtractor_def)
  with assms show ?thesis by (simp add: request_view_def request_hob_def names_hob_def Let_def)
qed

lemma view_source: "rv_source (request_view mime hx (newExtractor r)) = request_source r"
proof -
  have "canonical_key ''X-H-Source'' \<noteq> canonical_key ''Content-Type''" by code_simp
  then show ?thesis
    by (simp add: request_view_def request_source_def settle_header Let_def) (simp add: newExtractor_def)
qed

lemma passed_frame:
  "rq_Body (passed_request mime hx r) = (case rq_Body r of BadBody \<Rightarrow> NoBody | b \<Rightarrow> b)"
  "rq_Header (passed_request mime hx r) = rq_Header r \<or>
     rq_Header (passed_request mime hx r) = header_set ''Content-Type'' form_mime (rq_Header r)"
  "vals (url_query (passed_request mime hx r)) k = vals (url_query r) k @
     (if k = ''city'' \<and> \<not> names_hob mime hx r
      then (case map_of hostMap (rq_Host r) of None \<Rightarrow> [] | Some code \<Rightarrow> [code]) else [])"
proof -
  have wf: "wf_map (values_add ''city'' code (url_query r))" for code
    using wf_values_add [OF query_of_wf] by (simp add: wf_values_def)
  show "rq_Body (passed_request mime hx r) = (case rq_Body r of BadBody \<Rightarrow> NoBody | b \<Rightarrow> b)"
    "rq_Header (passed_request mime hx r) = rq_Header r \<or>
     rq_Header (passed_request mime hx r) = header_set ''Content-Type'' form_mime (rq_Header r)"
    by (auto simp: passed_request_def complete_content_type_def Let_def split: option.split body.split)
  show "vals (url_query (passed_request mime hx r)) k = vals (url_query r) k @
     (if k = ''city'' \<and> \<not> names_hob mime hx r
      then (case map_of hostMap (rq_Host r) of None \<Rightarrow> [] | Some code \<Rightarrow> [code]) else [])"
    by (auto simp: passed_request_def Let_def parse_values_encode [OF wf] split: option.split)
qed

section \<open>Properties\<close>

text \<open>C3: \<open>Handler\<close> does what the decision says. For every request and any reloads while it is handled, the answer
  and everything that goes out of the proxy are those of carrying out the decision, which depends on the
  configurations that the first three loads find and on what the request says, and on nothing the router did to
  it. The request for the back end is the one that came, with its method, path, host and body and all headers
  but one: the content type may be completed, the forms are parsed, and the code of a known host is added to
  the query if the request does not name its hob; only a body that cannot be read is lost.\<close>

theorem handler_decides:
  "let v = request_view (en_mime E) (en_hx E) (newExtractor r);
       e = passed_extractor (en_mime E) (en_hx E) r; r' = passed_request (en_mime E) (en_hx E) r in
    racing_handler E m up cfgs rolls r w =
      perform E m up (racing_router (en_mime E) (en_hx E) cfgs) (e, 3) r' (decide cfgs rolls r (rw_Header w) v) w \<and>
    ex_req e = r' \<and> request_view (en_mime E) (en_hx E) e = v \<and>
    call_data r' = call_data r \<and> forced_header r' = forced_header r \<and>
    rq_Body r' = (case rq_Body r of BadBody \<Rightarrow> NoBody | b \<Rightarrow> b) \<and>
    (rq_Header r' = rq_Header r \<or> rq_Header r' = header_set ''Content-Type'' form_mime (rq_Header r)) \<and>
    vals (url_query r') k = vals (url_query r) k @
      (if k = ''city'' \<and> \<not> names_hob (en_mime E) (en_hx E) r
       then (case map_of hostMap (rq_Host r) of None \<Rightarrow> [] | Some code \<Rightarrow> [code]) else [])"
proof -
  let ?R = "racing_router (en_mime E) (en_hx E) cfgs" and ?I = "request_extractor (en_mime E) (en_hx E)"
  let ?v = "request_view (en_mime E) (en_hx E) (newExtractor r)" and ?e = "passed_extractor (en_mime E) (en_hx E) r"
  let ?d = "decide cfgs rolls r (rw_Header w) ?v"
  obtain x e1 where 1: "Route ?I (cfgs 0) rolls (newExtractor r) = (x, e1)" by fastforce
  note way = route_on_its_way [OF passed_on_its_way(2) 1]
  obtain c e2 where 2: "CorrectHostname ?I (cfgs 1) (rw_Header w) e1 = (c, e2)" by fastforce
  have e2: "e2 = ?e" by (rule hostname_passes [OF way 2])
  obtain mo e3 where 3: "GetHobMode ?I (cfgs 2) e2 = (mo, e3)" by fastforce
  have e3: "e3 = ?e" by (rule mode_passes [OF 3 [unfolded e2]])
  have ops: "ri_Route ?R rolls (newExtractor r, 0) = (x, (e1, Suc 0))"
    "ri_CorrectHostname ?R (rw_Header w) (e1, Suc 0) = (c, (e2, 2))" "ri_GetHobMode ?R (e2, 2) = (mo, (e3, 3))"
    using 1 2 3 by (simp_all add: racing_router_def counted_def Let_def)
  have within: "works_within r (ex_req e1)" "works_within (ex_req e1) (ex_req e2)"
    using racing.route_within [of "en_mime E" "en_hx E" cfgs "(newExtractor r, 0)" rolls]
      racing.hostname_within [of "en_mime E" "en_hx E" cfgs "(e1, Suc 0)" "rw_Header w"]
    by (simp_all add: ops) (simp_all add: racing_router_def newExtractor_def Let_def)
  then have fr: "forced_header (ex_req e1) = forced_header r" "forced_header (ex_req e2) = forced_header r"
    "rq_Host (ex_req e1) = rq_Host r"
    by (simp_all add: works_within_def call_data_def)
  have new: "ex_req (newExtractor r) = r" by (simp add: newExtractor_def)
  note d = route_decides [OF 1] pin_decides [OF 2] mode_decides [OF 3]
  have dec: "de_back_end ?d = back_end_of x" "mo = de_mode ?d"
    "de_pin ?d = (if hc_err c = None \<and> \<not> hc_correct c then Some (hc_urls c, hc_version c) else None)"
    using d by (simp_all add: decide_def fr new)
  have "maybePinRequestToHostname ?R (e1, Suc 0) w =
      ((case de_pin ?d of None \<Rightarrow> w | Some (us, v) \<Rightarrow> pinRequestToHostname v us w), (e2, 2))"
    by (simp add: maybePinRequestToHostname_def ops dec)
  from api_Handler_performs [OF ops(1) dec(1) this ops(3) [unfolded dec]]
  have run: "racing_handler E m up cfgs rolls r w =
      perform E m up ?R (?e, 3) (passed_request (en_mime E) (en_hx E) r) ?d w"
    by (simp add: racing_handler_def e3 racing_request passed_extractor_request)
  have "request_view (en_mime E) (en_hx E) ?e = ?v" using d by (simp add: e2)
  moreover have "works_within r (passed_request (en_mime E) (en_hx E) r)"
    using within_trans [OF within] by (simp add: e2 passed_extractor_request)
  ultimately show ?thesis
    using run passed_frame [of "en_mime E" "en_hx E" r]
    unfolding Let_def works_within_def passed_extractor_request by blast
qed

theorem handler_decides_witness:
  "let r = plain_request\<lparr>rq_Host := ''api-driver.elasticride.com'', rq_Body := Body ''a=b''\<rparr>;
       r' = passed_request (en_mime test_env) (en_hx test_env) r in
    rq_Body r' = Body ''a=b'' \<and> vals (url_query r') ''city'' = vals (url_query r) ''city'' @ [''LON'']"
proof -
  let ?r = "plain_request\<lparr>rq_Host := ''api-driver.elasticride.com'', rq_Body := Body ''a=b''\<rparr>"
  let ?q = "passed_request (en_mime test_env) (en_hx test_env) ?r"
  have n: "\<not> names_hob (en_mime test_env) (en_hx test_env) ?r" by code_simp
  have h: "map_of hostMap ''api-driver.elasticride.com'' = Some ''LON''" by code_simp
  have "rq_Body ?q = (case rq_Body ?r of BadBody \<Rightarrow> NoBody | b \<Rightarrow> b) \<and>
      vals (url_query ?q) ''city'' = vals (url_query ?r) ''city'' @
      (if ''city'' = ''city'' \<and> \<not> names_hob (en_mime test_env) (en_hx test_env) ?r
       then (case map_of hostMap (rq_Host ?r) of None \<Rightarrow> [] | Some code \<Rightarrow> [code]) else [])"
    using handler_decides [of test_env ?r "[]" "test_upstream []" "\<lambda>_. test_config" "\<lambda>_. 0" new_rwriter "''city''"]
    unfolding Let_def by blast
  with n h show ?thesis by (simp add: Let_def)
qed

text \<open>C20: when a client that goes where it is told is told to go elsewhere again. A request that names its hob is
  repeated under the host name announced, and the configuration is the same: it is pinned again exactly if it was
  pinned the first time and the new host name makes it come from another kind of client, whose URL for the
  region is not that host. Otherwise it is at the right place, and following the answer changes nothing more;
  in particular when the host names do not change what kind of client it comes from.\<close>

theorem pinned_once:
  assumes "names_hob mime hx r"
  shows "let r' = follow_pin mime hx cfg rwh r; hob = rv_hob (request_view mime hx (newExtractor r));
      url = (\<lambda>q. map_option (\<lambda>g. api_url (Region_Urls g (request_source q))) (select_region cfg hob)) in
    (wrong_host (hostname_check mime hx cfg rwh r) \<longleftrightarrow> url r \<noteq> None \<and> url r \<noteq> Some (rq_Host r)) \<and>
    (wrong_host (hostname_check mime hx cfg rwh' r') \<longleftrightarrow>
       wrong_host (hostname_check mime hx cfg rwh r) \<and> url r = Some (rq_Host r') \<and> url r' \<noteq> url r) \<and>
    (request_source r' = request_source r \<longrightarrow> follow_pin mime hx cfg rwh' r' = r')"
proof -
  let ?v = "\<lambda>r. request_view mime hx (newExtractor r)" and ?r = "follow_pin mime hx cfg rwh r"
  let ?url = "\<lambda>q. map_option (\<lambda>g. api_url (Region_Urls g (request_source q))) (select_region cfg (rv_hob (?v r)))"
  have hob: "rv_hob (?v r) \<noteq> ''''"
    using assms by (auto simp: names_hob_def request_view_def request_hob_def Let_def)
  have hob': "rv_hob (?v ?r) = rv_hob (?v r)"
    using other_host_view [OF assms] by (simp add: follow_pin_def Let_def)
  have check: "hostname_check mime hx cfg rwh' q =
      (case select_region cfg (rv_hob (?v r)) of
         None \<Rightarrow> \<lparr>hc_err = Some NoRegion, hc_correct = False, hc_urls = None, hc_version = cf_version cfg\<rparr>
       | Some g \<Rightarrow> \<lparr>hc_err = None, hc_correct = (rq_Host q = api_url (Region_Urls g (request_source q))),
           hc_urls = Region_Urls g (request_source q), hc_version = cf_version cfg\<rparr>)"
    if "q = r \<or> q = ?r" for q rwh'
  proof -
    have h: "rv_hob (?v q) = rv_hob (?v r)" using that hob' by auto
    show ?thesis using hob unfolding hostname_check_eq Let_def view_source h by simp
  qed
  have wrong: "wrong_host (hostname_check mime hx cfg rwh' q) \<longleftrightarrow> ?url q \<noteq> None \<and> ?url q \<noteq> Some (rq_Host q)"
    if "q = r \<or> q = ?r" for q rwh'
    by (auto simp: check [OF that] wrong_host_def split: option.split)
  have pinned: "rq_Host ?r = (case ?url r of None \<Rightarrow> rq_Host r | Some u \<Rightarrow> u)"
    by (auto simp: follow_pin_def check wrong_host_def split: option.split)
  have "?r = r" if "\<not> wrong_host (hostname_check mime hx cfg rwh r)"
    using that by (simp add: follow_pin_def Let_def)
  then have again: "wrong_host (hostname_check mime hx cfg rwh' ?r) \<longleftrightarrow>
      wrong_host (hostname_check mime hx cfg rwh r) \<and> ?url r = Some (rq_Host ?r) \<and> ?url ?r \<noteq> ?url r"
    using wrong [of r] wrong [of ?r rwh'] pinned by (auto split: option.splits)
  have "follow_pin mime hx cfg rwh' ?r = ?r" if "request_source ?r = request_source r"
  proof -
    have "?url ?r = ?url r" by (simp add: that)
    with again have "\<not> wrong_host (hostname_check mime hx cfg rwh' ?r)" by blast
    then show ?thesis by (simp add: follow_pin_def [of _ _ _ _ ?r] Let_def)
  qed
  with again wrong [of r rwh] show ?thesis unfolding Let_def by blast
qed

theorem pinned_once_witness:
  "let r = plain_request\<lparr>rq_RawQuery := ''city=NYC''\<rparr>; r' = follow_pin test_mime headerExtractors test_config [] r in
    wrong_host (hostname_check test_mime headerExtractors test_config [] r) \<and> rq_Host r' = ''api.eu.elasticride.com'' \<and>
    \<not> wrong_host (hostname_check test_mime headerExtractors test_config [] r')"
proof -
  let ?r = "plain_request\<lparr>rq_RawQuery := ''city=NYC''\<rparr>"
  have "names_hob test_mime headerExtractors ?r"
    "wrong_host (hostname_check test_mime headerExtractors test_config [] ?r)"
    "request_source (follow_pin test_mime headerExtractors test_config [] ?r) = request_source ?r"
    "rq_Host (follow_pin test_mime headerExtractors test_config [] ?r) = ''api.eu.elasticride.com''"
    by code_simp+
  with pinned_once [of test_mime headerExtractors ?r test_config "[]" "[]"] show ?thesis by (auto simp: Let_def)
qed

end
