(* ===== verification/Config_Store.thy ===== *)
theory Config_Store
  imports Control_Plane
begin

text \<open>
  The configuration in memory, between loads and requests: \<open>loadedConfig\<close> and the second half of \<open>tryLoad\<close> in
  \<open>src/controlplane/controlplane.go\<close>, cut into their accesses to shared memory.

  A \<open>loadedCpConfig\<close> is a struct on the heap, and \<open>_loadedConfig\<close> a pointer that is loaded and stored
  atomically. Nothing else is atomic: a struct is filled in and copied one field at a time, and any number of
  loads and readers run beside each other. Slices, maps and strings are values here: no code writes through
  them once a configuration is parsed.

  \<open>register\<close> is what the rest of the development takes the control plane for: a register that is read
  and written as a whole.
\<close>

section \<open>Structs, one field at a time\<close>

datatype cfg_field = F_rules | F_regions | F_hobRegions | F_hobModes | F_rConfigVersion | F_configHash

definition all_fields :: "cfg_field list" where
  "all_fields = [F_rules, F_regions, F_hobRegions, F_rConfigVersion, F_hobModes, F_configHash]"

definition copy_field :: "cfg_field \<Rightarrow> cp_config \<Rightarrow> cp_config \<Rightarrow> cp_config" where
  "copy_field f src dst =
     (case f of
        F_rules \<Rightarrow> dst\<lparr>cf_rules := cf_rules src\<rparr>
      | F_regions \<Rightarrow> dst\<lparr>cf_regions := cf_regions src\<rparr>
      | F_hobRegions \<Rightarrow> dst\<lparr>cf_hobRegions := cf_hobRegions src\<rparr>
      | F_hobModes \<Rightarrow> dst\<lparr>cf_hobModes := cf_hobModes src\<rparr>
      | F_rConfigVersion \<Rightarrow> dst\<lparr>cf_version := cf_version src\<rparr>
      | F_configHash \<Rightarrow> dst\<lparr>cf_hash := cf_hash src\<rparr>)"

text \<open>The heap of structs, the next free address, and \<open>cp._loadedConfig\<close>.\<close>

record memory =
  me_heap :: "nat \<Rightarrow> cp_config"
  me_next :: nat
  me_ptr :: "nat option"

definition struct_at :: "memory \<Rightarrow> nat option \<Rightarrow> cp_config" where
  "struct_at m p = (case p of None \<Rightarrow> empty_config | Some a \<Rightarrow> me_heap m a)"

definition new_struct :: "memory \<Rightarrow> memory" where
  "new_struct m = m\<lparr>me_heap := (me_heap m)(me_next m := empty_config), me_next := Suc (me_next m)\<rparr>"

definition set_field :: "cfg_field \<Rightarrow> cp_config \<Rightarrow> nat \<Rightarrow> memory \<Rightarrow> memory" where
  "set_field f src a m = m\<lparr>me_heap := (me_heap m)(a := copy_field f src (me_heap m a))\<rparr>"

section \<open>loadedConfig\<close>

text \<open>The pointer that was loaded, the fields still to be copied, and the copy so far.\<close>

datatype snapshot = Snap "nat option" "cfg_field list" cp_config

definition snap_start :: "memory \<Rightarrow> snapshot" where
  "snap_start m = Snap (me_ptr m) all_fields empty_config"

fun snap_next :: "memory \<Rightarrow> snapshot \<Rightarrow> snapshot" where
  "snap_next m (Snap p [] d) = Snap p [] d"
| "snap_next m (Snap p (f # fs) d) = Snap p fs (copy_field f (struct_at m p) d)"

datatype read_pc = RBegin | RCopy snapshot

fun read_access :: "memory \<Rightarrow> read_pc \<Rightarrow> read_pc" where
  "read_access m RBegin = RCopy (snap_start m)"
| "read_access m (RCopy sn) = RCopy (snap_next m sn)"

section \<open>tryLoad, from the hash on\<close>

text \<open>A load with a configuration that passed the checks: it reads the current hash; the composite literal is a
  new struct at \<open>a\<close>, which \<open>tmp\<close> points to; \<open>cfg\<close> is another one at \<open>b\<close>, a copy of it, and its address is
  stored in the control plane.\<close>

datatype load_pc =
    PBegin cp_config | PHash cp_config snapshot | PAlloc cp_config
  | PFill cp_config nat "cfg_field list" | PCopy nat nat "cfg_field list" | PDone

fun load_access :: "load_pc \<Rightarrow> memory \<Rightarrow> load_pc \<times> memory" where
  "load_access (PBegin c) m = (PHash c (snap_start m), m)"
| "load_access (PHash c (Snap p [] d)) m = (if cf_hash c = cf_hash d then PDone else PAlloc c, m)"
| "load_access (PHash c sn) m = (PHash c (snap_next m sn), m)"
| "load_access (PAlloc c) m = (PFill c (me_next m) all_fields, new_struct m)"
| "load_access (PFill c a (f # fs)) m = (PFill c a fs, set_field f c a m)"
| "load_access (PFill c a []) m = (PCopy a (me_next m) all_fields, new_struct m)"
| "load_access (PCopy a b (f # fs)) m = (PCopy a b fs, set_field f (me_heap m a) b m)"
| "load_access (PCopy a b []) m = (PDone, m\<lparr>me_ptr := Some b\<rparr>)"
| "load_access PDone m = (PDone, m)"

section \<open>All of them together\<close>

record config_store =
  cs_mem :: memory
  cs_loads :: "nat \<Rightarrow> load_pc"
  cs_reads :: "nat \<Rightarrow> read_pc"

definition store_start :: "(nat \<Rightarrow> cp_config) \<Rightarrow> config_store" where
  "store_start cs = \<lparr>cs_mem = \<lparr>me_heap = (\<lambda>_. empty_config), me_next = 0, me_ptr = None\<rparr>,
     cs_loads = (\<lambda>i. PBegin (cs i)), cs_reads = (\<lambda>_. RBegin)\<rparr>"

definition load_turn :: "nat \<Rightarrow> config_store \<Rightarrow> config_store" where
  "load_turn i s = (case load_access (cs_loads s i) (cs_mem s) of
     (l, m) \<Rightarrow> s\<lparr>cs_mem := m, cs_loads := (cs_loads s)(i := l)\<rparr>)"

definition read_turn :: "nat \<Rightarrow> config_store \<Rightarrow> config_store" where
  "read_turn i s = s\<lparr>cs_reads := (cs_reads s)(i := read_access (cs_mem s) (cs_reads s i))\<rparr>"

inductive store_step :: "config_store \<Rightarrow> config_store \<Rightarrow> bool" where
  load: "store_step s (load_turn i s)"
| read: "store_step s (read_turn i s)"

text \<open>The configuration in use.\<close>

definition in_use :: "config_store \<Rightarrow> cp_config" where
  "in_use s = struct_at (cs_mem s) (me_ptr (cs_mem s))"

section \<open>The register\<close>

datatype reg_load = AtCheck cp_config | AtStore cp_config | Over

record register =
  rg_value :: cp_config
  rg_loads :: "nat \<Rightarrow> reg_load"
  rg_reads :: "nat \<Rightarrow> cp_config option"

inductive register_step :: "register \<Rightarrow> register \<Rightarrow> bool" where
  check: "rg_loads r i = AtCheck c \<Longrightarrow>
    register_step r (r\<lparr>rg_loads := (rg_loads r)(i := if cf_hash c = cf_hash (rg_value r) then Over else AtStore c)\<rparr>)"
| store: "rg_loads r i = AtStore c \<Longrightarrow>
    register_step r (r\<lparr>rg_value := c, rg_loads := (rg_loads r)(i := Over)\<rparr>)"
| read: "rg_reads r i = None \<Longrightarrow>
    register_step r (r\<lparr>rg_reads := (rg_reads r)(i := Some (rg_value r))\<rparr>)"

definition reg_load_of :: "memory \<Rightarrow> load_pc \<Rightarrow> reg_load" where
  "reg_load_of m l =
     (case l of
        PBegin c \<Rightarrow> AtCheck c
      | PHash c (Snap p fs d) \<Rightarrow> if cf_hash c = cf_hash (struct_at m p) then Over else AtStore c
      | PAlloc c \<Rightarrow> AtStore c
      | PFill c a fs \<Rightarrow> AtStore c
      | PCopy a b fs \<Rightarrow> AtStore (me_heap m a)
      | PDone \<Rightarrow> Over)"

definition reg_read_of :: "memory \<Rightarrow> read_pc \<Rightarrow> cp_config option" where
  "reg_read_of m r = (case r of RBegin \<Rightarrow> None | RCopy (Snap p fs d) \<Rightarrow> Some (struct_at m p))"

definition register_of :: "config_store \<Rightarrow> register" where
  "register_of s = \<lparr>rg_value = in_use s, rg_loads = (\<lambda>i. reg_load_of (cs_mem s) (cs_loads s i)),
     rg_reads = (\<lambda>i. reg_read_of (cs_mem s) (cs_reads s i))\<rparr>"

section \<open>Lemmas\<close>

text \<open>A field that was copied stays copied.\<close>

lemma copy_field_again: "copy_field f c (copy_field f c d) = copy_field f c d"
  by (cases f) (simp_all add: copy_field_def)

lemma copy_field_other:
  "copy_field f c d = d \<Longrightarrow> copy_field f c (copy_field g c d) = copy_field g c d"
  by (cases f; cases g) (auto simp: copy_field_def intro: cp_config.equality dest: arg_cong [of _ _ cf_rules]
      arg_cong [of _ _ cf_regions] arg_cong [of _ _ cf_hobRegions] arg_cong [of _ _ cf_hobModes]
      arg_cong [of _ _ cf_version] arg_cong [of _ _ cf_hash])

definition copied :: "cfg_field list \<Rightarrow> cp_config \<Rightarrow> cp_config \<Rightarrow> bool" where
  "copied fs c d \<longleftrightarrow> (\<forall>f. f \<notin> set fs \<longrightarrow> copy_field f c d = d)"

lemma copied_none [simp]: "copied all_fields c d"
proof -
  have "f \<in> set all_fields" for f by (cases f) (simp_all add: all_fields_def)
  then show ?thesis by (simp add: copied_def)
qed

lemma copied_next: "copied (f # fs) c d \<Longrightarrow> copied fs c (copy_field f c d)"
  unfolding copied_def using copy_field_again copy_field_other by (metis set_ConsD)

lemma copied_all:
  assumes "copied [] c d"
  shows "d = c"
proof -
  have eq: "copy_field f c d = d" for f using assms by (simp add: copied_def)
  show ?thesis
    using arg_cong [OF eq [of F_rules], of cf_rules] arg_cong [OF eq [of F_regions], of cf_regions]
      arg_cong [OF eq [of F_hobRegions], of cf_hobRegions] arg_cong [OF eq [of F_hobModes], of cf_hobModes]
      arg_cong [OF eq [of F_rConfigVersion], of cf_version] arg_cong [OF eq [of F_configHash], of cf_hash]
    by (intro cp_config.equality) (simp_all add: copy_field_def)
qed

text \<open>The structs only one load writes to, and those anyone may read.\<close>

fun owned :: "load_pc \<Rightarrow> nat set" where
  "owned (PFill c a fs) = {a}"
| "owned (PCopy a b fs) = {a, b}"
| "owned _ = {}"

fun snap_addr :: "snapshot \<Rightarrow> nat set" where
  "snap_addr (Snap p fs d) = set_option p"

fun load_addr :: "load_pc \<Rightarrow> nat set" where
  "load_addr (PHash c sn) = snap_addr sn"
| "load_addr _ = {}"

fun read_addr :: "read_pc \<Rightarrow> nat set" where
  "read_addr RBegin = {}"
| "read_addr (RCopy sn) = snap_addr sn"

definition public :: "config_store \<Rightarrow> nat set" where
  "public s = set_option (me_ptr (cs_mem s)) \<union> (\<Union>i. load_addr (cs_loads s i)) \<union> (\<Union>i. read_addr (cs_reads s i))"

fun snap_ok :: "memory \<Rightarrow> snapshot \<Rightarrow> bool" where
  "snap_ok m (Snap p fs d) = copied fs (struct_at m p) d"

fun load_ok :: "memory \<Rightarrow> load_pc \<Rightarrow> bool" where
  "load_ok m (PHash c sn) = snap_ok m sn"
| "load_ok m (PFill c a fs) = copied fs c (me_heap m a)"
| "load_ok m (PCopy a b fs) = (a \<noteq> b \<and> copied fs (me_heap m a) (me_heap m b))"
| "load_ok m _ = True"

fun read_ok :: "memory \<Rightarrow> read_pc \<Rightarrow> bool" where
  "read_ok m RBegin = True"
| "read_ok m (RCopy sn) = snap_ok m sn"

definition store_inv :: "config_store \<Rightarrow> bool" where
  "store_inv s \<longleftrightarrow>
     (\<forall>a\<in>public s. a < me_next (cs_mem s)) \<and>
     (\<forall>i. \<forall>a\<in>owned (cs_loads s i). a < me_next (cs_mem s) \<and> a \<notin> public s) \<and>
     (\<forall>i j. i \<noteq> j \<longrightarrow> owned (cs_loads s i) \<inter> owned (cs_loads s j) = {}) \<and>
     (\<forall>i. load_ok (cs_mem s) (cs_loads s i)) \<and> (\<forall>i. read_ok (cs_mem s) (cs_reads s i))"

text \<open>What is not written to looks as before.\<close>

lemma struct_frame: "(\<And>a. a \<in> set_option p \<Longrightarrow> me_heap m' a = me_heap m a) \<Longrightarrow> struct_at m' p = struct_at m p"
  by (cases p) (simp_all add: struct_at_def)

lemma load_frame:
  assumes "\<And>a. a \<in> owned l \<union> load_addr l \<Longrightarrow> me_heap m' a = me_heap m a"
  shows "load_ok m' l = load_ok m l" and "reg_load_of m' l = reg_load_of m l"
  using assms struct_frame [of _ m' m]
  by (cases l rule: load_addr.cases; auto simp: reg_load_of_def split: snapshot.split elim!: snap_ok.elims)+

lemma read_frame:
  assumes "\<And>a. a \<in> read_addr r \<Longrightarrow> me_heap m' a = me_heap m a"
  shows "read_ok m' r = read_ok m r" and "reg_read_of m' r = reg_read_of m r"
  using assms struct_frame [of _ m' m]
  by (cases r rule: read_addr.cases; auto simp: reg_read_of_def split: snapshot.split elim!: snap_ok.elims)+

lemma snap_start_ok: "snap_ok m (snap_start m)" "snap_addr (snap_start m) = set_option (me_ptr m)"
  by (simp_all add: snap_start_def)

lemma snap_next_ok: "snap_ok m sn \<Longrightarrow> snap_ok m (snap_next m sn) \<and> snap_addr (snap_next m sn) = snap_addr sn"
  by (cases "(m, sn)" rule: snap_next.cases) (simp_all add: copied_next)

lemma heap_new [simp]: "a \<noteq> me_next m \<Longrightarrow> me_heap (new_struct m) a = me_heap m a"
  by (simp add: new_struct_def)

lemma heap_set [simp]:
  "a' \<noteq> a \<Longrightarrow> me_heap (set_field f c a m) a' = me_heap m a'"
  "me_heap (set_field f c a m) a = copy_field f c (me_heap m a)"
  by (simp_all add: set_field_def)

lemma memory_other [simp]:
  "me_next (new_struct m) = Suc (me_next m)" "me_ptr (new_struct m) = me_ptr m"
  "me_next (set_field f c a m) = me_next m" "me_ptr (set_field f c a m) = me_ptr m"
  by (simp_all add: new_struct_def set_field_def)

text \<open>An access of a load writes to the load's own structs or to a new one, and stores no pointer but
  that of the finished copy.\<close>

lemma load_access_heap:
  assumes "load_access l m = (l', m')"
  shows "me_next m \<le> me_next m'" and "a \<notin> owned l \<Longrightarrow> a < me_next m \<Longrightarrow> me_heap m' a = me_heap m a"
  using assms by (cases "(l, m)" rule: load_access.cases; fastforce split: if_splits)+

lemma load_access_owned:
  assumes "load_access l m = (l', m')" and "a \<in> owned l'"
  shows "a \<in> owned l \<or> a = me_next m \<and> a < me_next m'"
  using assms by (cases "(l, m)" rule: load_access.cases) (auto split: if_splits)

lemma load_access_addr:
  assumes "load_access l m = (l', m')"
  shows "load_addr l' \<subseteq> load_addr l \<union> set_option (me_ptr m)"
  using assms by (cases "(l, m)" rule: load_access.cases) (auto simp: snap_start_def split: if_splits)

lemma load_access_ptr:
  assumes "load_access l m = (l', m')"
  shows "me_ptr m' = me_ptr m \<or> (\<exists>a b. l = PCopy a b [] \<and> l' = PDone \<and> me_ptr m' = Some b \<and> me_heap m' = me_heap m)"
  using assms by (cases "(l, m)" rule: load_access.cases) (auto split: if_splits)

lemma load_access_ok:
  assumes "load_access l m = (l', m')" and "load_ok m l" and "\<And>a. a \<in> owned l \<Longrightarrow> a < me_next m"
  shows "load_ok m' l'"
proof (cases "\<exists>c sn. l = PHash c sn")
  case True
  then obtain c p fs d where l: "l = PHash c (Snap p fs d)" by (metis snapshot.exhaust)
  with assms(1,2) show ?thesis by (cases fs) (auto simp: copied_next)
next
  case False
  with assms show ?thesis
    by (cases "(l, m)" rule: load_access.cases) (auto simp: snap_start_ok(1) copied_next)
qed

lemma load_turn_simps:
  assumes "load_access (cs_loads s i) (cs_mem s) = (l, m)"
  shows "load_turn i s = s\<lparr>cs_mem := m, cs_loads := (cs_loads s)(i := l)\<rparr>"
  using assms by (simp add: load_turn_def)

lemma load_turn_public:
  assumes "load_access (cs_loads s i) (cs_mem s) = (l, m)"
  shows "public (load_turn i s) \<subseteq> public s \<union> owned (cs_loads s i)"
    and "public (load_turn i s) \<subseteq> public s \<or> owned l = {}"
proof -
  have ptr: "set_option (me_ptr m) \<subseteq> set_option (me_ptr (cs_mem s)) \<union> owned (cs_loads s i)"
    "set_option (me_ptr m) \<subseteq> set_option (me_ptr (cs_mem s)) \<or> owned l = {}"
    using load_access_ptr [OF assms] by auto
  have addr: "load_addr (if j = i then l else cs_loads s j) \<subseteq> load_addr (cs_loads s j) \<union> set_option (me_ptr (cs_mem s))" for j
    using load_access_addr [OF assms] by auto
  then have "(\<Union>j. load_addr (((cs_loads s)(i := l)) j)) \<subseteq> (\<Union>j. load_addr (cs_loads s j)) \<union> set_option (me_ptr (cs_mem s))"
    by (fastforce split: if_splits)
  with ptr show "public (load_turn i s) \<subseteq> public s \<union> owned (cs_loads s i)"
    "public (load_turn i s) \<subseteq> public s \<or> owned l = {}"
    unfolding public_def load_turn_simps [OF assms] by auto
qed

text \<open>So nobody else sees a change in what they read.\<close>

lemma load_turn_frame:
  assumes "store_inv s" and "load_access (cs_loads s i) (cs_mem s) = (l, m)"
  shows "a \<in> public s \<Longrightarrow> me_heap m a = me_heap (cs_mem s) a"
    and "j \<noteq> i \<Longrightarrow> a \<in> owned (cs_loads s j) \<union> load_addr (cs_loads s j) \<Longrightarrow> me_heap m a = me_heap (cs_mem s) a"
proof -
  show pub: "me_heap m a = me_heap (cs_mem s) a" if "a \<in> public s" for a
    by (rule load_access_heap(2) [OF assms(2)]) (use assms(1) that in \<open>auto simp: store_inv_def\<close>)
  show "me_heap m a = me_heap (cs_mem s) a" if "j \<noteq> i" "a \<in> owned (cs_loads s j) \<union> load_addr (cs_loads s j)"
  proof (cases "a \<in> owned (cs_loads s j)")
    case True
    then show ?thesis
      using assms(1) that(1) by (intro load_access_heap(2) [OF assms(2)]) (unfold store_inv_def, blast+)
  next
    case False
    with that have "a \<in> public s" by (auto simp: public_def)
    then show ?thesis by (rule pub)
  qed
qed

lemma store_inv_simps:
  assumes "store_inv s"
  shows "a \<in> public s \<Longrightarrow> a < me_next (cs_mem s)"
    and "a \<in> owned (cs_loads s i) \<Longrightarrow> a < me_next (cs_mem s) \<and> a \<notin> public s"
    and "i \<noteq> j \<Longrightarrow> a \<in> owned (cs_loads s i) \<Longrightarrow> a \<notin> owned (cs_loads s j)"
    and "load_ok (cs_mem s) (cs_loads s i)" and "read_ok (cs_mem s) (cs_reads s i)"
  using assms unfolding store_inv_def by blast+

lemma store_inv_load:
  assumes "store_inv s"
  shows "store_inv (load_turn i s)"
proof -
  note inv = store_inv_simps [OF assms]
  obtain l m where t: "load_access (cs_loads s i) (cs_mem s) = (l, m)" by fastforce
  note s' = load_turn_simps [OF t] and pub = load_turn_public [OF t] and grow = load_access_heap(1) [OF t]
    and own = load_access_owned [OF t] and frame = load_turn_frame [OF assms t]
  have ok: "load_ok m l" by (rule load_access_ok [OF t inv(4)]) (use inv(2) in blast)
  have 1: "a < me_next m" if "a \<in> public (load_turn i s)" for a
    using pub(1) that inv(1,2) grow by fastforce
  have mine: "a < me_next m \<and> a \<notin> public (load_turn i s) \<and> (j \<noteq> i \<longrightarrow> a \<notin> owned (cs_loads s j))" if "a \<in> owned l" for a j
  proof -
    have "public (load_turn i s) \<subseteq> public s" using pub(2) that by auto
    with own [OF that] inv(1) [of a] inv(2) [of a] inv(3) [of i j a] grow show ?thesis by fastforce
  qed
  have other: "a < me_next m \<and> a \<notin> public (load_turn i s)" if "j \<noteq> i" "a \<in> owned (cs_loads s j)" for a j
    using that pub(1) inv(2) [of a j] inv(3) [of j i a] grow by fastforce
  have "read_addr (cs_reads s j) \<subseteq> public s" for j by (auto simp: public_def)
  then have reads: "read_ok m (cs_reads s j)" for j
    using read_frame(1) [of "cs_reads s j" m "cs_mem s"] frame(1) inv(5) by blast
  have loads: "load_ok m (cs_loads s j)" if "j \<noteq> i" for j
    using load_frame(1) [of "cs_loads s j" m "cs_mem s"] frame(2) [OF that] inv(4) by blast
  have own': "cs_loads (load_turn i s) j = (if j = i then l else cs_loads s j)" "cs_mem (load_turn i s) = m"
    "cs_reads (load_turn i s) = cs_reads s" for j by (simp_all add: s')
  show ?thesis
    unfolding store_inv_def own' using 1 mine other reads loads ok inv(3) by (auto split: if_splits)
qed

lemma store_inv_read:
  assumes "store_inv s"
  shows "store_inv (read_turn i s)"
proof -
  have "read_addr (read_access (cs_mem s) (cs_reads s i)) \<subseteq> read_addr (cs_reads s i) \<union> set_option (me_ptr (cs_mem s))"
    and ok: "read_ok (cs_mem s) (read_access (cs_mem s) (cs_reads s i))"
    using snap_start_ok [of "cs_mem s"] store_inv_simps(5) [OF assms, of i] snap_next_ok [of "cs_mem s"]
    by (cases "cs_reads s i"; simp)+
  then have "read_addr (if j = i then read_access (cs_mem s) (cs_reads s i) else cs_reads s j) \<subseteq> public s" for j
    by (auto simp: public_def)
  then have "public (read_turn i s) \<subseteq> public s" by (auto simp: public_def read_turn_def split: if_splits)
  with assms ok show ?thesis unfolding store_inv_def by (auto simp: read_turn_def)
qed

lemma store_inv_start: "store_inv (store_start cs)"
  by (simp add: store_inv_def store_start_def public_def)

lemma store_inv_step: "store_step s s' \<Longrightarrow> store_inv s \<Longrightarrow> store_inv s'"
  by (auto elim: store_step.cases intro: store_inv_load store_inv_read)

lemma store_reach_inv: "store_step\<^sup>*\<^sup>* (store_start cs) s \<Longrightarrow> store_inv s"
  by (induction rule: rtranclp_induct) (use store_inv_start store_inv_step in auto)

text \<open>The accesses of a load, seen from the register: all but two change nothing.\<close>

lemma reg_load_same:
  assumes "load_access l m = (l', m')" and "load_ok m l" and "\<And>a. a \<in> owned l \<Longrightarrow> a < me_next m"
    and "\<And>c. l \<noteq> PBegin c" and "\<And>a b. l \<noteq> PCopy a b []"
  shows "reg_load_of m' l' = reg_load_of m l" and "me_ptr m' = me_ptr m"
proof -
  show "reg_load_of m' l' = reg_load_of m l"
  proof (cases "\<exists>c sn. l = PHash c sn")
    case True
    then obtain c p fs d where l: "l = PHash c (Snap p fs d)" by (metis snapshot.exhaust)
    with assms(1,2) show ?thesis by (cases fs) (auto simp: reg_load_of_def dest: copied_all)
  next
    case False
    with assms show ?thesis
      by (cases "(l, m)" rule: load_access.cases) (auto simp: reg_load_of_def dest: copied_all)
  qed
  show "me_ptr m' = me_ptr m" using load_access_ptr [OF assms(1)] assms(5) by auto
qed

lemma register_load:
  assumes "store_inv s" and "load_access (cs_loads s i) (cs_mem s) = (l, m)"
  shows "register_of (load_turn i s) = (register_of s)\<lparr>rg_value := struct_at m (me_ptr m),
    rg_loads := (rg_loads (register_of s))(i := reg_load_of m l)\<rparr>"
proof -
  note frame = load_turn_frame [OF assms]
  have "read_addr (cs_reads s j) \<subseteq> public s" for j by (auto simp: public_def)
  then have "reg_read_of m (cs_reads s j) = reg_read_of (cs_mem s) (cs_reads s j)" for j
    using read_frame(2) [of "cs_reads s j" m "cs_mem s"] frame(1) by blast
  moreover have "reg_load_of m (cs_loads s j) = reg_load_of (cs_mem s) (cs_loads s j)" if "j \<noteq> i" for j
    using load_frame(2) [of "cs_loads s j" m "cs_mem s"] frame(2) [OF that] by blast
  ultimately show ?thesis
    by (auto simp: register_of_def load_turn_simps [OF assms(2)] in_use_def)
qed

lemma in_use_frame:
  assumes "store_inv s" and "load_access (cs_loads s i) (cs_mem s) = (l, m)" and "me_ptr m = me_ptr (cs_mem s)"
  shows "struct_at m (me_ptr m) = in_use s"
  unfolding in_use_def assms(3)
  by (rule struct_frame, rule load_turn_frame(1) [OF assms(1,2)]) (auto simp: public_def)

lemma register_same: "r\<lparr>rg_value := rg_value r, rg_loads := (rg_loads r)(i := rg_loads r i)\<rparr> = (r :: register)"
  by simp

lemma load_turn_refines:
  assumes "store_inv s"
  shows "register_of (load_turn i s) = register_of s \<or> register_step (register_of s) (register_of (load_turn i s))"
proof -
  note inv = store_inv_simps [OF assms]
  let ?r = "register_of s"
  have r: "rg_value ?r = in_use s" "rg_loads ?r i = reg_load_of (cs_mem s) (cs_loads s i)"
    by (simp_all add: register_of_def)
  obtain l m where t: "load_access (cs_loads s i) (cs_mem s) = (l, m)" by fastforce
  note reg = register_load [OF assms t]
  consider c where "cs_loads s i = PBegin c" | a b where "cs_loads s i = PCopy a b []"
    | "\<And>c. cs_loads s i \<noteq> PBegin c" "\<And>a b. cs_loads s i \<noteq> PCopy a b []" by blast
  then show ?thesis
  proof cases
    case (1 c)
    then have lm: "l = PHash c (snap_start (cs_mem s))" "m = cs_mem s" using t by auto
    then have "reg_load_of m l = (if cf_hash c = cf_hash (rg_value ?r) then Over else AtStore c)"
      by (simp add: reg_load_of_def snap_start_def r(1) in_use_def)
    moreover have "rg_loads ?r i = AtCheck c" by (simp add: r(2) 1 reg_load_of_def)
    moreover have "struct_at m (me_ptr m) = rg_value ?r" by (simp add: lm r(1) in_use_def)
    ultimately show ?thesis using register_step.check [of ?r i c] unfolding reg by simp
  next
    case (2 a b)
    then have lm: "l = PDone" "m = (cs_mem s)\<lparr>me_ptr := Some b\<rparr>" using t by simp_all
    have "me_heap (cs_mem s) b = me_heap (cs_mem s) a"
      using inv(4) [of i] 2 by (auto dest: copied_all)
    then have "rg_loads ?r i = AtStore (me_heap (cs_mem s) b)" by (simp add: r(2) 2 reg_load_of_def)
    from register_step.store [OF this] show ?thesis
      unfolding reg by (simp add: lm reg_load_of_def struct_at_def)
  next
    case 3
    note same = reg_load_same [OF t inv(4) _ 3]
    have "reg_load_of m l = rg_loads ?r i" "me_ptr m = me_ptr (cs_mem s)"
      unfolding r(2) using same inv(2) by blast+
    with in_use_frame [OF assms t] r(1) show ?thesis unfolding reg by (simp add: register_same)
  qed
qed

lemma read_turn_refines:
  "register_of (read_turn i s) = register_of s \<or>
   rg_reads (register_of s) i = None \<and>
   register_of (read_turn i s) = (register_of s)\<lparr>rg_reads := (rg_reads (register_of s))(i := Some (in_use s))\<rparr>"
proof (cases "cs_reads s i")
  case RBegin
  then show ?thesis
    by (auto simp: register_of_def read_turn_def reg_read_of_def snap_start_def in_use_def)
next
  case (RCopy sn)
  obtain p fs d where sn: "sn = Snap p fs d" by (cases sn)
  obtain fs' d' where n: "snap_next (cs_mem s) sn = Snap p fs' d'" unfolding sn by (cases fs) auto
  have "reg_read_of (cs_mem s) (RCopy (snap_next (cs_mem s) sn)) = reg_read_of (cs_mem s) (cs_reads s i)"
    unfolding RCopy n by (simp add: reg_read_of_def sn)
  then show ?thesis using RCopy by (auto simp: register_of_def read_turn_def in_use_def)
qed

lemma store_step_refines:
  assumes "store_inv s" and "store_step s s'"
  shows "register_of s' = register_of s \<or> register_step (register_of s) (register_of s')"
  using assms(2)
proof (cases rule: store_step.cases)
  case (load i)
  with load_turn_refines [OF assms(1)] show ?thesis by simp
next
  case (read i)
  have "rg_value (register_of s) = in_use s" by (simp add: register_of_def)
  with read_turn_refines [of i s] register_step.read [of "register_of s" i] show ?thesis
    unfolding read(1) by auto
qed

text \<open>In the register: a value read stays, and every value was that of a load.\<close>

definition register_whole :: "(nat \<Rightarrow> cp_config) \<Rightarrow> register \<Rightarrow> bool" where
  "register_whole cs r \<longleftrightarrow>
     rg_value r \<in> insert empty_config (range cs) \<and> (\<forall>i. rg_loads r i \<in> {AtCheck (cs i), AtStore (cs i), Over})"

lemma register_step_whole: "register_step r r' \<Longrightarrow> register_whole cs r \<Longrightarrow> register_whole cs r'"
proof (induction rule: register_step.induct)
  case (store r i c)
  then have "c = cs i" unfolding register_whole_def by (metis insertE reg_load.distinct reg_load.inject(2) singletonD)
  with store show ?case by (auto simp: register_whole_def)
next
  case (check r i c)
  then have "c = cs i" unfolding register_whole_def by (metis insertE reg_load.distinct reg_load.inject(1) singletonD)
  with check show ?case by (auto simp: register_whole_def)
qed (simp add: register_whole_def)

lemma register_step_read: "register_step r r' \<Longrightarrow> rg_reads r i = Some c \<Longrightarrow> rg_reads r' i = Some c"
  by (induction rule: register_step.induct) auto

lemma store_reach_whole: "store_step\<^sup>*\<^sup>* (store_start cs) s \<Longrightarrow> register_whole cs (register_of s)"
proof (induction rule: rtranclp_induct)
  case base
  show ?case by (simp add: register_whole_def register_of_def store_start_def reg_load_of_def in_use_def struct_at_def)
next
  case (step s s')
  from store_step_refines [OF store_reach_inv [OF step.hyps(1)] step.hyps(2)] step.IH register_step_whole
  show ?case by metis
qed

lemma store_reads_keep:
  assumes "store_step\<^sup>*\<^sup>* s t" and "store_inv s" and "rg_reads (register_of s) i = Some c"
  shows "store_inv t \<and> rg_reads (register_of t) i = Some c"
  using assms(1)
proof (induction rule: rtranclp_induct)
  case base
  show ?case using assms(2,3) by simp
next
  case (step t t')
  with store_step_refines [of t t'] register_step_read [of "register_of t" "register_of t'" i c] store_inv_step
  show ?case by metis
qed

text \<open>A load nobody disturbs stores its configuration, after 23 accesses.\<close>

abbreviation load_next :: "load_pc \<times> memory \<Rightarrow> load_pc \<times> memory" where
  "load_next lm \<equiv> load_access (fst lm) (snd lm)"

lemma copy_all_fields: "fold (\<lambda>f. copy_field f c) all_fields d = c"
  by (rule cp_config.equality) (simp_all add: all_fields_def copy_field_def)

lemma length_all_fields: "length all_fields = 6"
  by (simp add: all_fields_def)

lemma funpow_Suc_app: "(f ^^ Suc n) x = (f ^^ n) (f x)"
  by (simp add: funpow_swap1)

lemma hash_run:
  "(load_next ^^ length fs) (PHash c (Snap p fs d), m) = (PHash c (Snap p [] (fold (\<lambda>f. copy_field f (struct_at m p)) fs d)), m)"
  by (induction fs arbitrary: d) (simp_all add: funpow_Suc_app del: funpow.simps(2))

lemma fill_run:
  "(load_next ^^ length fs) (PFill c a fs, m) =
     (PFill c a [], m\<lparr>me_heap := (me_heap m)(a := fold (\<lambda>f. copy_field f c) fs (me_heap m a))\<rparr>)"
  by (induction fs arbitrary: m) (simp_all add: funpow_Suc_app set_field_def del: funpow.simps(2))

lemma copy_run:
  "a \<noteq> b \<Longrightarrow> (load_next ^^ length fs) (PCopy a b fs, m) =
     (PCopy a b [], m\<lparr>me_heap := (me_heap m)(b := fold (\<lambda>f. copy_field f (me_heap m a)) fs (me_heap m b))\<rparr>)"
  by (induction fs arbitrary: m) (simp_all add: funpow_Suc_app set_field_def del: funpow.simps(2))

lemma load_alone:
  assumes "cf_hash c \<noteq> cf_hash (struct_at m (me_ptr m))"
  shows "(load_next ^^ 23) (PBegin c, m) =
    (PDone, m\<lparr>me_heap := (me_heap m)(me_next m := c, Suc (me_next m) := c),
       me_next := me_next m + 2, me_ptr := Some (Suc (me_next m))\<rparr>)"
proof -
  let ?n = "me_next m" and ?f = "\<lambda>k. load_next ^^ k"
  have "?f 23 (PBegin c, m) = ?f 1 (?f 6 (?f 1 (?f 6 (?f 1 (?f 1 (?f 6 (?f 1 (PBegin c, m))))))))"
    by (simp only: funpow_add [THEN fun_cong, unfolded comp_apply, symmetric]) simp
  moreover have "?f 1 (PBegin c, m) = (PHash c (Snap (me_ptr m) all_fields empty_config), m)"
    by (simp add: snap_start_def)
  moreover have "?f 6 (PHash c (Snap (me_ptr m) all_fields empty_config), m) = (PHash c (Snap (me_ptr m) [] (struct_at m (me_ptr m))), m)"
    using hash_run [of all_fields] by (simp only: length_all_fields copy_all_fields)
  moreover have "?f 1 (PHash c (Snap (me_ptr m) [] (struct_at m (me_ptr m))), m) = (PAlloc c, m)"
    using assms by simp
  moreover have "?f 1 (PAlloc c, m) = (PFill c ?n all_fields, new_struct m)" by simp
  moreover have "?f 6 (PFill c ?n all_fields, new_struct m) = (PFill c ?n [], (new_struct m)\<lparr>me_heap := (me_heap m)(?n := c)\<rparr>)"
    using fill_run [of all_fields c ?n "new_struct m"]
    by (simp only: length_all_fields copy_all_fields) (simp add: new_struct_def)
  moreover define m1 where "m1 = (new_struct m)\<lparr>me_heap := (me_heap m)(?n := c)\<rparr>"
  moreover have "?f 1 (PFill c ?n [], m1) = (PCopy ?n (Suc ?n) all_fields, new_struct m1)"
    by (simp add: m1_def)
  moreover have "?f 6 (PCopy ?n (Suc ?n) all_fields, new_struct m1) =
      (PCopy ?n (Suc ?n) [], (new_struct m1)\<lparr>me_heap := (me_heap m)(?n := c, Suc ?n := c)\<rparr>)"
    using copy_run [of ?n "Suc ?n" all_fields "new_struct m1"]
    by (simp only: length_all_fields copy_all_fields) (simp add: new_struct_def m1_def)
  ultimately show ?thesis by (simp add: new_struct_def m1_def)
qed

lemma load_turns_next:
  "(load_turn i ^^ n) s = s\<lparr>cs_mem := snd ((load_next ^^ n) (cs_loads s i, cs_mem s)),
     cs_loads := (cs_loads s)(i := fst ((load_next ^^ n) (cs_loads s i, cs_mem s)))\<rparr>"
  by (induction n) (simp_all add: load_turn_def case_prod_beta fun_upd_def cong: if_cong)

lemma load_turns_alone:
  assumes "cs_loads s i = PBegin c" and "cf_hash c \<noteq> cf_hash (in_use s)"
  shows "(load_turn i ^^ 23) s = s\<lparr>cs_mem := (cs_mem s)\<lparr>me_heap := (me_heap (cs_mem s))(me_next (cs_mem s) := c, Suc (me_next (cs_mem s)) := c),
       me_next := me_next (cs_mem s) + 2, me_ptr := Some (Suc (me_next (cs_mem s)))\<rparr>,
     cs_loads := (cs_loads s)(i := PDone)\<rparr>"
  unfolding load_turns_next assms(1) load_alone [OF assms(2) [unfolded in_use_def]] by simp

section \<open>Properties\<close>

text \<open>C4: no request sees half a configuration. Any number of loads and readers run beside each other, with nothing
  atomic but loading and storing the pointer. A call of \<open>loadedConfig\<close> that comes to its end has copied exactly
  the configuration that was in use when it loaded the pointer, every field of it, however many loads stored
  their own while it copied; and that is the empty one or the whole configuration of one load.\<close>

theorem no_torn_read:
  assumes "store_step\<^sup>*\<^sup>* (store_start cs) s" and "cs_reads s i = RBegin"
    and "store_step\<^sup>*\<^sup>* (read_turn i s) t" and "cs_reads t i = RCopy (Snap p [] d)"
  shows "d = in_use s \<and> (d = empty_config \<or> d \<in> range cs)"
proof -
  have inv: "store_inv s" by (rule store_reach_inv [OF assms(1)])
  have "rg_reads (register_of (read_turn i s)) i = Some (in_use s)"
    by (simp add: register_of_def read_turn_def assms(2) reg_read_of_def snap_start_def in_use_def)
  from store_reads_keep [OF assms(3) store_inv_read [OF inv] this]
  have t: "store_inv t" "struct_at (cs_mem t) p = in_use s" by (auto simp: register_of_def reg_read_of_def assms(4))
  then have "d = in_use s" using store_inv_simps(5) [OF t(1), of i] by (auto simp: assms(4) dest: copied_all)
  with store_reach_whole [OF assms(1)] show ?thesis by (auto simp: register_whole_def register_of_def)
qed

text \<open>A reader that loads the pointer, copies half of the fields, and goes on after another load is over.\<close>

definition store_config :: "int \<Rightarrow> cp_config" where
  "store_config n = test_config\<lparr>cf_version := n, cf_hash := show_int n\<rparr>"

definition store_before :: config_store where
  "store_before = (load_turn 1 ^^ 23) (store_start (\<lambda>i. store_config (int i)))"

definition store_after :: config_store where
  "store_after = (read_turn 0 ^^ 3) ((load_turn 2 ^^ 23) ((read_turn 0 ^^ 3) (read_turn 0 store_before)))"

lemma load_turns: "store_step\<^sup>*\<^sup>* s t \<Longrightarrow> store_step\<^sup>*\<^sup>* s ((load_turn i ^^ n) t)"
  by (induction n) (auto intro: rtranclp.rtrancl_into_rtrancl store_step.load)

lemma read_turns: "store_step\<^sup>*\<^sup>* s t \<Longrightarrow> store_step\<^sup>*\<^sup>* s ((read_turn i ^^ n) t)"
  by (induction n) (auto intro: rtranclp.rtrancl_into_rtrancl store_step.read)

lemma store_run:
  "store_step\<^sup>*\<^sup>* (store_start (\<lambda>i. store_config (int i))) store_before"
  "store_step\<^sup>*\<^sup>* (read_turn 0 store_before) store_after"
  unfolding store_before_def store_after_def by (intro load_turns read_turns rtranclp.rtrancl_refl)+

lemma store_before_eq:
  "store_before = \<lparr>cs_mem = \<lparr>me_heap = (\<lambda>_. empty_config)(0 := store_config 1, Suc 0 := store_config 1), me_next = 2, me_ptr = Some 1\<rparr>,
     cs_loads = (\<lambda>i. PBegin (store_config (int i)))(1 := PDone), cs_reads = (\<lambda>_. RBegin)\<rparr>"
  unfolding store_before_def
  by (subst load_turns_alone [where c = "store_config 1"])
    (simp_all add: store_start_def in_use_def struct_at_def store_config_def empty_config_def show_int_def show_nat.simps)

lemma store_run_reads:
  "cs_reads store_before 0 = RBegin" "cs_reads store_after 0 = RCopy (Snap (Some 1) [] (store_config 1))"
  "in_use store_after = store_config 2"
proof -
  show "cs_reads store_before 0 = RBegin" by (simp add: store_before_eq)
  let ?s = "(read_turn 0 ^^ 3) (read_turn 0 store_before)"
  have s: "?s = store_before\<lparr>cs_reads := (cs_reads store_before)(0 := RCopy (Snap (Some 1) [F_rConfigVersion, F_hobModes, F_configHash]
      (copy_field F_hobRegions (store_config 1) (copy_field F_regions (store_config 1) (copy_field F_rules (store_config 1) empty_config)))))\<rparr>"
    by (simp add: numeral_eq_Suc read_turn_def store_before_eq snap_start_def all_fields_def struct_at_def)
  have "(load_turn 2 ^^ 23) ?s = ?s\<lparr>cs_mem := (cs_mem ?s)\<lparr>me_heap := (me_heap (cs_mem ?s))(2 := store_config 2, 3 := store_config 2),
      me_next := 4, me_ptr := Some 3\<rparr>, cs_loads := (cs_loads ?s)(2 := PDone)\<rparr>"
    unfolding s
    by (subst load_turns_alone [where c = "store_config 2"])
      (simp_all add: store_before_eq in_use_def struct_at_def store_config_def show_int_def show_nat.simps)
  then have after: "store_after = (read_turn 0 ^^ 3) (?s\<lparr>cs_mem := (cs_mem ?s)\<lparr>me_heap := (me_heap (cs_mem ?s))(2 := store_config 2, 3 := store_config 2),
      me_next := 4, me_ptr := Some 3\<rparr>, cs_loads := (cs_loads ?s)(2 := PDone)\<rparr>)"
    by (simp only: store_after_def)
  have "fold (\<lambda>f. copy_field f (store_config 1)) all_fields empty_config = store_config 1" by (rule copy_all_fields)
  then show "cs_reads store_after 0 = RCopy (Snap (Some 1) [] (store_config 1))"
    unfolding after s
    by (simp add: numeral_eq_Suc read_turn_def store_before_eq struct_at_def all_fields_def)
  show "in_use store_after = store_config 2"
    unfolding after s by (simp add: numeral_eq_Suc read_turn_def in_use_def struct_at_def)
qed

theorem no_torn_read_witness: "store_config 1 = in_use store_before \<and> in_use store_after = store_config 2"
  using no_torn_read [OF store_run(1) store_run_reads(1) store_run(2) store_run_reads(2)] store_run_reads(3) by simp

text \<open>C18: the control plane is a register. Every access of a load or a reader to the shared memory is, seen through
  \<open>register_of\<close>, no step at all or a step of a register whose value is read and written as a whole: a load
  compares the hash of the whole value, and later puts its own configuration in its place, whole.\<close>

theorem store_refines_register:
  assumes "store_step\<^sup>*\<^sup>* (store_start cs) s" and "store_step s s'"
  shows "(register_of s' = register_of s \<or> register_step (register_of s) (register_of s')) \<and>
    rg_value (register_of s) = in_use s \<and>
    (cs_loads s' i = PDone \<longrightarrow> rg_loads (register_of s') i = Over) \<and>
    (cs_reads s' i = RCopy (Snap p [] d) \<longrightarrow> rg_reads (register_of s') i = Some d)"
proof -
  have inv: "store_inv s" by (rule store_reach_inv [OF assms(1)])
  have "rg_reads (register_of s') i = Some d" if "cs_reads s' i = RCopy (Snap p [] d)"
    using store_inv_simps(5) [OF store_inv_step [OF assms(2) inv], of i] that
    by (auto simp: register_of_def reg_read_of_def dest: copied_all)
  with store_step_refines [OF inv assms(2)] show ?thesis
    by (auto simp: register_of_def reg_load_of_def)
qed

theorem store_refines_register_witness:
  "register_of (load_turn 0 store_before) = register_of store_before \<or>
   register_step (register_of store_before) (register_of (load_turn 0 store_before))"
  using store_refines_register [OF store_run(1) store_step.load, of 0] by blast

end
