(* ===== verification/Spec2Isabelle.thy ===== *)
theory Spec2Isabelle
  imports Start_Up Routing_Spec Config_Store
begin

text \<open>
  The verification of api-proxy, the routing layer in front of the two generations of back ends (H1, a
  monolith behind a reverse proxy, and H2, services on a message bus). This theory imports every other
  one and holds the overview.

  \<^bold>\<open>The program.\<close> A request to the server (\<open>src/handler/server.go\<close>) goes through the middleware: the
  client's address (\<open>realip.go\<close>), throttling (\<open>throttling.go\<close>), the filter for card data (\<open>pcifilter.go\<close>)
  and CORS (\<open>cors.go\<close>). A multiplexer passes it on to the handler of its path: the default handler
  (\<open>handler.go\<close>), remote calls (\<open>h2rpc.go\<close>), the URLs of a region (\<open>endpoints.go\<close>), the health of the
  zone (\<open>src/statusmonitor\<close>). The default handler asks the router of the control plane
  (\<open>src/controlplane\<close>), whose rules, regions and modes come from the configuration service, which rule
  applies, tells a client on the wrong host where to go, and passes the request on to H1 (\<open>h1.go\<close>,
  \<open>src/hostmapping\<close>) or to H2 (\<open>marshaling.go\<close>, \<open>h2.go\<close>), or answers it itself (\<open>throttle.go\<close>,
  \<open>deprecate.go\<close>). Errors go out by \<open>src/errors\<close>, outcomes are counted by \<open>src/stats\<close> and watched by
  \<open>src/healthcheck\<close>. In the background the control plane reloads its configuration, the throttler
  reports the requests of every session and learns which to turn away, and the status monitor takes the
  instance out of service while its zone is ill, under a lock in ZooKeeper that keeps other zones in.

  \<^bold>\<open>The theories.\<close> The definitions keep the names of the source where HOL allows it; a method has the name
  of its type in front where the name alone would clash (\<open>Rule_Matches\<close>, \<open>Router_Region\<close>).

  \<^item> \<open>Go_Base\<close>, \<open>Go_Url\<close>, \<open>Go_Http\<close>, \<open>Fnv\<close>, \<open>Regexp\<close>: the language and its standard library, as far as the
    program uses them. Strings are byte strings, a map is an association list with distinct keys whose
    order is the order of a \<open>range\<close> over it (where one map is ranged over several times and the order
    matters, as the rules are on every load, each \<open>range\<close> has an order of its own, \<open>range_order\<close>), a panic is a value, a \<open>float32\<close> is a rational rounded by
    \<open>f32_round\<close> after every operation, counters are 64-bit words. \<open>Go_Http\<close> has the request with its
    lazily parsed form and the response writer, whose headers are fixed by the first write.
  \<^item> \<open>Session\<close>: \<open>src/session/session.go\<close>.
  \<^item> \<open>Messages\<close>: \<open>src/proto/api/api.pb.go\<close>, the messages with their optional fields and accessors.
  \<^item> \<open>Cp_Types\<close>, \<open>Rule_Sorting\<close>, \<open>Rules\<close>, \<open>Extractor\<close>, \<open>Router\<close>, \<open>Control_Plane\<close>: \<open>src/controlplane\<close>.
    \<open>Rule_Sorting\<close> sorts the rules through \<open>sort.Interface\<close>, whose contract is the locale \<open>sort_interface\<close>.
    \<open>Rules\<close> matches rules over the interface \<open>Extractor\<close> of the code, a record of operations, under the
    locale \<open>extractor_contract\<close>: all reads see one view of the request, whatever was read before.
    \<open>Extractor\<close> interprets it on the extractor of the code. \<open>Control_Plane\<close> loads, validates and installs.
  \<^item> \<open>Status_Monitor\<close>: \<open>src/statusmonitor\<close>; a fleet of monitors over one ZooKeeper as a step relation.
  \<^item> \<open>Stats\<close>: \<open>src/stats\<close> and \<open>src/healthcheck\<close>. \<open>Api_Errors\<close>: \<open>src/errors\<close> and \<open>src/trace\<close>.
  \<^item> \<open>Http_Handler\<close>: what handlers share, events and the locales \<open>http_handler\<close> (what has been sent stays
    sent) and \<open>http_middleware\<close> (a wrapper keeps that contract); every handler of the code interprets one
    of them, and \<open>NewServer_handler\<close> puts them together.
  \<^item> \<open>Middleware\<close>, \<open>Cors\<close>, \<open>Throttling\<close>: the middleware and the canned answers. \<open>Throttling\<close> is a step
    relation over the atomic accesses of the handlers and of the two goroutines, with an explicit store
    of published maps and counters.
  \<^item> \<open>Pinning\<close>: the interface \<open>Router\<close> of the code with the locale \<open>router_contract\<close>, and pinning over it.
    \<open>H1_Proxy\<close>, \<open>H2_Handler\<close>, \<open>Rpc\<close>: the back ends. \<open>Dispatch\<close>: \<open>handler.go\<close> and \<open>endpoints.go\<close> over any router
    that keeps \<open>request_router\<close>, which extends the contract of the router.
  \<^item> \<open>Reload_Race\<close>: the router as the code has it, which loads the configuration anew in every operation, so
    that a request can meet several; another interpretation of \<open>request_router\<close>; and what becomes of the
    request on its way through the router (\<open>passed_request\<close>). \<open>Routing_Spec\<close>: the
    specification of what \<open>Handler\<close> decides, as a function of the configurations and of what the request
    says, with one refinement lemma per operation of the router and the theorem that the handler carries
    the decision out, on exactly that request. Its definitions are specification, not translations.
  \<^item> \<open>Server\<close>: the multiplexer, the chain, and what \<open>src/main.go\<close> registers.
  \<^item> \<open>Throttle_Progress\<close>: the loops of the throttler come to an end. \<open>Load_Race\<close>: the first load of \<open>New\<close> beside
    its goroutine, cut at the shared accesses; what holds in every interleaving, that the loads converge
    when they are serial, what the missing lock costs, and what of a configuration depends on the order of
    a load.
  \<^item> \<open>Config_Store\<close>: the configuration in memory. Loads that fill in structs on a heap field by field and store a
    pointer, and readers that load it and copy field by field, any number of each interleaved, refine a
    register that is read and written as a whole; so no reader gets half a configuration, and the other
    theories may take a reload and a load of the configuration as one step each.
  \<^item> \<open>Whole_System\<close>: the running process, the requests in flight and the goroutines \<open>NewServer\<close> starts over one
    state, and \<open>Kill\<close>; a step relation with the invariants of the components put together,
    what can bring the process down, and shutdown. \<open>Start_Up\<close>: \<open>init\<close> and \<open>main\<close>, from
    the copy of the last good configuration to listening, and the lives of processes on one disk.

  \<^bold>\<open>The lemmas.\<close> In every theory the lemmas come after the definitions and the properties last. Frame lemmas
  (\<open>_frame\<close>, \<open>_within\<close>) say what an operation leaves alone; \<open>grow_intros\<close> carries the handler contract;
  \<open>books_\<close> lemmas keep the accounts of the throttler step by step; \<open>Fnv\<close> has the monotonicity of
  rounding on which the bounds of sampling and of rates rest; \<open>Regexp\<close> shows that its matcher decides
  the language of a pattern. A property is marked with its number, \<open>C1\<close> being the most important. Its
  companion \<open>_witness\<close> applies it to a concrete input.

  \<^bold>\<open>Bounds and fuel.\<close> No definition uses fuel: loops over data are recursive on it, and the loops that wait
  (\<open>loadCycle\<close>, the poll of the monitor) are recursive on the list of what the environment shows turn by
  turn. That they end is proved: \<open>Control_Plane\<close> shows exactly when a load cycle returns, \<open>Throttle_Progress\<close>
  bounds the turns of the ingester's loop by the swaps of the buffer, and \<open>Whole_System\<close> bounds a
  shutdown by \<open>shutdown_left\<close>. Runs of the throttler are of any length; that at most one request is lost
  per swap needs fewer than \<open>2 ^ 64\<close> counted requests, since a counter is a 64-bit word.

  \<^bold>\<open>Arguments of the model\<close> (code that is not under \<open>src/\<close>): the configuration service and the JSON decoder
  and hash of a configuration (\<open>tryLoad\<close>; \<open>hashes\<close> and \<open>told_apart\<close> where it has to be a good one), the configuration library at the start (\<open>config_lib\<close> with
  \<open>config_ok\<close>), the initialisation of the platform and what a launch meets (\<open>launch\<close>), ZooKeeper (\<open>zk_client\<close>;
  \<open>zk_ok\<close> is its documented behaviour while sessions last, lost answers included),
  the platform's client, errors, authorisation and statistics (\<open>env\<close>, \<open>pstats\<close>), the tombs that track
  goroutines (\<open>tomb_lib\<close> with \<open>tomb_ok\<close>), the throttling and the monitoring service (their replies),
  \<open>httputil.ReverseProxy\<close> with the upstream (\<open>upstream\<close>),
  \<open>mime.ParseMediaType\<close> and \<open>url.Parse\<close>, clocks and random numbers, and the profiling handlers and the
  redirection of \<open>net/http\<close>.

  \<^bold>\<open>Not modelled.\<close> Logging; durations; the call stack of an error; the effect of timeouts; parsing of flags;
  the text and wire form of the protobuf messages, which the protobuf library makes. What a request in
  flight does is computed when it finishes, from what it has read until then: its own calls to back ends
  are not interleaved with those of others, which share no state with them here. In \<open>Whole_System\<close> a cycle of
  loads is one turn, and the first load is over before the goroutines run; the accesses of loads are
  interleaved in \<open>Load_Race\<close> (the first one beside the goroutine) and \<open>Config_Store\<close> (memory). A body that
  fails yields no bytes before it fails. Overflow of a \<open>float32\<close> to infinity is out of reach here and left out.
\<close>

end
